(* ===== verification/Prelude.thy ===== *)
theory Prelude
  imports Main "HOL-Library.AList" "HOL-Library.Word" "HOL-Library.Multiset" "HOL-Library.Sublist"
begin

text \<open>
  The vocabulary the component theories share: names for the Go types the program uses,
  the collections of simplification rules (\<^verbatim>\<open>go_string\<close> for string routines, \<^verbatim>\<open>go_map\<close> for
  maps), Go maps as association lists with a fixed set of operations, the 64-bit
  signed wrap-around of Go's \<^verbatim>\<open>int\<close>, and two interfaces that several components provide:
  a transition system with an invariant, and a prefix codec (a decoder that undoes an
  encoder and hands back the rest of the stream).
\<close>

named_theorems go_string \<open>evaluation and algebra of the string routines\<close>
named_theorems go_map \<open>lookup laws of Go maps\<close>

type_synonym byte = "8 word"
type_synonym bytes = "byte list"
type_synonym time = int \<comment> \<open>an instant or a duration, in nanoseconds\<close>

text \<open>Go errors are compared by their text in this program, so an error is its text.\<close>

type_synonym error = string
type_synonym 'a result = "error + 'a"

subsection \<open>Go's signed 64-bit int\<close>

definition wrap64 :: "int \<Rightarrow> int" where
  "wrap64 x = (x + 2 ^ 63) mod 2 ^ 64 - 2 ^ 63"

lemma wrap64_id: "- (2 ^ 63) \<le> x \<Longrightarrow> x < 2 ^ 63 \<Longrightarrow> wrap64 x = x"
  by (simp add: wrap64_def)

lemma wrap64_range: "- (2 ^ 63) \<le> wrap64 x \<and> wrap64 x < 2 ^ 63"
  by (simp add: wrap64_def)

lemma wrap64_max: "wrap64 (2 ^ 63) = - (2 ^ 63)"
  by (simp add: wrap64_def)

subsection \<open>Go maps\<close>

text \<open>
  A Go map is an association list. The list order stands for one iteration order of the
  map, which Go leaves unspecified: results are stated for every list with distinct keys.
\<close>

type_synonym ('k, 'v) gomap = "('k \<times> 'v) list"

definition mget :: "('k, 'v) gomap \<Rightarrow> 'k \<Rightarrow> 'v option" where
  "mget m k = map_of m k"

definition mput :: "'k \<Rightarrow> 'v \<Rightarrow> ('k, 'v) gomap \<Rightarrow> ('k, 'v) gomap" where
  "mput k v m = AList.update k v m"

definition mdel :: "'k \<Rightarrow> ('k, 'v) gomap \<Rightarrow> ('k, 'v) gomap" where
  "mdel k m = AList.delete k m"

definition mkeys :: "('k, 'v) gomap \<Rightarrow> 'k list" where
  "mkeys m = map fst m"

abbreviation wf_map :: "('k, 'v) gomap \<Rightarrow> bool" where
  "wf_map m \<equiv> distinct (map fst m)"

lemma mget_empty [simp, go_map]: "mget [] k = None"
  by (simp add: mget_def)

lemma mget_put [simp, go_map]: "mget (mput k v m) k' = (if k' = k then Some v else mget m k')"
  by (simp add: mget_def mput_def update_conv')

lemma mget_del [simp, go_map]: "mget (mdel k m) k' = (if k' = k then None else mget m k')"
  by (simp add: mget_def mdel_def delete_conv')

lemma mget_Cons [go_map]: "mget ((k, v) # m) k' = (if k' = k then Some v else mget m k')"
  by (simp add: mget_def)

lemma wf_mput [simp]: "wf_map m \<Longrightarrow> wf_map (mput k v m)"
  by (simp add: mput_def distinct_update)

lemma wf_mdel [simp]: "wf_map m \<Longrightarrow> wf_map (mdel k m)"
  by (simp add: mdel_def distinct_delete)

lemma mget_Some_in: "mget m k = Some v \<Longrightarrow> (k, v) \<in> set m"
  by (simp add: mget_def map_of_SomeD)

lemma mget_in_wf: "wf_map m \<Longrightarrow> (k, v) \<in> set m \<longleftrightarrow> mget m k = Some v"
  by (auto simp: mget_def)

lemma mget_None_iff: "mget m k = None \<longleftrightarrow> k \<notin> fst ` set m"
  by (simp add: mget_def map_of_eq_None_iff)

lemma keys_mput: "fst ` set (mput k v m) = insert k (fst ` set m)"
  by (simp add: mput_def dom_update)

lemma keys_mdel: "fst ` set (mdel k m) = fst ` set m - {k}"
  by (auto simp: mdel_def AList.delete_eq image_iff)

lemma length_mput_new: "mget m k = None \<Longrightarrow> length (mput k v m) = Suc (length m)"
  unfolding mget_def mput_def by (induction m) (auto split: if_splits)

lemma length_mput_old: "mget m k = Some u \<Longrightarrow> length (mput k v m) = length m"
  unfolding mget_def mput_def by (induction m) (auto split: if_splits)

lemma length_mput_le: "length (mput k v m) \<le> Suc (length m)"
  by (cases "mget m k") (simp_all add: length_mput_new length_mput_old)

lemma length_mdel_le: "length (mdel k m) \<le> length m"
  by (simp add: mdel_def length_delete_le)

text \<open>The map interface the components rely on, as laws over lookup.\<close>

locale gomap_spec =
  fixes lookup :: "'m \<Rightarrow> 'k \<Rightarrow> 'v option"
    and store :: "'k \<Rightarrow> 'v \<Rightarrow> 'm \<Rightarrow> 'm"
    and remove :: "'k \<Rightarrow> 'm \<Rightarrow> 'm"
    and ok :: "'m \<Rightarrow> bool"
  assumes lookup_store: "lookup (store k v m) k' = (if k' = k then Some v else lookup m k')"
    and lookup_remove: "lookup (remove k m) k' = (if k' = k then None else lookup m k')"
    and ok_store: "ok m \<Longrightarrow> ok (store k v m)"
    and ok_remove: "ok m \<Longrightarrow> ok (remove k m)"
begin

lemma store_other: "k' \<noteq> k \<Longrightarrow> lookup (store k v m) k' = lookup m k'"
  by (simp add: lookup_store)

lemma remove_store: "lookup (remove k (store k v m)) = (lookup m)(k := None)"
  by (rule ext) (simp add: lookup_store lookup_remove)

lemma store_fold_keys:
  "lookup (fold (\<lambda>k. store k v) ks m) k' = (if k' \<in> set ks then Some v else lookup m k')"
  by (induction ks arbitrary: m) (auto simp: lookup_store)

lemma remove_fold:
  "lookup (fold remove ks m) k' = (if k' \<in> set ks then None else lookup m k')"
  by (induction ks arbitrary: m) (auto simp: lookup_remove)

lemma ok_remove_fold: "ok m \<Longrightarrow> ok (fold remove ks m)"
  by (induction ks arbitrary: m) (auto simp: ok_remove)

end

interpretation gm: gomap_spec mget mput mdel wf_map
  by unfold_locales auto

subsection \<open>Lists\<close>

text \<open>The first element that satisfies a predicate is removed; nothing happens without one.\<close>

fun remove_first :: "('a \<Rightarrow> bool) \<Rightarrow> 'a list \<Rightarrow> 'a list" where
  "remove_first P [] = []"
| "remove_first P (x # xs) = (if P x then xs else x # remove_first P xs)"

lemma remove_first_none: "\<not> (\<exists>x \<in> set xs. P x) \<Longrightarrow> remove_first P xs = xs"
  by (induction xs) auto

lemma length_remove_first:
  "length (remove_first P xs) = (if \<exists>x \<in> set xs. P x then length xs - 1 else length xs)"
  by (induction xs) (auto split: if_splits simp: Suc_diff_le length_greater_0_conv [symmetric]
      simp del: length_greater_0_conv dest: length_pos_if_in_set)

lemma set_remove_first_subset: "set (remove_first P xs) \<subseteq> set xs"
  by (induction xs) auto

lemma subseq_remove_first: "subseq (remove_first P xs) xs"
  by (induction xs) auto

lemma distinct_remove_first: "distinct xs \<Longrightarrow> distinct (remove_first P xs)"
  by (induction xs) (use set_remove_first_subset in fastforce)+

lemma remove_first_distinct_key:
  "distinct (map f xs) \<Longrightarrow> remove_first (\<lambda>x. f x = k) xs = filter (\<lambda>x. f x \<noteq> k) xs"
proof (induction xs)
  case (Cons a xs)
  then have "f a = k \<Longrightarrow> filter (\<lambda>x. f x \<noteq> k) xs = xs"
    by (intro filter_True) (metis distinct.simps(2) image_eqI list.set_map list.simps(9))
  with Cons show ?case by simp
qed simp

lemma remove_first_append:
  "remove_first P (xs @ ys) =
     (if \<exists>x \<in> set xs. P x then remove_first P xs @ ys else xs @ remove_first P ys)"
  by (induction xs) auto

subsection \<open>Transition systems\<close>

text \<open>
  States reachable from a set of initial states by a step relation, and the rule that an
  invariant kept by every step holds in all of them.
\<close>

inductive reach :: "('s \<Rightarrow> bool) \<Rightarrow> ('s \<Rightarrow> 's \<Rightarrow> bool) \<Rightarrow> 's \<Rightarrow> bool" for I step where
  init: "I s \<Longrightarrow> reach I step s"
| step: "reach I step s \<Longrightarrow> step s t \<Longrightarrow> reach I step t"

locale invariant_system =
  fixes I :: "'s \<Rightarrow> bool" and step :: "'s \<Rightarrow> 's \<Rightarrow> bool" and inv :: "'s \<Rightarrow> bool"
  assumes inv_init: "I s \<Longrightarrow> inv s"
    and inv_step: "inv s \<Longrightarrow> step s t \<Longrightarrow> inv t"
begin

lemma inv_reach: "reach I step s \<Longrightarrow> inv s"
  by (induction rule: reach.induct) (auto intro: inv_init inv_step)

lemma inv_steps: "inv s \<Longrightarrow> step\<^sup>*\<^sup>* s t \<Longrightarrow> inv t"
  by (rotate_tac, induction rule: rtranclp_induct) (auto intro: inv_step)

end

subsection \<open>Prefix codecs\<close>

text \<open>
  A wire format: an encoder and a decoder that reads one value off the front of a stream
  and returns what follows it. The law is decoding after encoding; the client lemma is that
  a concatenation of encoded values decodes to the values, in order.
\<close>

locale prefix_codec =
  fixes enc :: "'a \<Rightarrow> 'b list"
    and dec :: "'b list \<Rightarrow> ('a \<times> 'b list) option"
    and valid :: "'a \<Rightarrow> bool"
  assumes dec_enc: "valid x \<Longrightarrow> dec (enc x @ rest) = Some (x, rest)"
begin

lemma enc_inj: "valid x \<Longrightarrow> valid y \<Longrightarrow> enc x = enc y \<Longrightarrow> x = y"
  using dec_enc [of x "[]"] dec_enc [of y "[]"] by simp

lemma enc_prefix_free:
  assumes "valid x" and "valid y" and "enc x @ r = enc y @ r'"
  shows "x = y \<and> r = r'"
proof -
  have "Some (x, r) = dec (enc x @ r)" using assms(1) by (simp add: dec_enc)
  also have "\<dots> = Some (y, r')" using assms by (simp add: dec_enc)
  finally show ?thesis by simp
qed

end

end
