(* ===== verification/Names.thy ===== *)
theory Names
  imports GoStrings
begin

text \<open>
  Topic names and wildcards (\<^verbatim>\<open>internal/broker/broker.go\<close>): the two validation expressions,
  \<^verbatim>\<open>IsValidTopicName\<close>, and the regular expression a wildcard topic is compiled to. The
  compiled expressions are the fragment of Go's syntax that a name over the topic alphabet
  and \<^verbatim>\<open>*\<close> can produce: literals, \<^verbatim>\<open>.\<close> and \<^verbatim>\<open>.*\<close>. A name with other characters (it can reach the
  compiler through a log file name or a consumer group on an unchecked topic) is outside this
  fragment; compiling and matching it are the parameters \<^verbatim>\<open>xcomp\<close> and \<^verbatim>\<open>xmatch\<close>.
\<close>

definition valid_topic_char :: "char \<Rightarrow> bool" where
  "valid_topic_char c \<longleftrightarrow>
     (let n = (of_char c :: nat) in
        (97 \<le> n \<and> n \<le> 122) \<or> (65 \<le> n \<and> n \<le> 90) \<or> (48 \<le> n \<and> n \<le> 57)
        \<or> c = CHR ''.'' \<or> c = CHR ''_'' \<or> c = CHR '':'' \<or> c = CHR ''-'' \<or> c = CHR ''/'')"

definition validTopicRegex :: "string \<Rightarrow> bool" where
  "validTopicRegex s \<longleftrightarrow> s \<noteq> [] \<and> list_all valid_topic_char s"

definition validWildcardRegex :: "string \<Rightarrow> bool" where
  "validWildcardRegex s \<longleftrightarrow>
     s = ''*'' \<or> (s \<noteq> [] \<and> last s = CHR ''*'' \<and> validTopicRegex (butlast s))"

definition IsValidTopicName :: "string \<Rightarrow> bool" where
  "IsValidTopicName name \<longleftrightarrow>
     (if Contains name ''..'' then False
      else validTopicRegex name \<or> validWildcardRegex name)"

subsection \<open>Compiled wildcards\<close>

datatype rx_elem = RLit char | RAny | RStar

datatype regex = RPat "rx_elem list" | ROther string

text \<open>The characters of the pattern between the anchors, read left to right.\<close>

fun parse_pattern :: "string \<Rightarrow> rx_elem list option" where
  "parse_pattern [] = Some []"
| "parse_pattern (c # cs) =
     (if c = CHR ''.''
      then (case cs of
              d # ds \<Rightarrow> if d = CHR ''*'' then map_option ((#) RStar) (parse_pattern ds)
                        else map_option ((#) RAny) (parse_pattern cs)
            | [] \<Rightarrow> map_option ((#) RAny) (parse_pattern cs))
      else if valid_topic_char c then map_option ((#) (RLit c)) (parse_pattern cs)
      else None)"

text \<open>The expression for a wildcard topic; \<^const>\<open>None\<close> when \<^verbatim>\<open>regexp.Compile\<close> fails.\<close>

definition wildcard_regex :: "(string \<Rightarrow> bool) \<Rightarrow> string \<Rightarrow> regex option" where
  "wildcard_regex xcomp name =
     (let body = ReplaceAll name ''*'' ''.*'' in
      case parse_pattern body of
        Some p \<Rightarrow> Some (RPat p)
      | None \<Rightarrow> (if xcomp (''^'' @ body @ ''$'') then Some (ROther (''^'' @ body @ ''$'')) else None))"

definition rx_dot :: "char \<Rightarrow> bool" where
  "rx_dot c \<longleftrightarrow> c \<noteq> CHR 0x0A"

function rx_match :: "rx_elem list \<Rightarrow> string \<Rightarrow> bool" where
  "rx_match [] s = (s = [])"
| "rx_match (RLit c # ps) s = (case s of [] \<Rightarrow> False | x # xs \<Rightarrow> x = c \<and> rx_match ps xs)"
| "rx_match (RAny # ps) s = (case s of [] \<Rightarrow> False | x # xs \<Rightarrow> rx_dot x \<and> rx_match ps xs)"
| "rx_match (RStar # ps) s =
     (rx_match ps s \<or> (case s of [] \<Rightarrow> False | x # xs \<Rightarrow> rx_dot x \<and> rx_match (RStar # ps) xs))"
  by pat_completeness auto
termination
  by (relation "measures [\<lambda>(ps, s). length s + length ps]") auto

definition MatchString :: "(string \<Rightarrow> string \<Rightarrow> bool) \<Rightarrow> regex \<Rightarrow> string \<Rightarrow> bool" where
  "MatchString xmatch r s =
     (case r of RPat p \<Rightarrow> rx_match p s | ROther t \<Rightarrow> xmatch t s)"

subsection \<open>What names and wildcards denote\<close>

lemma valid_topic_char_not_star [simp]: "\<not> valid_topic_char (CHR ''*'')"
  by (simp add: valid_topic_char_def)

lemma valid_topic_char_dot [simp]: "rx_dot c" if "valid_topic_char c"
  using that by (auto simp: rx_dot_def valid_topic_char_def)

lemma valid_topic_star_free: "validTopicRegex s \<Longrightarrow> CHR ''*'' \<notin> set s"
  by (auto simp: validTopicRegex_def list_all_iff)

lemma validTopicRegex_append:
  "validTopicRegex a \<Longrightarrow> validTopicRegex b \<Longrightarrow> validTopicRegex (a @ b)"
  by (simp add: validTopicRegex_def)

lemma wildcard_cases:
  assumes "validWildcardRegex s"
  obtains p where "s = p @ ''*''" and "p = [] \<or> validTopicRegex p"
proof (cases "s = ''*''")
  case True
  then show ?thesis using that [of "[]"] by simp
next
  case False
  with assms have "s \<noteq> []" "last s = CHR ''*''" "validTopicRegex (butlast s)"
    by (simp_all add: validWildcardRegex_def)
  then show ?thesis using that [of "butlast s"] append_butlast_last_id by metis
qed

text \<open>The literal part of a name as pattern elements: a dot is any character.\<close>

definition lit_elem :: "char \<Rightarrow> rx_elem" where
  "lit_elem c = (if c = CHR ''.'' then RAny else RLit c)"

lemma parse_pattern_literal:
  "list_all valid_topic_char p \<Longrightarrow> parse_pattern p = Some (map lit_elem p)"
proof (induction p)
  case (Cons c p)
  then show ?case
    by (cases p) (auto simp: lit_elem_def)
qed simp

lemma parse_pattern_literal_star:
  "list_all valid_topic_char p \<Longrightarrow> parse_pattern (p @ ''.*'') = Some (map lit_elem p @ [RStar])"
proof (induction p)
  case (Cons c p)
  then show ?case
    by (cases p) (auto simp: lit_elem_def)
qed simp

lemma wildcard_regex_star:
  assumes "list_all valid_topic_char p"
  shows "wildcard_regex xcomp (p @ ''*'') = Some (RPat (map lit_elem p @ [RStar]))"
proof -
  have "CHR ''*'' \<notin> set p" using assms by (auto simp: list_all_iff)
  then have "ReplaceAll (p @ ''*'') ''*'' ''.*'' = p @ ''.*''"
    by (induction p) (auto simp: ReplaceAll_char)
  then show ?thesis
    using assms by (simp add: wildcard_regex_def parse_pattern_literal_star)
qed

lemma rx_match_star_tail: "rx_match [RStar] s \<longleftrightarrow> list_all rx_dot s"
  by (induction s) auto

text \<open>How one character of a name meets one character of a candidate.\<close>

definition char_meets :: "char \<Rightarrow> char \<Rightarrow> bool" where
  "char_meets p c \<longleftrightarrow> (if p = CHR ''.'' then rx_dot c else c = p)"

lemma rx_match_literal:
  "rx_match (map lit_elem p @ ps) s \<longleftrightarrow>
     (\<exists>a b. s = a @ b \<and> list_all2 char_meets p a \<and> rx_match ps b)"
proof (induction p arbitrary: s)
  case (Cons c p)
  show ?case
  proof (cases s)
    case (Cons x xs)
    have "rx_match (map lit_elem (c # p) @ ps) s \<longleftrightarrow> char_meets c x \<and> rx_match (map lit_elem p @ ps) xs"
      using Cons by (auto simp: lit_elem_def char_meets_def)
    also have "\<dots> \<longleftrightarrow> (\<exists>a b. s = a @ b \<and> list_all2 char_meets (c # p) a \<and> rx_match ps b)"
      unfolding Cons.IH by (auto simp: Cons list_all2_Cons1 Cons_eq_append_conv)
    finally show ?thesis .
  qed (auto simp: lit_elem_def list_all2_Cons1)
qed simp

lemma rx_match_wildcard:
  "rx_match (map lit_elem p @ [RStar]) s \<longleftrightarrow>
     (\<exists>a b. s = a @ b \<and> list_all2 char_meets p a \<and> list_all rx_dot b)"
  by (simp only: rx_match_literal rx_match_star_tail)

lemma char_meets_self: "valid_topic_char c \<Longrightarrow> char_meets c c"
  by (simp add: char_meets_def rx_dot_def)

lemma list_all2_meets_self: "list_all valid_topic_char p \<Longrightarrow> list_all2 char_meets p p"
  by (induction p) (auto simp: char_meets_self)

lemma list_all2_meets_dot_free: "CHR ''.'' \<notin> set p \<Longrightarrow> list_all2 char_meets p a \<longleftrightarrow> a = p"
proof (induction p arbitrary: a)
  case (Cons c p)
  then show ?case by (cases a) (auto simp: char_meets_def)
qed auto

text \<open>
  the expression compiled for a valid wildcard \<open>p*\<close> matches exactly the names
  that agree with \<open>p\<close> character by character, where a dot of \<open>p\<close> accepts any character
  but a line feed, followed by anything without a line feed; so every topic that starts with
  \<open>p\<close> is matched, and only those when \<open>p\<close> has no dot.
\<close>

theorem wildcard_matches_prefix:
  assumes "validWildcardRegex (p @ ''*'')"
  shows "\<exists>r. wildcard_regex xcomp (p @ ''*'') = Some r
     \<and> (\<forall>s. MatchString xmatch r s \<longleftrightarrow>
            (\<exists>a b. s = a @ b \<and> list_all2 char_meets p a \<and> list_all rx_dot b))
     \<and> (\<forall>s. list_all valid_topic_char s \<longrightarrow> MatchString xmatch r (p @ s))
     \<and> (CHR ''.'' \<notin> set p \<longrightarrow> (\<forall>s. MatchString xmatch r s \<longrightarrow> HasPrefix s p))"
proof -
  have p: "list_all valid_topic_char p"
    using assms by (auto simp: validWildcardRegex_def validTopicRegex_def)
  let ?r = "RPat (map lit_elem p @ [RStar])"
  have m: "MatchString xmatch ?r s \<longleftrightarrow>
      (\<exists>a b. s = a @ b \<and> list_all2 char_meets p a \<and> list_all rx_dot b)" for s
    by (simp add: MatchString_def rx_match_wildcard)
  have dots: "list_all rx_dot s \<Longrightarrow> MatchString xmatch ?r (p @ s)" for s
    using list_all2_meets_self [OF p] m by blast
  have valid: "list_all valid_topic_char s \<Longrightarrow> list_all rx_dot s" for s
    by (auto simp: list_all_iff)
  have lit: "CHR ''.'' \<notin> set p \<Longrightarrow> MatchString xmatch ?r s \<Longrightarrow> HasPrefix s p" for s
    using m by (auto simp: list_all2_meets_dot_free)
  show ?thesis
    using wildcard_regex_star [OF p, of xcomp] m dots valid lit by blast
qed

theorem wildcard_matches_prefix_witness:
  "\<exists>r. wildcard_regex (\<lambda>_. False) ''orders*'' = Some r
     \<and> MatchString (\<lambda>_ _. False) r ''orders.eu'' \<and> \<not> MatchString (\<lambda>_ _. False) r ''order''"
proof -
  have v: "validWildcardRegex (''orders'' @ ''*'')" by code_simp
  obtain r where r: "wildcard_regex (\<lambda>_. False) (''orders'' @ ''*'') = Some r"
    and yes: "\<forall>s. list_all valid_topic_char s \<longrightarrow> MatchString (\<lambda>_ _. False) r (''orders'' @ s)"
    and no: "\<forall>s. MatchString (\<lambda>_ _. False) r s \<longrightarrow> HasPrefix s ''orders''"
    using wildcard_matches_prefix [OF v, of "\<lambda>_. False" "\<lambda>_ _. False"] by auto
  have "list_all valid_topic_char ''.eu''" by code_simp
  with yes have "MatchString (\<lambda>_ _. False) r (''orders'' @ ''.eu'')" by blast
  moreover have "\<not> HasPrefix ''order'' ''orders''" by code_simp
  ultimately show ?thesis using r no by (intro exI [of _ r]) auto
qed

text \<open>
  The dots of a wildcard are not escaped when it is compiled: a subscription to
  \<open>a.b*\<close> also receives the messages of topics such as \<open>aXb\<close> that do not start with
  \<open>a.b\<close>.
\<close>

lemma wildcard_dot_overmatches:
  "\<exists>r. wildcard_regex xcomp ''a.b*'' = Some r \<and> MatchString xmatch r ''aXb''
     \<and> IsValidTopicName ''a.b*'' \<and> IsValidTopicName ''aXb'' \<and> \<not> HasPrefix ''aXb'' ''a.b''"
proof -
  let ?r = "RPat (map lit_elem ''a.b'' @ [RStar])"
  have v: "list_all valid_topic_char ''a.b''" by code_simp
  have "wildcard_regex xcomp (''a.b'' @ ''*'') = Some ?r"
    using v by (rule wildcard_regex_star)
  then have "wildcard_regex xcomp ''a.b*'' = Some ?r" by simp
  moreover have "rx_match (map lit_elem ''a.b'' @ [RStar]) ''aXb''" by code_simp
  then have "MatchString xmatch ?r ''aXb''" by (simp add: MatchString_def)
  moreover have "IsValidTopicName ''a.b*''" by code_simp
  moreover have "IsValidTopicName ''aXb''" by code_simp
  moreover have "\<not> HasPrefix ''aXb'' ''a.b''" by code_simp
  ultimately show ?thesis by blast
qed

end
