(* ===== verification/Helper.thy ===== *)
theory Helper
  imports GoStrings
begin

unbundle bit_operations_syntax

text \<open>
  \<^verbatim>\<open>internal/helper\<close>: message identifiers (\<^verbatim>\<open>uuid.go\<close>), the \<^verbatim>\<open>.env\<close> loader (\<^verbatim>\<open>env.go\<close>) and the
  payload filter (\<^verbatim>\<open>json.go\<close>). The random bytes of an identifier are an argument, since
  \<^verbatim>\<open>crypto/rand\<close> supplies them; the decoder of JSON objects is an argument of the filter.
\<close>

subsection \<open>Identifiers\<close>

definition hex_digit :: "nat \<Rightarrow> char" where
  "hex_digit n = ''0123456789abcdef'' ! n"

definition hex_byte :: "byte \<Rightarrow> string" where
  "hex_byte b = [hex_digit (unat b div 16), hex_digit (unat b mod 16)]"

definition hex_bytes :: "bytes \<Rightarrow> string" where
  "hex_bytes bs = concat (map hex_byte bs)"

definition slice :: "nat \<Rightarrow> nat \<Rightarrow> 'a list \<Rightarrow> 'a list" where
  "slice i j xs = take (j - i) (drop i xs)"

text \<open>\<^const>\<open>None\<close> stands for the panic when the random source fails.\<close>

definition NewUUID :: "bytes option \<Rightarrow> string option" where
  "NewUUID rnd = (case rnd of
     None \<Rightarrow> None
   | Some b \<Rightarrow>
      (let b = b[6 := (b ! 6 AND 0x0f) OR 0x40];
           b = b[8 := (b ! 8 AND 0x3f) OR 0x80]
       in Some (hex_bytes (slice 0 4 b) @ ''-'' @ hex_bytes (slice 4 6 b) @ ''-''
                @ hex_bytes (slice 6 8 b) @ ''-'' @ hex_bytes (slice 8 10 b) @ ''-''
                @ hex_bytes (slice 10 16 b))))"

lemma length_hex_byte [simp]: "length (hex_byte b) = 2"
  by (simp add: hex_byte_def)

lemma length_hex_bytes [simp]: "length (hex_bytes bs) = 2 * length bs"
  by (induction bs) (simp_all add: hex_bytes_def)

lemma hex_bytes_append: "hex_bytes (xs @ ys) = hex_bytes xs @ hex_bytes ys"
  by (simp add: hex_bytes_def)

lemma hex_digit_inj: "m < 16 \<Longrightarrow> n < 16 \<Longrightarrow> hex_digit m = hex_digit n \<Longrightarrow> m = n"
  unfolding hex_digit_def by (subst (asm) nth_eq_iff_index_eq) simp_all

lemma hex_byte_inj: "hex_byte a = hex_byte b \<Longrightarrow> a = b"
proof -
  assume eq: "hex_byte a = hex_byte b"
  have lt: "unat (x::byte) div 16 < 16" for x
    using unsigned_less [of x, where ?'a = nat] by (simp add: less_mult_imp_div_less)
  have "unat a div 16 = unat b div 16" and "unat a mod 16 = unat b mod 16"
    using eq lt by (auto simp: hex_byte_def intro: hex_digit_inj)
  then have "unat a = unat b" by (metis div_mult_mod_eq)
  then show "a = b" by (simp add: word_unat_eq_iff)
qed

lemma hex_bytes_inj: "hex_bytes xs = hex_bytes ys \<Longrightarrow> xs = ys"
proof (induction xs arbitrary: ys)
  case Nil
  then show ?case by (cases ys) (auto simp: hex_bytes_def hex_byte_def)
next
  case (Cons x xs)
  then obtain y ys' where ys: "ys = y # ys'"
    by (cases ys) (auto simp: hex_bytes_def hex_byte_def)
  with Cons.prems have "hex_byte x = hex_byte y" and "hex_bytes xs = hex_bytes ys'"
    by (auto simp: hex_bytes_def hex_byte_def)
  with Cons.IH ys show ?case by (auto dest: hex_byte_inj)
qed

lemma version_nibble: "unat ((b AND 0x0f) OR 0x40 :: byte) div 16 = 4"
proof -
  have "drop_bit 4 ((b AND 0x0f) OR 0x40 :: byte) = 4"
    by (simp add: drop_bit_or drop_bit_and)
  then have "unat (drop_bit 4 ((b AND 0x0f) OR 0x40 :: byte)) = 4" by simp
  then show ?thesis by (simp add: drop_bit_eq_div unat_div)
qed

lemma variant_nibble: "unat ((b AND 0x3f) OR 0x80 :: byte) div 16 \<in> {8, 9, 10, 11}"
proof -
  let ?x = "drop_bit 4 b AND 3 :: byte"
  have "drop_bit 4 ((b AND 0x3f) OR 0x80 :: byte) = ?x OR 8"
    by (simp add: drop_bit_or drop_bit_and)
  moreover have "?x = take_bit 2 (drop_bit 4 b)"
    by (simp add: take_bit_eq_mask mask_eq_exp_minus_1)
  then have "unat ?x < 4"
    by (simp add: take_bit_eq_mod unat_mod)
  then have "unat ?x \<in> {0, 1, 2, 3}" by auto
  then have "(of_nat (unat ?x) :: byte) \<in> {0, 1, 2, 3}"
    by (elim insertE emptyE) (simp_all only: of_nat_0 of_nat_1 of_nat_numeral, simp_all)
  then have "?x \<in> {0, 1, 2, 3}" by (simp only: of_nat_unat ucast_id)
  then have "unat (?x OR 8) \<in> {8, 9, 10, 11}" by auto
  ultimately have "unat (drop_bit 4 ((b AND 0x3f) OR 0x80 :: byte)) \<in> {8, 9, 10, 11}" by simp
  then show ?thesis by (simp add: drop_bit_eq_div unat_div)
qed

subsection \<open>The .env loader\<close>

definition trim_set :: "(char \<Rightarrow> bool) \<Rightarrow> string \<Rightarrow> string" where
  "trim_set P s = rev (dropWhile P (rev (dropWhile P s)))"

definition is_quote :: "char \<Rightarrow> bool" where
  "is_quote c \<longleftrightarrow> c = CHR 0x22 \<or> c = CHR 0x27"

text \<open>One line of the file, with the environment it finds and leaves.\<close>

definition load_env_line :: "string \<Rightarrow> (string, string) gomap \<Rightarrow> (string, string) gomap" where
  "load_env_line raw env =
     (let line = TrimSpace raw in
      if length line = 0 \<or> HasPrefix line ''#'' then env
      else (case SplitN line ''='' 2 of
              [k, v] \<Rightarrow>
                (let key = TrimSpace k; val = trim_set is_quote (TrimSpace v) in
                 if mget env key = None then mput key val env else env)
            | _ \<Rightarrow> env))"

text \<open>The file's lines, or \<^const>\<open>None\<close> when it cannot be opened.\<close>

definition LoadEnv :: "string list option \<Rightarrow> (string, string) gomap \<Rightarrow> (string, string) gomap" where
  "LoadEnv file env = (case file of None \<Rightarrow> env | Some lines \<Rightarrow> fold load_env_line lines env)"

lemma load_env_line_keeps: "mget env k = Some v \<Longrightarrow> mget (load_env_line l env) k = Some v"
  by (auto simp: load_env_line_def Let_def split: list.splits)

lemma fold_env_keeps: "mget env k = Some v \<Longrightarrow> mget (fold load_env_line ls env) k = Some v"
  by (induction ls arbitrary: env) (auto intro: load_env_line_keeps)

subsection \<open>The payload filter\<close>

text \<open>
  \<^verbatim>\<open>decode\<close> is \<^verbatim>\<open>json.Unmarshal\<close> into an object whose values are already rendered by \<^verbatim>\<open>%v\<close>.
\<close>

definition MatchJSONFilter ::
  "(bytes \<Rightarrow> (string, string) gomap option) \<Rightarrow> bytes \<Rightarrow> string \<Rightarrow> string \<Rightarrow> bool" where
  "MatchJSONFilter decode payload key val =
     (if key = [] then True
      else (case decode payload of
              None \<Rightarrow> False
            | Some data \<Rightarrow> (case mget data key of None \<Rightarrow> False | Some v \<Rightarrow> v = val)))"

subsection \<open>Properties\<close>

text \<open>
  with a working random source an identifier has 36 characters, its hyphens at the
  four fixed places, the version digit 4 and a variant digit from 8, 9, a and b.
\<close>

theorem NewUUID_shape:
  assumes "length b = 16"
  shows "\<exists>u. NewUUID (Some b) = Some u \<and> length u = 36
     \<and> u ! 8 = CHR ''-'' \<and> u ! 13 = CHR ''-'' \<and> u ! 18 = CHR ''-'' \<and> u ! 23 = CHR ''-''
     \<and> u ! 14 = CHR ''4'' \<and> u ! 19 \<in> {CHR ''8'', CHR ''9'', CHR ''a'', CHR ''b''}"
proof -
  obtain b0 b1 b2 b3 b4 b5 b6 b7 b8 b9 b10 b11 b12 b13 b14 b15
    where b: "b = [b0,b1,b2,b3,b4,b5,b6,b7,b8,b9,b10,b11,b12,b13,b14,b15]"
    using assms by (auto simp: numeral_eq_Suc length_Suc_conv)
  have v: "hex_digit (unat ((b6 AND 0x0f) OR 0x40 :: byte) div 16) = CHR ''4''"
    by (simp add: version_nibble hex_digit_def)
  have w: "hex_digit (unat ((b8 AND 0x3f) OR 0x80 :: byte) div 16)
      \<in> {CHR ''8'', CHR ''9'', CHR ''a'', CHR ''b''}"
    using variant_nibble [of b8] by (auto simp: hex_digit_def)
  show ?thesis
    using v w by (simp add: b NewUUID_def Let_def slice_def hex_bytes_def hex_byte_def)
qed

theorem NewUUID_shape_witness:
  "\<exists>u. NewUUID (Some (replicate 16 0xff)) = Some u \<and> length u = 36 \<and> u ! 14 = CHR ''4''"
proof -
  have "length (replicate 16 (0xff :: byte)) = 16" by simp
  from NewUUID_shape [OF this] show ?thesis by blast
qed

text \<open>
  the loader never changes a variable that is already set, whatever the file holds,
  and a variable the file defines twice keeps its first value.
\<close>

theorem LoadEnv_keeps_environment:
  assumes "mget env k = Some v \<or> (\<exists>ls ls'. file = Some (ls @ ls') \<and> mget (LoadEnv (Some ls) env) k = Some v)"
  shows "mget (LoadEnv file env) k = Some v"
  using assms by (auto simp: LoadEnv_def fold_env_keeps split: option.splits)

theorem LoadEnv_keeps_environment_witness:
  "mget (LoadEnv (Some ([''PORT=1''] @ [''PORT=2'']))  []) ''PORT'' = Some ''1''"
proof -
  have "mget (LoadEnv (Some [''PORT=1'']) []) ''PORT'' = Some ''1''" by code_simp
  then show ?thesis by (intro LoadEnv_keeps_environment) blast
qed

end
