(* ===== verification/Message.thy ===== *)
theory Message
  imports Prelude
begin

text \<open>
  \<^verbatim>\<open>internal/message\<close>: the message a broker stores, and the two time tests the program
  makes on it. A nil pointer to a time is \<^const>\<open>None\<close>; a nil and an empty header map are
  the same empty map.
\<close>

record message =
  ID :: string
  Topic :: string
  Payload :: bytes
  Timestamp :: time
  ExpiresAt :: "time option"
  DeliverAt :: "time option"
  RetryCount :: int
  Headers :: "(string, string) gomap"

text \<open>\<^verbatim>\<open>msg.ExpiresAt != nil && now.After(*msg.ExpiresAt)\<close>\<close>

definition expired :: "time \<Rightarrow> message \<Rightarrow> bool" where
  "expired now m = (case ExpiresAt m of None \<Rightarrow> False | Some e \<Rightarrow> e < now)"

text \<open>\<^verbatim>\<open>msg.DeliverAt != nil && now.Before(*msg.DeliverAt)\<close>\<close>

definition delayed :: "time \<Rightarrow> message \<Rightarrow> bool" where
  "delayed now m = (case DeliverAt m of None \<Rightarrow> False | Some d \<Rightarrow> now < d)"

text \<open>A message a consumer may receive at an instant.\<close>

definition deliverable :: "time \<Rightarrow> message \<Rightarrow> bool" where
  "deliverable now m \<longleftrightarrow> \<not> expired now m \<and> \<not> delayed now m"

lemma expired_mono: "expired now m \<Longrightarrow> now \<le> later \<Longrightarrow> expired later m"
  by (auto simp: expired_def split: option.splits)

lemma delayed_antimono: "delayed later m \<Longrightarrow> now \<le> later \<Longrightarrow> delayed now m"
  by (auto simp: delayed_def split: option.splits)

end
