(* ===== verification/Storage.thy ===== *)
theory Storage
  imports Message GoStrings
begin

unbundle bit_operations_syntax

text \<open>
  \<^verbatim>\<open>internal/storage\<close>: the append-only log of each topic. The data directory is a map from
  file names to inodes, so that an open handle keeps writing to the inode it was opened on
  after the name is removed or replaced. A log file is a sequence of lines and possibly an
  unterminated last line; the line written for a record is \<^verbatim>\<open>Line r\<close> and any text that
  \<^verbatim>\<open>json.Unmarshal\<close> rejects is \<^verbatim>\<open>Junk\<close>. Two fields of the storage are its environment and
  never change: \<^verbatim>\<open>jsonText\<close>, the JSON text of a record (the checksum is the CRC-32 of
  that text), and \<^verbatim>\<open>sysOut\<close>, the outcome of each system call in the order they are made,
  so every error path of the source is a branch here.
\<close>

subsection \<open>Records and checksums\<close>

definition RecordPut :: string where "RecordPut = ''PUT''"

definition RecordAck :: string where "RecordAck = ''ACK''"

record log_record =
  rType :: string
  rMessage :: "message option"
  rMessageID :: string
  rTimestamp :: time
  rChecksum :: "32 word"

definition crc_shift :: "32 word \<Rightarrow> 32 word" where
  "crc_shift c = (if bit c 0 then drop_bit 1 c XOR 0xEDB88320 else drop_bit 1 c)"

definition crc_byte :: "byte \<Rightarrow> 32 word \<Rightarrow> 32 word" where
  "crc_byte b c = (crc_shift ^^ 8) (c XOR ucast b)"

definition ChecksumIEEE :: "bytes \<Rightarrow> 32 word" where
  "ChecksumIEEE bs = NOT (fold crc_byte bs 0xFFFFFFFF)"

definition checksumFor :: "(log_record \<Rightarrow> bytes) \<Rightarrow> log_record \<Rightarrow> 32 word" where
  "checksumFor json rec = ChecksumIEEE (json (rec\<lparr>rChecksum := 0\<rparr>))"

definition validateRecord :: "(log_record \<Rightarrow> bytes) \<Rightarrow> log_record \<Rightarrow> bool" where
  "validateRecord json rec =
     (if rChecksum rec = 0 then True else checksumFor json rec = rChecksum rec)"

subsection \<open>Files and system calls\<close>

datatype log_line = Line log_record | Junk

record log_file =
  flines :: "log_line list"
  ftail :: "log_line option"

definition empty_file :: log_file where
  "empty_file = \<lparr>flines = [], ftail = None\<rparr>"

record os_file =
  hInode :: nat
  hClosed :: bool

text \<open>
  A call succeeds, or fails having done part of its work: a failed write left nothing (0),
  part of the line (1) or all of it but the line feed (2 and up); a failed read had
  delivered that many lines.
\<close>

datatype sys = Done | Fail nat

record DiskStorage =
  dirents :: "(string, nat) gomap"
  inodes :: "(nat, log_file) gomap"
  nextInode :: nat
  activeFiles :: "(string, os_file) gomap"
  topicLocks :: "string list"
  syncWrites :: bool
  jsonText :: "log_record \<Rightarrow> bytes"
  sysOut :: "nat \<Rightarrow> sys"
  sysTick :: nat

definition syscall :: "DiskStorage \<Rightarrow> sys \<times> DiskStorage" where
  "syscall s = (sysOut s (sysTick s), s\<lparr>sysTick := Suc (sysTick s)\<rparr>)"

definition inode :: "DiskStorage \<Rightarrow> nat \<Rightarrow> log_file" where
  "inode s i = (case mget (inodes s) i of None \<Rightarrow> empty_file | Some f \<Rightarrow> f)"

definition os_error :: error where "os_error = ''input/output error''"

definition closed_error :: error where "closed_error = ''file already closed''"

text \<open>\<^verbatim>\<open>os.OpenFile\<close> with \<^verbatim>\<open>O_CREATE\<close>; \<^verbatim>\<open>trunc\<close> is \<^verbatim>\<open>O_TRUNC\<close>.\<close>

definition open_create :: "bool \<Rightarrow> string \<Rightarrow> DiskStorage \<Rightarrow> os_file result \<times> DiskStorage" where
  "open_create trunc name s =
     (case syscall s of
        (Fail _, s) \<Rightarrow> (Inl os_error, s)
      | (Done, s) \<Rightarrow>
         (case mget (dirents s) name of
            Some i \<Rightarrow>
              (Inr \<lparr>hInode = i, hClosed = False\<rparr>,
               if trunc then s\<lparr>inodes := mput i empty_file (inodes s)\<rparr> else s)
          | None \<Rightarrow>
              (let i = nextInode s in
               (Inr \<lparr>hInode = i, hClosed = False\<rparr>,
                s\<lparr>dirents := mput name i (dirents s), inodes := mput i empty_file (inodes s),
                  nextInode := Suc i\<rparr>))))"

text \<open>One line and its line feed at the end of a file.\<close>

definition file_write :: "sys \<Rightarrow> log_line \<Rightarrow> log_file \<Rightarrow> log_file" where
  "file_write out ln f =
     (case out of
        Done \<Rightarrow> f\<lparr>flines := flines f @ [case ftail f of None \<Rightarrow> ln | Some _ \<Rightarrow> Junk], ftail := None\<rparr>
      | Fail n \<Rightarrow>
          (if n = 0 then f
           else f\<lparr>ftail := Some (if ftail f = None \<and> 2 \<le> n then ln else Junk)\<rparr>))"

definition file_Write :: "os_file \<Rightarrow> log_line \<Rightarrow> DiskStorage \<Rightarrow> error option \<times> DiskStorage" where
  "file_Write h ln s =
     (if hClosed h then (Some closed_error, s)
      else (case syscall s of
              (out, s) \<Rightarrow>
                ((case out of Done \<Rightarrow> None | Fail _ \<Rightarrow> Some os_error),
                 s\<lparr>inodes := mput (hInode h) (file_write out ln (inode s (hInode h))) (inodes s)\<rparr>)))"

definition os_call :: "DiskStorage \<Rightarrow> error option \<times> DiskStorage" where
  "os_call s = (case syscall s of
     (out, s) \<Rightarrow> ((case out of Done \<Rightarrow> None | Fail _ \<Rightarrow> Some os_error), s))"

text \<open>The lines a scanner delivers, and whether it ends with an error.\<close>

definition file_tokens :: "log_file \<Rightarrow> log_line list" where
  "file_tokens f = flines f @ (case ftail f of None \<Rightarrow> [] | Some l \<Rightarrow> [l])"

definition maxLine :: nat where
  "maxLine = 4 * 1048576"

definition too_long :: error where "too_long = ''bufio.Scanner: token too long''"

text \<open>
  The scanner's buffer is 4 MiB: a record whose text fills it ends the scan. Text that is no
  record at all is taken to fit; a longer one is a failed read.
\<close>

fun fits :: "(log_record \<Rightarrow> bytes) \<Rightarrow> log_line \<Rightarrow> bool" where
  "fits json Junk = True"
| "fits json (Line rec) = (length (json rec) < maxLine)"

definition scan_file :: "nat \<Rightarrow> DiskStorage \<Rightarrow> (log_line list \<times> error option) \<times> DiskStorage" where
  "scan_file i s =
     (case syscall s of
        (Done, s) \<Rightarrow>
          (let ls = file_tokens (inode s i) in
           ((takeWhile (fits (jsonText s)) ls,
             if list_all (fits (jsonText s)) ls then None else Some too_long), s))
      | (Fail n, s) \<Rightarrow> ((take n (file_tokens (inode s i)), Some os_error), s))"

definition os_Remove :: "string \<Rightarrow> DiskStorage \<Rightarrow> error option \<times> DiskStorage" where
  "os_Remove name s =
     (case os_call s of
        (Some e, s) \<Rightarrow> (Some e, s)
      | (None, s) \<Rightarrow> (None, s\<lparr>dirents := mdel name (dirents s)\<rparr>))"

definition os_Rename :: "string \<Rightarrow> string \<Rightarrow> DiskStorage \<Rightarrow> error option \<times> DiskStorage" where
  "os_Rename old new s =
     (case os_call s of
        (Some e, s) \<Rightarrow> (Some e, s)
      | (None, s) \<Rightarrow>
          (case mget (dirents s) old of
             None \<Rightarrow> (Some os_error, s)
           | Some i \<Rightarrow> (None, s\<lparr>dirents := mput new i (mdel old (dirents s))\<rparr>)))"

subsection \<open>Operations\<close>

definition storage_New ::
  "sys \<Rightarrow> bool \<Rightarrow> (string, nat) gomap \<Rightarrow> (nat, log_file) gomap \<Rightarrow> nat \<Rightarrow>
   (log_record \<Rightarrow> bytes) \<Rightarrow> (nat \<Rightarrow> sys) \<Rightarrow> DiskStorage result" where
  "storage_New mkdir sync dir files nxt json outs =
     (case mkdir of
        Fail _ \<Rightarrow> Inl ''failed to create data directory''
      | Done \<Rightarrow> Inr \<lparr>dirents = dir, inodes = files, nextInode = nxt, activeFiles = [],
                     topicLocks = [], syncWrites = sync, jsonText = json, sysOut = outs, sysTick = 0\<rparr>)"

definition lockFor :: "string \<Rightarrow> DiskStorage \<Rightarrow> DiskStorage" where
  "lockFor topic s = (if topic \<in> set (topicLocks s) then s else s\<lparr>topicLocks := topic # topicLocks s\<rparr>)"

definition isSafePath :: "string \<Rightarrow> error option" where
  "isSafePath topic =
     (if Contains topic ''..'' \<or> Contains topic [CHR 0x5C] \<or> HasPrefix topic ''/'' \<or> HasPrefix topic ''@''
      then Some ''unsafe topic name detected, path traversal aborted''
      else None)"

definition topicToFilename :: "string \<Rightarrow> string" where
  "topicToFilename topic = ReplaceAll (ReplaceAll topic ''/'' ''_b_'') ''@'' ''_a_''"

definition logFilePath :: "string \<Rightarrow> string" where
  "logFilePath topic = topicToFilename topic @ ''.log''"

definition FilenameToTopic :: "string \<Rightarrow> string" where
  "FilenameToTopic filename = ReplaceAll (ReplaceAll filename ''_b_'' ''/'') ''_a_'' ''@''"

definition getOrOpenFile :: "string \<Rightarrow> DiskStorage \<Rightarrow> os_file result \<times> DiskStorage" where
  "getOrOpenFile topic s =
     (case mget (activeFiles s) topic of
        Some file \<Rightarrow> (Inr file, s)
      | None \<Rightarrow>
         (case open_create False (logFilePath topic) s of
            (Inl e, s) \<Rightarrow> (Inl e, s)
          | (Inr file, s) \<Rightarrow> (Inr file, s\<lparr>activeFiles := mput topic file (activeFiles s)\<rparr>)))"

definition writeRecord :: "string \<Rightarrow> log_record \<Rightarrow> DiskStorage \<Rightarrow> error option \<times> DiskStorage" where
  "writeRecord topic rec s =
     (case isSafePath topic of
        Some e \<Rightarrow> (Some e, s)
      | None \<Rightarrow>
         (let rec = rec\<lparr>rChecksum := checksumFor (jsonText s) rec\<rparr>; s = lockFor topic s in
          case getOrOpenFile topic s of
            (Inl e, s) \<Rightarrow> (Some e, s)
          | (Inr file, s) \<Rightarrow>
             (case file_Write file (Line rec) s of
                (Some e, s) \<Rightarrow> (Some e, s)
              | (None, s) \<Rightarrow> (if syncWrites s then os_call s else (None, s)))))"

definition AppendPut :: "time \<Rightarrow> string \<Rightarrow> message \<Rightarrow> DiskStorage \<Rightarrow> error option \<times> DiskStorage" where
  "AppendPut now topic msg s =
     writeRecord topic
       \<lparr>rType = RecordPut, rMessage = Some msg, rMessageID = [], rTimestamp = now, rChecksum = 0\<rparr> s"

definition AppendAck :: "time \<Rightarrow> string \<Rightarrow> string \<Rightarrow> DiskStorage \<Rightarrow> error option \<times> DiskStorage" where
  "AppendAck now topic msgID s =
     writeRecord topic
       \<lparr>rType = RecordAck, rMessage = None, rMessageID = msgID, rTimestamp = now, rChecksum = 0\<rparr> s"

text \<open>
  The loop that \<^verbatim>\<open>LoadMessages\<close> and \<^verbatim>\<open>CompactLog\<close> share, over the value kept for a PUT
  record: the live map, the identifiers in the order of their PUT records, and the number of
  corrupted records.
\<close>

fun replay_step ::
  "(log_record \<Rightarrow> bytes) \<Rightarrow> (log_record \<Rightarrow> message \<Rightarrow> 'v) \<Rightarrow> log_line \<Rightarrow>
   (string, 'v) gomap \<times> string list \<times> nat \<Rightarrow> (string, 'v) gomap \<times> string list \<times> nat" where
  "replay_step json keep Junk (m, ids, bad) = (m, ids, Suc bad)"
| "replay_step json keep (Line rec) (m, ids, bad) =
     (if \<not> validateRecord json rec then (m, ids, Suc bad)
      else if rType rec = RecordPut then
        (case rMessage rec of
           None \<Rightarrow> (m, ids, bad)
         | Some msg \<Rightarrow> (mput (ID msg) (keep rec msg) m, ids @ [ID msg], bad))
      else if rType rec = RecordAck then (mdel (rMessageID rec) m, ids, bad)
      else (m, ids, bad))"

definition replay ::
  "(log_record \<Rightarrow> bytes) \<Rightarrow> (log_record \<Rightarrow> message \<Rightarrow> 'v) \<Rightarrow> log_line list \<Rightarrow>
   (string, 'v) gomap \<times> string list \<times> nat" where
  "replay json keep ls = fold (replay_step json keep) ls ([], [], 0)"

definition collect_live :: "(string, 'v) gomap \<times> string list \<times> nat \<Rightarrow> 'v list" where
  "collect_live r = (case r of (m, ids, bad) \<Rightarrow> List.map_filter (mget m) ids)"

definition active_messages :: "(log_record \<Rightarrow> bytes) \<Rightarrow> log_line list \<Rightarrow> message list" where
  "active_messages json ls = collect_live (replay json (\<lambda>rec msg. msg) ls)"

definition LoadMessages ::
  "string \<Rightarrow> DiskStorage \<Rightarrow> (message list \<times> error option) \<times> DiskStorage" where
  "LoadMessages topic s =
     (case isSafePath topic of
        Some e \<Rightarrow> (([], Some e), s)
      | None \<Rightarrow>
         (let s = lockFor topic s;
              legacy = ReplaceAll topic ''/'' ''@'' @ ''.log'' in
          case (case mget (dirents s) (logFilePath topic) of
                  Some i \<Rightarrow> Some i | None \<Rightarrow> mget (dirents s) legacy) of
            None \<Rightarrow> (([], None), s)
          | Some i \<Rightarrow>
             (case os_call s of
                (Some e, s) \<Rightarrow> (([], Some e), s)
              | (None, s) \<Rightarrow>
                 (case scan_file i s of
                    ((ls, err), s) \<Rightarrow> ((active_messages (jsonText s) ls, err), s)))))"

text \<open>Writing the surviving records to the temporary file; stops at the first failed write.\<close>

fun write_all :: "os_file \<Rightarrow> log_record list \<Rightarrow> DiskStorage \<Rightarrow> error option \<times> DiskStorage" where
  "write_all h [] s = (None, s)"
| "write_all h (rec # recs) s =
     (case file_Write h (Line (rec\<lparr>rChecksum := checksumFor (jsonText s) rec\<rparr>)) s of
        (Some e, s) \<Rightarrow> (Some e, s)
      | (None, s) \<Rightarrow> write_all h recs s)"

definition close_active :: "string \<Rightarrow> DiskStorage \<Rightarrow> DiskStorage" where
  "close_active topic s = s\<lparr>activeFiles := mdel topic (activeFiles s)\<rparr>"

text \<open>The second half of \<^verbatim>\<open>CompactLog\<close>: the temporary file and the rename.\<close>

definition compact_replace ::
  "string \<Rightarrow> log_record list \<Rightarrow> DiskStorage \<Rightarrow> error option \<times> DiskStorage" where
  "compact_replace filename recs s =
     (let tmpFilename = filename @ ''.tmp'' in
      case open_create True tmpFilename s of
        (Inl e, s) \<Rightarrow> (Some e, s)
      | (Inr tmpFile, s) \<Rightarrow>
         (case write_all tmpFile recs s of
            (Some e, s) \<Rightarrow> (Some e, snd (os_Remove tmpFilename s))
          | (None, s) \<Rightarrow>
             (case os_call s of
                (Some e, s) \<Rightarrow> (Some ''failed to sync compacted log'', snd (os_Remove tmpFilename s))
              | (None, s) \<Rightarrow>
                 (case os_Rename tmpFilename filename s of
                    (Some e, s) \<Rightarrow> (Some ''failed to replace old log with compacted version'', s)
                  | (None, s) \<Rightarrow> (None, snd (os_call s))))))"

definition CompactLog :: "string \<Rightarrow> DiskStorage \<Rightarrow> error option \<times> DiskStorage" where
  "CompactLog topic s =
     (case isSafePath topic of
        Some e \<Rightarrow> (Some e, s)
      | None \<Rightarrow>
         (let s = close_active topic (lockFor topic s); filename = logFilePath topic in
          case mget (dirents s) filename of
            None \<Rightarrow> (None, s)
          | Some i \<Rightarrow>
             (case os_call s of
                (Some e, s) \<Rightarrow> (Some e, s)
              | (None, s) \<Rightarrow>
                 (case scan_file i s of
                    ((ls, Some e), s) \<Rightarrow> (Some ''error scanning log file during compaction'', s)
                  | ((ls, None), s) \<Rightarrow>
                      compact_replace filename
                        (collect_live (replay (jsonText s) (\<lambda>rec msg. rec) ls)) s))))"

definition CloseAll :: "DiskStorage \<Rightarrow> DiskStorage" where
  "CloseAll s =
     fold (\<lambda>topic s. close_active topic (snd (os_call s))) (mkeys (activeFiles s)) s"

definition ClearLog :: "string \<Rightarrow> DiskStorage \<Rightarrow> error option \<times> DiskStorage" where
  "ClearLog topic s =
     (case isSafePath topic of
        Some e \<Rightarrow> (Some e, s)
      | None \<Rightarrow>
         (let s = lockFor topic s;
              s = (case mget (activeFiles s) topic of
                     None \<Rightarrow> s
                   | Some file \<Rightarrow> s\<lparr>activeFiles := mput topic (file\<lparr>hClosed := True\<rparr>) (activeFiles s)\<rparr>) in
          case open_create True (logFilePath topic) s of
            (Inl e, s) \<Rightarrow> (Some e, s)
          | (Inr file, s) \<Rightarrow> (None, s\<lparr>activeFiles := mput topic file (activeFiles s)\<rparr>)))"

definition DeleteLog :: "string \<Rightarrow> DiskStorage \<Rightarrow> error option \<times> DiskStorage" where
  "DeleteLog topic s =
     (case isSafePath topic of
        Some e \<Rightarrow> (Some e, s)
      | None \<Rightarrow>
         (let s = close_active topic (lockFor topic s); filename = logFilePath topic in
          case mget (dirents s) filename of
            None \<Rightarrow> (None, s)
          | Some i \<Rightarrow> os_Remove filename s))"

end
