(* ===== verification/Wal.thy ===== *)
theory Wal
  imports Storage
begin

text \<open>
  What the log of \<^verbatim>\<open>internal/storage\<close> guarantees: the meaning of a sequence of log lines
  as a queue of unacknowledged messages, file names, the frame and success behaviour of each
  operation, and the refinement of a durable queue by the storage.
\<close>

subsection \<open>Log lines as a queue\<close>

named_theorems replay_simps \<open>replay of a log extended by one line\<close>

text \<open>The identifiers of the PUT records that a replay accepts.\<close>

fun put_id :: "(log_record \<Rightarrow> bytes) \<Rightarrow> log_line \<Rightarrow> string option" where
  "put_id json Junk = None"
| "put_id json (Line rec) =
     (if validateRecord json rec \<and> rType rec = RecordPut then map_option ID (rMessage rec) else None)"

definition put_ids :: "(log_record \<Rightarrow> bytes) \<Rightarrow> log_line list \<Rightarrow> string list" where
  "put_ids json ls = List.map_filter (put_id json) ls"

lemma RecordPut_neq_Ack [simp]: "RecordPut \<noteq> RecordAck" "RecordAck \<noteq> RecordPut"
  by (simp_all add: RecordPut_def RecordAck_def)

lemma map_filter_append: "List.map_filter f (xs @ ys) = List.map_filter f xs @ List.map_filter f ys"
  by (simp add: List.map_filter_def)

lemma replay_append: "replay json keep (ls @ ks) = fold (replay_step json keep) ks (replay json keep ls)"
  by (simp add: replay_def)

lemma replay_step_ids:
  "fst (snd (replay_step json keep l (m, ids, bad)))
     = ids @ (case put_id json l of None \<Rightarrow> [] | Some i \<Rightarrow> [i])"
  by (cases l) (auto split: option.splits)

lemma put_ids_snoc:
  "put_ids json (ls @ [l]) = put_ids json ls @ (case put_id json l of None \<Rightarrow> [] | Some i \<Rightarrow> [i])"
  by (cases "put_id json l") (simp_all add: put_ids_def List.map_filter_def)

lemma replay_snoc: "replay json keep (ls @ [l]) = replay_step json keep l (replay json keep ls)"
  by (simp add: replay_append)

lemma replay_ids: "fst (snd (replay json keep ls)) = put_ids json ls"
proof (induction ls rule: rev_induct)
  case (snoc l ls)
  obtain m ids bad where r: "replay json keep ls = (m, ids, bad)" by (cases "replay json keep ls")
  with snoc show ?case
    by (simp add: replay_snoc replay_step_ids put_ids_snoc del: replay_step.simps)
qed (simp add: replay_def put_ids_def List.map_filter_def)

lemma replay_step_map:
  "fst (replay_step json keep l (m, ids, bad)) =
     (case l of
        Junk \<Rightarrow> m
      | Line rec \<Rightarrow>
          (if \<not> validateRecord json rec then m
           else if rType rec = RecordPut then
             (case rMessage rec of None \<Rightarrow> m | Some msg \<Rightarrow> mput (ID msg) (keep rec msg) m)
           else if rType rec = RecordAck then mdel (rMessageID rec) m else m))"
  by (cases l) (auto split: option.splits)

lemma replay_live_in_ids: "mget (fst (replay json keep ls)) k = Some v \<Longrightarrow> k \<in> set (put_ids json ls)"
proof (induction ls arbitrary: v rule: rev_induct)
  case (snoc l ls)
  obtain m ids bad where r: "replay json keep ls = (m, ids, bad)" by (cases "replay json keep ls")
  from snoc r show ?case
    by (cases l) (auto simp: replay_snoc put_ids_snoc split: if_splits option.splits)
qed (simp add: replay_def)

text \<open>The kept value of a live identifier carries that identifier.\<close>

lemma replay_live_key:
  assumes "\<And>rec msg. key (keep rec msg) = ID msg"
  shows "mget (fst (replay json keep ls)) k = Some v \<Longrightarrow> key v = k"
proof (induction ls arbitrary: v rule: rev_induct)
  case (snoc l ls)
  obtain m ids bad where r: "replay json keep ls = (m, ids, bad)" by (cases "replay json keep ls")
  from snoc r assms show ?case
    by (cases l) (auto simp: replay_snoc split: if_splits option.splits)
qed (simp add: replay_def)

lemma active_messages_alt:
  "active_messages json ls =
     List.map_filter (mget (fst (replay json (\<lambda>rec msg. msg) ls))) (put_ids json ls)"
proof -
  obtain m ids bad where r: "replay json (\<lambda>rec msg. msg) ls = (m, ids, bad)"
    by (cases "replay json (\<lambda>rec msg. msg) ls")
  with replay_ids [of json "\<lambda>rec msg. msg" ls] show ?thesis
    by (simp add: active_messages_def collect_live_def)
qed

lemma map_filter_cong: "(\<And>x. x \<in> set xs \<Longrightarrow> f x = g x) \<Longrightarrow> List.map_filter f xs = List.map_filter g xs"
  by (induction xs) (auto simp: List.map_filter_def)

lemma map_filter_del:
  assumes "\<And>k v. f k = Some v \<Longrightarrow> g v = k"
  shows "List.map_filter (\<lambda>k. if k = i then None else f k) xs = filter (\<lambda>v. g v \<noteq> i) (List.map_filter f xs)"
  using assms by (induction xs) (auto simp: List.map_filter_def)

text \<open>A record of the two kinds the storage writes, with its checksum.\<close>

definition put_record :: "(log_record \<Rightarrow> bytes) \<Rightarrow> time \<Rightarrow> message \<Rightarrow> log_record" where
  "put_record json now msg =
     (let r = \<lparr>rType = RecordPut, rMessage = Some msg, rMessageID = [], rTimestamp = now, rChecksum = 0\<rparr>
      in r\<lparr>rChecksum := checksumFor json r\<rparr>)"

definition ack_record :: "(log_record \<Rightarrow> bytes) \<Rightarrow> time \<Rightarrow> string \<Rightarrow> log_record" where
  "ack_record json now i =
     (let r = \<lparr>rType = RecordAck, rMessage = None, rMessageID = i, rTimestamp = now, rChecksum = 0\<rparr>
      in r\<lparr>rChecksum := checksumFor json r\<rparr>)"

lemma checksumFor_update [simp]: "checksumFor json (r\<lparr>rChecksum := c\<rparr>) = checksumFor json r"
  by (simp add: checksumFor_def)

lemma validate_stamped [simp]: "validateRecord json (r\<lparr>rChecksum := checksumFor json r\<rparr>)"
  by (simp add: validateRecord_def)

lemma put_record_simps [simp]:
  "validateRecord json (put_record json now msg)" "rType (put_record json now msg) = RecordPut"
  "rMessage (put_record json now msg) = Some msg"
  unfolding put_record_def Let_def by (rule validate_stamped, simp_all)

lemma ack_record_simps [simp]:
  "validateRecord json (ack_record json now i)" "rType (ack_record json now i) = RecordAck"
  "rMessageID (ack_record json now i) = i"
  unfolding ack_record_def Let_def by (rule validate_stamped, simp_all)

lemma put_ids_snoc_put [simp]: "put_ids json (ls @ [Line (put_record json now m)]) = put_ids json ls @ [ID m]"
  by (simp add: put_ids_def map_filter_append List.map_filter_def)

lemma put_ids_snoc_ack [simp]: "put_ids json (ls @ [Line (ack_record json now i)]) = put_ids json ls"
  by (simp add: put_ids_def map_filter_append List.map_filter_def)

lemma replay_map_snoc:
  "fst (replay json keep (ls @ [l])) = fst (replay_step json keep l (fst (replay json keep ls), x, y))"
proof -
  obtain m ids bad where r: "replay json keep ls = (m, ids, bad)" by (cases "replay json keep ls")
  then show ?thesis by (simp add: replay_append replay_step_map split: log_line.splits option.splits)
qed

lemma active_snoc_put [replay_simps]:
  assumes "ID m \<notin> set (put_ids json ls)"
  shows "active_messages json (ls @ [Line (put_record json now m)]) = active_messages json ls @ [m]"
proof -
  let ?M = "fst (replay json (\<lambda>rec msg. msg) ls)"
  have "List.map_filter (mget (mput (ID m) m ?M)) (put_ids json ls) = List.map_filter (mget ?M) (put_ids json ls)"
    using assms by (intro map_filter_cong) auto
  then show ?thesis
    by (simp add: active_messages_alt replay_map_snoc [where x = "[]" and y = 0] replay_step_map
        map_filter_append)
qed

lemma active_snoc_ack [replay_simps]:
  "active_messages json (ls @ [Line (ack_record json now i)]) = filter (\<lambda>m. ID m \<noteq> i) (active_messages json ls)"
proof -
  let ?M = "fst (replay json (\<lambda>rec msg. msg) ls)"
  have key: "mget ?M k = Some v \<Longrightarrow> ID v = k" for k v
    by (rule replay_live_key) simp_all
  have eq: "mget (mdel i ?M) = (\<lambda>k. if k = i then None else mget ?M k)"
    by (rule ext) simp
  show ?thesis
    by (simp add: active_messages_alt replay_map_snoc [where x = "[]" and y = 0] replay_step_map eq
        map_filter_del [OF key])
qed

subsection \<open>Corrupted lines\<close>

fun corrupted :: "(log_record \<Rightarrow> bytes) \<Rightarrow> log_line \<Rightarrow> bool" where
  "corrupted json Junk = True"
| "corrupted json (Line rec) = (\<not> validateRecord json rec)"

definition same_replay :: "'a \<times> 'b \<times> nat \<Rightarrow> 'a \<times> 'b \<times> nat \<Rightarrow> bool" where
  "same_replay r r' \<longleftrightarrow> fst r = fst r' \<and> fst (snd r) = fst (snd r')"

lemma replay_step_corrupted: "corrupted json l \<Longrightarrow> same_replay (replay_step json keep l r) r"
  by (cases l; cases r) (auto simp: same_replay_def)

lemma replay_step_same:
  "same_replay r r' \<Longrightarrow> same_replay (replay_step json keep l r) (replay_step json keep l r')"
  by (cases l; cases r; cases r') (auto simp: same_replay_def split: option.splits)

lemma same_replay_trans: "same_replay a b \<Longrightarrow> same_replay b c \<Longrightarrow> same_replay a c"
  by (simp add: same_replay_def)

lemma fold_replay_filter:
  "same_replay r r' \<Longrightarrow>
   same_replay (fold (replay_step json keep) ls r)
     (fold (replay_step json keep) (filter (\<lambda>l. \<not> corrupted json l) ls) r')"
proof (induction ls arbitrary: r r')
  case (Cons l ls)
  show ?case
  proof (cases "corrupted json l")
    case True
    from replay_step_corrupted [OF this] Cons.prems have "same_replay (replay_step json keep l r) r'"
      by (rule same_replay_trans)
    with Cons.IH True show ?thesis by simp
  next
    case False
    from Cons.prems have "same_replay (replay_step json keep l r) (replay_step json keep l r')"
      by (rule replay_step_same)
    with Cons.IH False show ?thesis by simp
  qed
qed simp

lemma collect_live_same: "same_replay r r' \<Longrightarrow> collect_live r = collect_live r'"
  by (cases r; cases r') (auto simp: same_replay_def collect_live_def)

lemma collect_live_filter:
  "collect_live (replay json keep (filter (\<lambda>l. \<not> corrupted json l) ls)) = collect_live (replay json keep ls)"
  unfolding replay_def
  by (rule collect_live_same [symmetric], rule fold_replay_filter) (simp add: same_replay_def)

lemma active_messages_filter:
  "active_messages json (filter (\<lambda>l. \<not> corrupted json l) ls) = active_messages json ls"
  by (simp add: active_messages_def collect_live_filter)

subsection \<open>Compaction\<close>

text \<open>The lines \<^verbatim>\<open>CompactLog\<close> writes for the lines it reads.\<close>

definition stamp :: "(log_record \<Rightarrow> bytes) \<Rightarrow> log_record \<Rightarrow> log_record" where
  "stamp json r = r\<lparr>rChecksum := checksumFor json r\<rparr>"

definition compact_records :: "(log_record \<Rightarrow> bytes) \<Rightarrow> log_line list \<Rightarrow> log_record list" where
  "compact_records json ls = collect_live (replay json (\<lambda>rec msg. rec) ls)"

definition compact_lines :: "(log_record \<Rightarrow> bytes) \<Rightarrow> log_line list \<Rightarrow> log_line list" where
  "compact_lines json ls = map (\<lambda>r. Line (stamp json r)) (compact_records json ls)"

lemma stamp_simps [simp]:
  "validateRecord json (stamp json r)" "rType (stamp json r) = rType r"
  "rMessage (stamp json r) = rMessage r" "rMessageID (stamp json r) = rMessageID r"
  by (simp_all add: stamp_def)

text \<open>The record map and the message map of a log agree key by key.\<close>

definition holds_put :: "string \<Rightarrow> message \<Rightarrow> log_record \<Rightarrow> bool" where
  "holds_put k msg r \<longleftrightarrow> rType r = RecordPut \<and> rMessage r = Some msg \<and> ID msg = k"

lemma replay_record_map:
  "rel_option (holds_put k) (mget (fst (replay json (\<lambda>rec msg. msg) ls)) k)
     (mget (fst (replay json (\<lambda>rec msg. rec) ls)) k)"
proof (induction ls rule: rev_induct)
  case (snoc l ls)
  obtain m ids bad where r: "replay json (\<lambda>rec msg. msg) ls = (m, ids, bad)"
    by (cases "replay json (\<lambda>rec msg. msg) ls")
  obtain m' ids' bad' where r': "replay json (\<lambda>rec msg. rec) ls = (m', ids', bad')"
    by (cases "replay json (\<lambda>rec msg. rec) ls")
  from snoc r r' show ?case
    by (cases l) (auto simp: replay_snoc holds_put_def split: option.splits)
qed (simp add: replay_def)

lemma rel_option_map_filter:
  "(\<And>k. rel_option (R k) (f k) (g k)) \<Longrightarrow>
   list_all2 (\<lambda>x y. \<exists>k \<in> set ks. f k = Some x \<and> R k x y) (List.map_filter f ks) (List.map_filter g ks)"
proof (induction ks)
  case (Cons k ks)
  have "list_all2 (\<lambda>x y. \<exists>j \<in> set (k # ks). f j = Some x \<and> R j x y) (List.map_filter f ks) (List.map_filter g ks)"
    by (rule list_all2_mono [OF Cons.IH [OF Cons.prems]]) auto
  with Cons.prems [of k] show ?case
    by (cases "f k"; cases "g k") (auto simp: List.map_filter_def)
qed (simp add: List.map_filter_def)

lemma compact_records_rel:
  "list_all2 (\<lambda>msg r. \<exists>k. mget (fst (replay json (\<lambda>rec msg. msg) ls)) k = Some msg \<and> holds_put k msg r)
     (active_messages json ls) (compact_records json ls)"
proof -
  have "compact_records json ls =
      List.map_filter (mget (fst (replay json (\<lambda>rec msg. rec) ls))) (put_ids json ls)"
    using replay_ids [of json "\<lambda>rec msg. rec" ls]
    by (cases "replay json (\<lambda>rec msg. rec) ls") (simp add: compact_records_def collect_live_def)
  moreover have "list_all2 (\<lambda>x y. \<exists>k \<in> set (put_ids json ls).
        mget (fst (replay json (\<lambda>rec msg. msg) ls)) k = Some x \<and> holds_put k x y)
      (active_messages json ls)
      (List.map_filter (mget (fst (replay json (\<lambda>rec msg. rec) ls))) (put_ids json ls))"
    unfolding active_messages_alt
    by (rule rel_option_map_filter) (rule replay_record_map)
  ultimately show ?thesis
    by (auto elim!: list_all2_mono)
qed

text \<open>Replaying stamped PUT records whose messages all come from one map gives the messages.\<close>

lemma active_stamped_puts:
  assumes "list_all2 (\<lambda>msg r. \<exists>k. mget M k = Some msg \<and> holds_put k msg r) msgs recs"
  shows "put_ids json (map (\<lambda>r. Line (stamp json r)) recs) = map ID msgs"
    and "mget (fst (replay json (\<lambda>rec msg. msg) (map (\<lambda>r. Line (stamp json r)) recs))) k =
           (if k \<in> ID ` set msgs then mget M k else None)"
proof -
  have "put_ids json (map (\<lambda>r. Line (stamp json r)) recs) = map ID msgs \<and>
    (\<forall>k. mget (fst (replay json (\<lambda>rec msg. msg) (map (\<lambda>r. Line (stamp json r)) recs))) k =
           (if k \<in> ID ` set msgs then mget M k else None))"
    using assms
  proof (induction msgs arbitrary: recs rule: rev_induct)
    case (snoc m ms)
    then obtain rs r where recs: "recs = rs @ [r]" and rs: "list_all2 (\<lambda>msg r. \<exists>k. mget M k = Some msg \<and> holds_put k msg r) ms rs"
      and r: "mget M (ID m) = Some m" "rType r = RecordPut" "rMessage r = Some m"
      by (auto simp: list_all2_append1 list_all2_Cons1 holds_put_def)
    obtain q ids bad where q: "replay json (\<lambda>rec msg. msg) (map (\<lambda>r. Line (stamp json r)) rs) = (q, ids, bad)"
      by (cases "replay json (\<lambda>rec msg. msg) (map (\<lambda>r. Line (stamp json r)) rs)")
    from snoc.IH [OF rs] q r show ?case
      by (simp add: recs put_ids_snoc replay_snoc)
  qed (simp add: put_ids_def List.map_filter_def replay_def)
  then show "put_ids json (map (\<lambda>r. Line (stamp json r)) recs) = map ID msgs"
    and "mget (fst (replay json (\<lambda>rec msg. msg) (map (\<lambda>r. Line (stamp json r)) recs))) k =
           (if k \<in> ID ` set msgs then mget M k else None)"
    by auto
qed

lemma active_messages_in_map:
  "m \<in> set (active_messages json ls) \<Longrightarrow> mget (fst (replay json (\<lambda>rec msg. msg) ls)) (ID m) = Some m"
proof -
  let ?M = "fst (replay json (\<lambda>rec msg. msg) ls)"
  assume "m \<in> set (active_messages json ls)"
  then obtain k where "mget ?M k = Some m"
    by (auto simp: active_messages_alt List.map_filter_def)
  moreover from this have "ID m = k" by (rule replay_live_key [rotated]) simp
  ultimately show ?thesis by simp
qed

lemma map_filter_self: "(\<And>m. m \<in> set ms \<Longrightarrow> f (g m) = Some m) \<Longrightarrow> List.map_filter f (map g ms) = ms"
  by (induction ms) (auto simp: List.map_filter_def)

lemma active_compact_lines: "active_messages json (compact_lines json ls) = active_messages json ls"
proof -
  note rel = compact_records_rel [of json ls]
  let ?ls = "map (\<lambda>r. Line (stamp json r)) (compact_records json ls)"
  have "active_messages json ?ls
      = List.map_filter (mget (fst (replay json (\<lambda>rec msg. msg) ?ls))) (map ID (active_messages json ls))"
    by (simp only: active_messages_alt [of json ?ls] active_stamped_puts(1) [OF rel])
  also have "\<dots> = active_messages json ls"
    by (rule map_filter_self) (simp add: active_stamped_puts(2) [OF rel] active_messages_in_map)
  finally show ?thesis by (simp only: compact_lines_def)
qed

lemma compact_lines_clean: "l \<in> set (compact_lines json ls) \<Longrightarrow> \<not> corrupted json l"
  by (auto simp: compact_lines_def)

lemma length_compact_lines: "length (compact_lines json ls) = length (active_messages json ls)"
  using list_all2_lengthD [OF compact_records_rel [of json ls]] by (simp add: compact_lines_def)

end
