(* ===== verification/WalFiles.thy ===== *)
theory WalFiles
  imports Wal
begin

text \<open>
  The storage operations on the directory: file names, the well-formedness of the directory
  and its handles, and for each operation what it does to the log it names and that it leaves
  every other log alone. Nothing here assumes that system calls succeed unless it says so.
\<close>

subsection \<open>File names\<close>

text \<open>Topic names whose encoding can be undone: safe, and without \<^verbatim>\<open>_\<close> and \<^verbatim>\<open>@\<close>.\<close>

definition clean_name :: "string \<Rightarrow> bool" where
  "clean_name t \<longleftrightarrow> isSafePath t = None \<and> CHR ''_'' \<notin> set t \<and> CHR ''@'' \<notin> set t"

lemma decode_slashes:
  "CHR ''_'' \<notin> set t \<Longrightarrow> ReplaceAll (ReplaceAll t ''/'' ''_b_'') ''_b_'' ''/'' = t"
  by (induction t) (auto simp: ReplaceAll_char)

lemma topicToFilename_no_at: "CHR ''@'' \<notin> set t \<Longrightarrow> topicToFilename t = ReplaceAll t ''/'' ''_b_''"
proof -
  assume "CHR ''@'' \<notin> set t"
  then have "CHR ''@'' \<notin> set (ReplaceAll t ''/'' ''_b_'')"
    using set_ReplaceAll_char [of t "CHR ''/''" "''_b_''"] by auto
  then show ?thesis
    by (simp add: topicToFilename_def ReplaceAll_absent Contains_char)
qed

lemma filename_roundtrip:
  assumes "CHR ''_'' \<notin> set t" and "CHR ''@'' \<notin> set t"
  shows "FilenameToTopic (topicToFilename t) = t"
proof -
  have "\<not> Contains t ''_a_''"
    using assms(1) by (auto simp: Contains_iff)
  then show ?thesis
    using assms by (simp add: FilenameToTopic_def topicToFilename_no_at decode_slashes ReplaceAll_absent)
qed

lemma logFilePath_inj:
  assumes "clean_name t" and "clean_name t'" and "logFilePath t = logFilePath t'"
  shows "t = t'"
proof -
  have "topicToFilename t = topicToFilename t'" using assms(3) by (simp add: logFilePath_def)
  then have "FilenameToTopic (topicToFilename t) = FilenameToTopic (topicToFilename t')" by simp
  with assms(1,2) show ?thesis by (simp add: clean_name_def filename_roundtrip)
qed

lemma set_logFilePath: "CHR ''/'' \<notin> set (logFilePath t) \<and> CHR ''@'' \<notin> set (logFilePath t)"
proof -
  have "CHR ''/'' \<notin> set (ReplaceAll t ''/'' ''_b_'')"
    using set_ReplaceAll_char [of t "CHR ''/''" "''_b_''"] by auto
  then show ?thesis
    using set_ReplaceAll_char [of "ReplaceAll t ''/'' ''_b_''" "CHR ''@''" "''_a_''"]
    by (auto simp: logFilePath_def topicToFilename_def)
qed

lemma tmp_not_log: "logFilePath t @ ''.tmp'' \<noteq> logFilePath t'"
proof
  assume "logFilePath t @ ''.tmp'' = logFilePath t'"
  then have "last (logFilePath t @ ''.tmp'') = last (logFilePath t')" by simp
  then show False by (simp add: logFilePath_def)
qed

subsection \<open>Directories and handles\<close>

definition wf_storage :: "DiskStorage \<Rightarrow> bool" where
  "wf_storage s \<longleftrightarrow>
     (\<forall>n n' i. mget (dirents s) n = Some i \<and> mget (dirents s) n' = Some i \<longrightarrow> n = n')
     \<and> (\<forall>n i. mget (dirents s) n = Some i \<longrightarrow> i < nextInode s)"

definition healthy :: "DiskStorage \<Rightarrow> bool" where
  "healthy s \<longleftrightarrow> (\<forall>n. sysOut s n = Done)"

definition log_of :: "DiskStorage \<Rightarrow> string \<Rightarrow> log_file" where
  "log_of s name = (case mget (dirents s) name of None \<Rightarrow> empty_file | Some i \<Rightarrow> inode s i)"

text \<open>The handle of a topic, if there is one, is open on the file that has the topic's name.\<close>

definition live_handle :: "DiskStorage \<Rightarrow> string \<Rightarrow> bool" where
  "live_handle s t \<longleftrightarrow>
     (\<forall>h. mget (activeFiles s) t = Some h \<longrightarrow>
        \<not> hClosed h \<and> mget (dirents s) (logFilePath t) = Some (hInode h))"

definition frame :: "string set \<Rightarrow> DiskStorage \<Rightarrow> DiskStorage \<Rightarrow> bool" where
  "frame N s s' \<longleftrightarrow>
     jsonText s' = jsonText s \<and> sysOut s' = sysOut s \<and> syncWrites s' = syncWrites s
     \<and> (\<forall>n. n \<notin> N \<longrightarrow> mget (dirents s') n = mget (dirents s) n \<and> log_of s' n = log_of s n)"

lemma frame_refl [simp]: "frame N s s"
  by (simp add: frame_def)

lemma frame_trans: "frame N s s' \<Longrightarrow> frame N s' s'' \<Longrightarrow> frame N s s''"
  by (simp add: frame_def)

lemma frame_mono: "frame N s s' \<Longrightarrow> N \<subseteq> N' \<Longrightarrow> frame N' s s'"
  by (auto simp: frame_def)

lemma frame_healthy: "frame N s s' \<Longrightarrow> healthy s \<Longrightarrow> healthy s'"
  by (simp add: frame_def healthy_def)

lemma frame_json: "frame N s s' \<Longrightarrow> jsonText s' = jsonText s"
  by (simp add: frame_def)

text \<open>Changes of the storage that no log can see.\<close>

lemma inode_irrelevant [simp]:
  "inode (s\<lparr>sysTick := k\<rparr>) i = inode s i"
  "inode (s\<lparr>topicLocks := l\<rparr>) i = inode s i"
  "inode (s\<lparr>activeFiles := a\<rparr>) i = inode s i"
  "inode (s\<lparr>dirents := d\<rparr>) i = inode s i"
  by (simp_all add: inode_def)

lemma log_of_irrelevant [simp]:
  "log_of (s\<lparr>sysTick := k\<rparr>) n = log_of s n"
  "log_of (s\<lparr>topicLocks := l\<rparr>) n = log_of s n"
  "log_of (s\<lparr>activeFiles := a\<rparr>) n = log_of s n"
  by (simp_all add: log_of_def split: option.split)

lemma wf_irrelevant [simp]:
  "wf_storage (s\<lparr>sysTick := k\<rparr>) = wf_storage s"
  "wf_storage (s\<lparr>topicLocks := l\<rparr>) = wf_storage s"
  "wf_storage (s\<lparr>activeFiles := a\<rparr>) = wf_storage s"
  by (simp_all add: wf_storage_def)

lemma frame_irrelevant [simp]:
  "frame N s (s\<lparr>sysTick := k\<rparr>)" "frame N s (s\<lparr>topicLocks := l\<rparr>)" "frame N s (s\<lparr>activeFiles := a\<rparr>)"
  by (simp_all add: frame_def)

lemma frame_tick: "frame N s s' \<Longrightarrow> frame N s (s'\<lparr>sysTick := k\<rparr>)"
  by (simp add: frame_def)

lemma lockFor_simps [simp]:
  "dirents (lockFor t s) = dirents s" "activeFiles (lockFor t s) = activeFiles s"
  "jsonText (lockFor t s) = jsonText s" "sysOut (lockFor t s) = sysOut s"
  "sysTick (lockFor t s) = sysTick s" "syncWrites (lockFor t s) = syncWrites s"
  "log_of (lockFor t s) n = log_of s n" "wf_storage (lockFor t s) = wf_storage s"
  "inode (lockFor t s) i = inode s i" "frame N s (lockFor t s)"
  by (simp_all add: lockFor_def)

lemma close_active_simps [simp]:
  "dirents (close_active t s) = dirents s" "activeFiles (close_active t s) = mdel t (activeFiles s)"
  "jsonText (close_active t s) = jsonText s" "sysOut (close_active t s) = sysOut s"
  "sysTick (close_active t s) = sysTick s" "syncWrites (close_active t s) = syncWrites s"
  "log_of (close_active t s) n = log_of s n" "wf_storage (close_active t s) = wf_storage s"
  "inode (close_active t s) i = inode s i" "frame N s (close_active t s)"
  by (simp_all add: close_active_def)

lemma syscall_simps:
  "syscall s = (sysOut s (sysTick s), s\<lparr>sysTick := Suc (sysTick s)\<rparr>)"
  by (simp add: syscall_def)

lemma os_call_eq:
  "os_call s = ((case sysOut s (sysTick s) of Done \<Rightarrow> None | Fail _ \<Rightarrow> Some os_error),
     s\<lparr>sysTick := Suc (sysTick s)\<rparr>)"
  by (simp add: os_call_def syscall_def)

lemma snd_os_call: "snd (os_call s) = s\<lparr>sysTick := Suc (sysTick s)\<rparr>"
  by (simp add: os_call_eq)

lemma healthy_os_call: "healthy s \<Longrightarrow> fst (os_call s) = None"
  by (simp add: os_call_eq healthy_def)

lemma not_healthy: "sysOut s n = Fail k \<Longrightarrow> \<not> healthy s"
  by (metis healthy_def sys.distinct(1))

text \<open>Replacing the contents of one inode.\<close>

lemma log_of_inode_update:
  assumes "wf_storage s" and "mget (dirents s) n = Some i"
  shows "log_of (s\<lparr>inodes := mput i f (inodes s)\<rparr>) n' = (if n' = n then f else log_of s n')"
  using assms by (auto simp: log_of_def inode_def wf_storage_def split: option.splits)

lemma wf_inode_update [simp]: "wf_storage (s\<lparr>inodes := x\<rparr>) = wf_storage s"
  by (simp add: wf_storage_def)

lemma file_Write_spec:
  assumes "file_Write h ln s = (e, s')" and "wf_storage s" and "\<not> hClosed h"
    and "mget (dirents s) n = Some (hInode h)"
  shows "frame {n} s s'" and "wf_storage s'" and "dirents s' = dirents s"
    and "activeFiles s' = activeFiles s"
    and "log_of s' n = file_write (sysOut s (sysTick s)) ln (log_of s n)"
    and "e = None \<longleftrightarrow> sysOut s (sysTick s) = Done"
proof -
  let ?s1 = "s\<lparr>sysTick := Suc (sysTick s)\<rparr>"
  have s': "s' = ?s1\<lparr>inodes := mput (hInode h) (file_write (sysOut s (sysTick s)) ln (inode s (hInode h))) (inodes ?s1)\<rparr>"
    and e: "e = (case sysOut s (sysTick s) of Done \<Rightarrow> None | Fail _ \<Rightarrow> Some os_error)"
    using assms(1,3) by (auto simp: file_Write_def syscall_def)
  have log: "log_of s' n' = (if n' = n then file_write (sysOut s (sysTick s)) ln (inode s (hInode h)) else log_of s n')" for n'
    unfolding s' using assms(2,4) by (subst log_of_inode_update [where n = n]) auto
  have "log_of s n = inode s (hInode h)" using assms(4) by (simp add: log_of_def)
  with log show "log_of s' n = file_write (sysOut s (sysTick s)) ln (log_of s n)" by simp
  show "frame {n} s s'" using log by (simp add: frame_def s')
  show "wf_storage s'" using assms(2) by (simp add: s')
  show "dirents s' = dirents s" "activeFiles s' = activeFiles s" by (simp_all add: s')
  show "e = None \<longleftrightarrow> sysOut s (sysTick s) = Done" by (simp add: e split: sys.splits)
qed

lemma open_create_spec:
  assumes "open_create tr n s = (r, s')" and "wf_storage s"
  shows "frame {n} s s'" and "wf_storage s'" and "activeFiles s' = activeFiles s"
    and "r = Inr h \<Longrightarrow> \<not> hClosed h \<and> mget (dirents s') n = Some (hInode h)
           \<and> log_of s' n = (if tr then empty_file else log_of s n)"
    and "r = Inl e \<Longrightarrow> dirents s' = dirents s \<and> log_of s' n = log_of s n"
    and "healthy s \<Longrightarrow> \<exists>h. r = Inr h"
proof -
  let ?s1 = "s\<lparr>sysTick := Suc (sysTick s)\<rparr>"
  consider (fail) "r = Inl os_error" "s' = ?s1" "sysOut s (sysTick s) \<noteq> Done"
    | (old) i where "mget (dirents s) n = Some i" "r = Inr \<lparr>hInode = i, hClosed = False\<rparr>"
        "s' = (if tr then ?s1\<lparr>inodes := mput i empty_file (inodes ?s1)\<rparr> else ?s1)"
    | (new) "mget (dirents s) n = None" "r = Inr \<lparr>hInode = nextInode s, hClosed = False\<rparr>"
        "s' = ?s1\<lparr>dirents := mput n (nextInode s) (dirents s),
           inodes := mput (nextInode s) empty_file (inodes s), nextInode := Suc (nextInode s)\<rparr>"
    using assms(1) by (auto simp: open_create_def syscall_def Let_def split: sys.splits option.splits if_splits)
  then have "frame {n} s s' \<and> wf_storage s' \<and> activeFiles s' = activeFiles s
    \<and> (\<forall>h. r = Inr h \<longrightarrow> \<not> hClosed h \<and> mget (dirents s') n = Some (hInode h)
           \<and> log_of s' n = (if tr then empty_file else log_of s n))
    \<and> (\<forall>e. r = Inl e \<longrightarrow> dirents s' = dirents s \<and> log_of s' n = log_of s n)
    \<and> (healthy s \<longrightarrow> (\<exists>h. r = Inr h))"
  proof cases
    case fail
    then show ?thesis using assms(2) by (auto simp: healthy_def)
  next
    case old
    have "log_of s' n' = (if n' = n \<and> tr then empty_file else log_of s n')" for n'
      using old assms(2) log_of_inode_update [of ?s1 n i empty_file n'] by auto
    moreover have "log_of s n = inode s i" using old by (simp add: log_of_def)
    ultimately show ?thesis using old assms(2) by (auto simp: frame_def)
  next
    case new
    have "log_of s' n' = (if n' = n then empty_file else log_of s n')" for n'
      using new assms(2) by (auto simp: log_of_def inode_def wf_storage_def split: option.splits)
    moreover have "wf_storage s'"
      using new assms(2) by (auto simp: wf_storage_def less_SucI split: if_splits)
    moreover have "log_of s n = empty_file" using new by (simp add: log_of_def)
    ultimately show ?thesis using new by (auto simp: frame_def)
  qed
  then show "frame {n} s s'" "wf_storage s'" "activeFiles s' = activeFiles s"
    "r = Inr h \<Longrightarrow> \<not> hClosed h \<and> mget (dirents s') n = Some (hInode h)
           \<and> log_of s' n = (if tr then empty_file else log_of s n)"
    "r = Inl e \<Longrightarrow> dirents s' = dirents s \<and> log_of s' n = log_of s n"
    "healthy s \<Longrightarrow> \<exists>h. r = Inr h"
    by auto
qed

subsection \<open>Appending\<close>

lemma live_handle_lock [simp]: "live_handle (lockFor t s) t' = live_handle s t'"
  by (simp add: live_handle_def)

lemma getOrOpenFile_spec:
  assumes "getOrOpenFile t s = (r, s')" and "wf_storage s" and "live_handle s t"
  shows "frame {logFilePath t} s s'" and "wf_storage s'"
    and "log_of s' (logFilePath t) = log_of s (logFilePath t)"
    and "\<And>h. r = Inr h \<Longrightarrow> \<not> hClosed h \<and> mget (dirents s') (logFilePath t) = Some (hInode h)
           \<and> mget (activeFiles s') t = Some h"
    and "live_handle s' t" and "\<And>t'. t' \<noteq> t \<Longrightarrow> mget (activeFiles s') t' = mget (activeFiles s) t'"
    and "healthy s \<Longrightarrow> \<exists>h. r = Inr h"
proof -
  consider (have_file) h where "mget (activeFiles s) t = Some h" "r = Inr h" "s' = s"
    | (fail) e where "mget (activeFiles s) t = None" "open_create False (logFilePath t) s = (Inl e, s')" "r = Inl e"
    | (opened) h s1 where "mget (activeFiles s) t = None" "open_create False (logFilePath t) s = (Inr h, s1)"
        "r = Inr h" "s' = s1\<lparr>activeFiles := mput t h (activeFiles s1)\<rparr>"
    using assms(1) by (auto simp: getOrOpenFile_def split: option.splits prod.splits sum.splits)
  then have "frame {logFilePath t} s s' \<and> wf_storage s'
    \<and> log_of s' (logFilePath t) = log_of s (logFilePath t)
    \<and> (\<forall>h. r = Inr h \<longrightarrow> \<not> hClosed h \<and> mget (dirents s') (logFilePath t) = Some (hInode h)
           \<and> mget (activeFiles s') t = Some h)
    \<and> live_handle s' t \<and> (\<forall>t'. t' \<noteq> t \<longrightarrow> mget (activeFiles s') t' = mget (activeFiles s) t')
    \<and> (healthy s \<longrightarrow> (\<exists>h. r = Inr h))"
  proof cases
    case have_file
    then show ?thesis using assms(2,3) by (auto simp: live_handle_def)
  next
    case fail
    note oc = open_create_spec [OF fail(2) assms(2)]
    from oc(1-3) oc(5) oc(6) fail show ?thesis by (auto simp: live_handle_def)
  next
    case opened
    note oc = open_create_spec [OF opened(2) assms(2)]
    have "frame {logFilePath t} s s'" using frame_trans [OF oc(1)] opened(4) by simp
    with oc(2,3) oc(4) [OF refl] opened show ?thesis by (auto simp: live_handle_def)
  qed
  then show "frame {logFilePath t} s s'" "wf_storage s'"
    "log_of s' (logFilePath t) = log_of s (logFilePath t)"
    "\<And>h. r = Inr h \<Longrightarrow> \<not> hClosed h \<and> mget (dirents s') (logFilePath t) = Some (hInode h)
           \<and> mget (activeFiles s') t = Some h"
    "live_handle s' t" "\<And>t'. t' \<noteq> t \<Longrightarrow> mget (activeFiles s') t' = mget (activeFiles s) t'"
    "healthy s \<Longrightarrow> \<exists>h. r = Inr h"
    by blast+
qed

text \<open>
  Whatever the system calls do, an append changes one log, by at most one line; it reports
  success only when the line was written.
\<close>

definition grown :: "log_record \<Rightarrow> error option \<Rightarrow> log_file \<Rightarrow> log_file \<Rightarrow> bool" where
  "grown rec e f f' \<longleftrightarrow>
     (\<exists>out. f' = file_write out (Line rec) f \<and> (e = None \<longrightarrow> out = Done)) \<or> (f' = f \<and> e \<noteq> None)"

lemma writeRecord_spec:
  assumes w: "writeRecord t rec s = (e, s')" and wf: "wf_storage s" and live: "live_handle s t"
  shows "frame {logFilePath t} s s'" and "wf_storage s'" and "live_handle s' t"
    and "\<And>t'. t' \<noteq> t \<Longrightarrow> mget (activeFiles s') t' = mget (activeFiles s) t'"
    and "grown (stamp (jsonText s) rec) e (log_of s (logFilePath t)) (log_of s' (logFilePath t))"
    and "healthy s \<Longrightarrow> isSafePath t = None \<Longrightarrow> e = None"
proof -
  let ?rec = "stamp (jsonText s) rec" and ?n = "logFilePath t"
  have wf1: "wf_storage (lockFor t s)" and live1: "live_handle (lockFor t s) t" using wf live by simp_all
  consider (unsafe) x where "isSafePath t = Some x" "e = Some x" "s' = s"
    | (noopen) e1 where "isSafePath t = None" "getOrOpenFile t (lockFor t s) = (Inl e1, s')" "e = Some e1"
    | (opened) h s1 where "isSafePath t = None" "getOrOpenFile t (lockFor t s) = (Inr h, s1)"
        "(e, s') = (case file_Write h (Line ?rec) s1 of (Some e, s) \<Rightarrow> (Some e, s)
           | (None, s) \<Rightarrow> (if syncWrites s then os_call s else (None, s)))"
    using w by (auto simp: writeRecord_def Let_def stamp_def split: option.splits prod.splits sum.splits)
  then have "frame {?n} s s' \<and> wf_storage s' \<and> live_handle s' t
    \<and> (\<forall>t'. t' \<noteq> t \<longrightarrow> mget (activeFiles s') t' = mget (activeFiles s) t')
    \<and> grown ?rec e (log_of s ?n) (log_of s' ?n) \<and> (healthy s \<longrightarrow> isSafePath t = None \<longrightarrow> e = None)"
  proof cases
    case unsafe
    then show ?thesis using wf live by (auto simp: grown_def)
  next
    case noopen
    note g = getOrOpenFile_spec [OF noopen(2) wf1 live1]
    have "frame {?n} s s'" by (rule frame_trans [OF _ g(1)]) simp
    moreover have "healthy s \<Longrightarrow> False" using g(7) by (simp add: healthy_def)
    ultimately show ?thesis using g(2,3,5,6) noopen by (auto simp: grown_def)
  next
    case opened
    note g = getOrOpenFile_spec [OF opened(2) wf1 live1]
    obtain e2 s2 where w2: "file_Write h (Line ?rec) s1 = (e2, s2)" by (cases "file_Write h (Line ?rec) s1")
    have h: "\<not> hClosed h" "mget (dirents s1) ?n = Some (hInode h)" using g(4) by auto
    note f = file_Write_spec [OF w2 g(2) h]
    have s': "\<exists>k. s' = s2\<lparr>sysTick := k\<rparr>"
      using opened(3) w2 by (auto simp: os_call_eq split: option.splits if_splits intro: exI [of _ "sysTick s2"])
    then obtain k where k: "s' = s2\<lparr>sysTick := k\<rparr>" ..
    have "frame {?n} s s2" by (rule frame_trans [OF frame_trans [OF _ g(1)] f(1)]) simp
    then have fr: "frame {?n} s s'" by (simp add: k frame_def)
    have live': "live_handle s' t"
      using g(5) f(3,4) by (simp add: k live_handle_def)
    have grow: "grown ?rec e (log_of s ?n) (log_of s' ?n)"
      using opened(3) w2 f(5,6) g(3) unfolding grown_def
      by (intro disjI1 exI [of _ "sysOut s1 (sysTick s1)"])
        (auto simp: k os_call_eq split: option.splits if_splits)
    have ok: "healthy s \<Longrightarrow> e = None"
    proof -
      assume "healthy s"
      then have "healthy s1" using g(1) by (auto simp: frame_def healthy_def)
      moreover from this have "healthy s2" using f(1) by (auto simp: frame_def healthy_def)
      ultimately show "e = None" using opened(3) w2 f(6) healthy_os_call [of s2]
        by (auto simp: healthy_def os_call_eq split: option.splits if_splits)
    qed
    from fr live' grow ok f(2,4) g(6) show ?thesis by (auto simp: k)
  qed
  then show "frame {?n} s s'" "wf_storage s'" "live_handle s' t"
    "\<And>t'. t' \<noteq> t \<Longrightarrow> mget (activeFiles s') t' = mget (activeFiles s) t'"
    "grown ?rec e (log_of s ?n) (log_of s' ?n)"
    "healthy s \<Longrightarrow> isSafePath t = None \<Longrightarrow> e = None"
    by blast+
qed

subsection \<open>Loading\<close>

definition legacy_name :: "string \<Rightarrow> string" where
  "legacy_name t = ReplaceAll t ''/'' ''@'' @ ''.log''"

text \<open>The messages the log file named after a topic stands for.\<close>

definition recovered :: "DiskStorage \<Rightarrow> string \<Rightarrow> message list" where
  "recovered s t = active_messages (jsonText s) (file_tokens (log_of s (logFilePath t)))"

text \<open>Every line of the log fits the scanner's buffer.\<close>

definition readable :: "DiskStorage \<Rightarrow> string \<Rightarrow> bool" where
  "readable s n \<longleftrightarrow> list_all (fits (jsonText s)) (file_tokens (log_of s n))"

lemma scan_file_eq:
  "scan_file i s =
     ((case sysOut s (sysTick s) of
         Done \<Rightarrow> (if list_all (fits (jsonText s)) (file_tokens (inode s i))
                  then (file_tokens (inode s i), None)
                  else (takeWhile (fits (jsonText s)) (file_tokens (inode s i)), Some too_long))
       | Fail n \<Rightarrow> (take n (file_tokens (inode s i)), Some os_error)),
      s\<lparr>sysTick := Suc (sysTick s)\<rparr>)"
  by (simp add: scan_file_def syscall_def Let_def list_all_iff takeWhile_eq_all_conv split: sys.splits)

lemma LoadMessages_frame:
  assumes "LoadMessages t s = (r, s')"
  shows "frame {} s s'" and "activeFiles s' = activeFiles s" and "dirents s' = dirents s"
    and "wf_storage s' = wf_storage s"
proof -
  have "\<exists>k. s' = s \<or> s' = (lockFor t s)\<lparr>sysTick := k\<rparr> \<or> s' = lockFor t s"
    using assms
    by (auto simp: LoadMessages_def Let_def os_call_eq scan_file_eq split: option.splits prod.splits sys.splits if_splits)
  then show "frame {} s s'" "activeFiles s' = activeFiles s" "dirents s' = dirents s"
    "wf_storage s' = wf_storage s"
    by (auto simp: frame_def)
qed

lemma file_tokens_empty [simp]: "file_tokens empty_file = []"
  by (simp add: file_tokens_def empty_file_def)

lemma active_messages_Nil [simp]: "active_messages json [] = []"
  by (simp add: active_messages_def replay_def collect_live_def List.map_filter_def)

lemma LoadMessages_healthy:
  assumes "healthy s" and "readable s (logFilePath t)" and "isSafePath t = None"
    and "mget (dirents s) (logFilePath t) = None \<Longrightarrow> mget (dirents s) (legacy_name t) = None"
  shows "fst (LoadMessages t s) = (recovered s t, None)"
proof (cases "mget (dirents s) (logFilePath t)")
  case None
  with assms show ?thesis
    by (simp add: LoadMessages_def Let_def recovered_def log_of_def legacy_name_def)
next
  case (Some i)
  with assms(1-3) show ?thesis
    by (simp add: LoadMessages_def Let_def recovered_def readable_def log_of_def os_call_eq scan_file_eq
        healthy_def)
qed

subsection \<open>Compaction\<close>

lemma file_write_Done [simp]:
  "ftail f = None \<Longrightarrow> file_write Done ln f = f\<lparr>flines := flines f @ [ln], ftail := None\<rparr>"
  by (simp add: file_write_def)

lemma write_all_spec:
  assumes "write_all h recs s = (e, s')" and "wf_storage s" and "\<not> hClosed h"
    and "mget (dirents s) n = Some (hInode h)"
  shows "frame {n} s s'" and "wf_storage s'" and "dirents s' = dirents s" and "activeFiles s' = activeFiles s"
    and "e = None \<Longrightarrow> ftail (log_of s n) = None \<Longrightarrow>
           flines (log_of s' n) = flines (log_of s n) @ map (\<lambda>r. Line (stamp (jsonText s) r)) recs
           \<and> ftail (log_of s' n) = None"
    and "healthy s \<Longrightarrow> e = None"
proof -
  have "frame {n} s s' \<and> wf_storage s' \<and> dirents s' = dirents s \<and> activeFiles s' = activeFiles s
    \<and> (e = None \<longrightarrow> ftail (log_of s n) = None \<longrightarrow>
           flines (log_of s' n) = flines (log_of s n) @ map (\<lambda>r. Line (stamp (jsonText s) r)) recs
           \<and> ftail (log_of s' n) = None) \<and> (healthy s \<longrightarrow> e = None)"
    using assms
  proof (induction recs arbitrary: s)
    case (Cons r recs)
    obtain e1 s1 where w: "file_Write h (Line (stamp (jsonText s) r)) s = (e1, s1)"
      by (cases "file_Write h (Line (stamp (jsonText s) r)) s")
    note f = file_Write_spec [OF w Cons.prems(2-4)]
    show ?case
    proof (cases e1)
      case (Some x)
      with Cons.prems(1) w have "e = Some x" "s' = s1" by (auto simp: stamp_def)
      with f Some show ?thesis by (auto simp: healthy_def)
    next
      case None
      with Cons.prems(1) w have rest: "write_all h recs s1 = (e, s')" by (simp add: stamp_def)
      have "mget (dirents s1) n = Some (hInode h)" using Cons.prems(4) f(3) by simp
      note ih = Cons.IH [OF rest f(2) Cons.prems(3) this]
      have "sysOut s (sysTick s) = Done" using None f(6) by simp
      with f(5) have "ftail (log_of s n) = None \<Longrightarrow>
          log_of s1 n = (log_of s n)\<lparr>flines := flines (log_of s n) @ [Line (stamp (jsonText s) r)], ftail := None\<rparr>"
        by simp
      moreover have "jsonText s1 = jsonText s" using f(1) by (rule frame_json)
      moreover have "frame {n} s s'" using frame_trans [OF f(1)] ih by blast
      moreover have "healthy s \<longrightarrow> healthy s1" using f(1) frame_healthy by blast
      ultimately show ?thesis using ih f(3,4) by auto
    qed
  qed auto
  then show "frame {n} s s'" "wf_storage s'" "dirents s' = dirents s" "activeFiles s' = activeFiles s"
    "e = None \<Longrightarrow> ftail (log_of s n) = None \<Longrightarrow>
           flines (log_of s' n) = flines (log_of s n) @ map (\<lambda>r. Line (stamp (jsonText s) r)) recs
           \<and> ftail (log_of s' n) = None"
    "healthy s \<Longrightarrow> e = None"
    by blast+
qed

lemma log_of_dirents_same:
  "mget d n = mget (dirents s) n \<Longrightarrow> log_of (s\<lparr>dirents := d\<rparr>) n = log_of s n"
  by (simp add: log_of_def split: option.split)

lemma wf_mdel_dirents: "wf_storage s \<Longrightarrow> wf_storage (s\<lparr>dirents := mdel n (dirents s)\<rparr>)"
  by (auto simp: wf_storage_def split: if_splits)

lemma os_Remove_spec:
  assumes "os_Remove n s = (e, s')" and "wf_storage s"
  shows "frame {n} s s'" and "wf_storage s'" and "activeFiles s' = activeFiles s"
    and "e = None \<Longrightarrow> mget (dirents s') n = None" and "healthy s \<Longrightarrow> e = None"
    and "e \<noteq> None \<Longrightarrow> dirents s' = dirents s \<and> log_of s' n = log_of s n"
proof -
  let ?s1 = "s\<lparr>sysTick := Suc (sysTick s)\<rparr>"
  consider (ok) "e = None" "s' = ?s1\<lparr>dirents := mdel n (dirents s)\<rparr>"
    | (fail) "e \<noteq> None" "s' = ?s1" "sysOut s (sysTick s) \<noteq> Done"
    using assms(1) by (auto simp: os_Remove_def os_call_eq split: sys.splits)
  then have "frame {n} s s' \<and> wf_storage s' \<and> activeFiles s' = activeFiles s
     \<and> (e = None \<longrightarrow> mget (dirents s') n = None) \<and> (healthy s \<longrightarrow> e = None)
     \<and> (e \<noteq> None \<longrightarrow> dirents s' = dirents s \<and> log_of s' n = log_of s n)"
  proof cases
    case ok
    have "n' \<noteq> n \<Longrightarrow> log_of s' n' = log_of s n'" for n'
      using ok(2) log_of_dirents_same [of "mdel n (dirents s)" n' ?s1] by simp
    with ok assms(2) wf_mdel_dirents [of ?s1 n] show ?thesis by (simp add: frame_def)
  qed (use assms(2) in \<open>auto simp: healthy_def\<close>)
  then show "frame {n} s s'" "wf_storage s'" "activeFiles s' = activeFiles s"
    "e = None \<Longrightarrow> mget (dirents s') n = None" "healthy s \<Longrightarrow> e = None"
    "e \<noteq> None \<Longrightarrow> dirents s' = dirents s \<and> log_of s' n = log_of s n" by blast+
qed

lemma os_Rename_spec:
  assumes "os_Rename old new s = (e, s')" and "wf_storage s" and "mget (dirents s) old = Some i" and "old \<noteq> new"
  shows "frame {old, new} s s'" and "wf_storage s'" and "activeFiles s' = activeFiles s"
    and "e = None \<Longrightarrow> mget (dirents s') new = Some i \<and> log_of s' new = log_of s old \<and> mget (dirents s') old = None"
    and "e \<noteq> None \<Longrightarrow> dirents s' = dirents s \<and> log_of s' new = log_of s new"
    and "healthy s \<Longrightarrow> e = None"
proof -
  let ?s1 = "s\<lparr>sysTick := Suc (sysTick s)\<rparr>" and ?d = "mput new i (mdel old (dirents s))"
  consider (ok) "e = None" "s' = ?s1\<lparr>dirents := ?d\<rparr>"
    | (fail) "e \<noteq> None" "s' = ?s1" "sysOut s (sysTick s) \<noteq> Done"
    using assms(1,3) by (auto simp: os_Rename_def os_call_eq split: sys.splits)
  then have "frame {old, new} s s' \<and> wf_storage s' \<and> activeFiles s' = activeFiles s
     \<and> (e = None \<longrightarrow> mget (dirents s') new = Some i \<and> log_of s' new = log_of s old \<and> mget (dirents s') old = None)
     \<and> (e \<noteq> None \<longrightarrow> dirents s' = dirents s \<and> log_of s' new = log_of s new) \<and> (healthy s \<longrightarrow> e = None)"
  proof cases
    case ok
    have "n' \<noteq> old \<Longrightarrow> n' \<noteq> new \<Longrightarrow> log_of s' n' = log_of s n'" for n'
      using ok(2) log_of_dirents_same [of ?d n' ?s1] by simp
    moreover have "log_of s' new = log_of s old" using ok(2) assms(3) by (simp add: log_of_def inode_def)
    moreover have "wf_storage s'"
      using ok(2) assms(2,3) by (auto simp: wf_storage_def split: if_splits)
    ultimately show ?thesis using ok assms(4) by (simp add: frame_def)
  qed (use assms(2) in \<open>auto simp: healthy_def\<close>)
  then show "frame {old, new} s s'" "wf_storage s'" "activeFiles s' = activeFiles s"
    "e = None \<Longrightarrow> mget (dirents s') new = Some i \<and> log_of s' new = log_of s old \<and> mget (dirents s') old = None"
    "e \<noteq> None \<Longrightarrow> dirents s' = dirents s \<and> log_of s' new = log_of s new"
    "healthy s \<Longrightarrow> e = None" by blast+
qed

text \<open>
  The temporary file and the rename: either the log is replaced by the given records, or it
  is the file it was. Any system call may fail.
\<close>

lemma frame_log_of: "frame N s s' \<Longrightarrow> n \<notin> N \<Longrightarrow> log_of s' n = log_of s n"
  by (simp add: frame_def)

lemma frame_dirents: "frame N s s' \<Longrightarrow> n \<notin> N \<Longrightarrow> mget (dirents s') n = mget (dirents s) n"
  by (simp add: frame_def)

definition replaced :: "log_record list \<Rightarrow> error option \<Rightarrow> string \<Rightarrow> DiskStorage \<Rightarrow> DiskStorage \<Rightarrow> bool" where
  "replaced recs e n s s' \<longleftrightarrow>
     (if e = None
      then log_of s' n = \<lparr>flines = map (\<lambda>r. Line (stamp (jsonText s) r)) recs, ftail = None\<rparr>
           \<and> mget (dirents s') n \<noteq> None
      else log_of s' n = log_of s n \<and> mget (dirents s') n = mget (dirents s) n)"

lemma compact_replace_spec:
  assumes c: "compact_replace n recs s = (e, s')" and wf: "wf_storage s"
  shows "frame {n, n @ ''.tmp''} s s' \<and> wf_storage s' \<and> activeFiles s' = activeFiles s
     \<and> replaced recs e n s s' \<and> (healthy s \<longrightarrow> e = None)"
proof -
  let ?t = "n @ ''.tmp''"
  have nt: "n \<noteq> ?t" by simp
  obtain r s1 where o: "open_create True ?t s = (r, s1)" by (cases "open_create True ?t s")
  note oc = open_create_spec [OF o wf]
  note fr1 = frame_mono [OF oc(1), of "{n, ?t}", simplified]
  show ?thesis
  proof (cases r)
    case (Inl x)
    with c o have es: "e = Some x" "s' = s1" by (auto simp: compact_replace_def Let_def)
    have "log_of s1 n = log_of s n" "mget (dirents s1) n = mget (dirents s) n"
      using frame_log_of [OF oc(1)] frame_dirents [OF oc(1)] nt by auto
    with Inl oc es fr1 show ?thesis by (auto simp: replaced_def)
  next
    case (Inr h)
    have h: "\<not> hClosed h" "mget (dirents s1) ?t = Some (hInode h)" "log_of s1 ?t = empty_file"
      using oc(4) [OF Inr] by auto
    obtain e2 s2 where w: "write_all h recs s1 = (e2, s2)" by (cases "write_all h recs s1")
    note wa = write_all_spec [OF w oc(2) h(1,2)]
    have fr2: "frame {n, ?t} s s2"
      by (rule frame_trans [OF fr1 frame_mono [OF wa(1)]]) simp
    have keep2: "log_of s2 n = log_of s n" "mget (dirents s2) n = mget (dirents s) n"
      using frame_log_of [OF oc(1)] frame_dirents [OF oc(1)] frame_log_of [OF wa(1)]
        frame_dirents [OF wa(1)] nt by auto
    have h2: "healthy s \<Longrightarrow> healthy s2" using fr2 by (rule frame_healthy)
    have h1: "healthy s \<Longrightarrow> healthy s1" using fr1 by (rule frame_healthy)
    let ?s3 = "snd (os_call s2)"
    have removed: "frame {n, ?t} s (snd (os_Remove ?t u)) \<and> wf_storage (snd (os_Remove ?t u))
        \<and> activeFiles (snd (os_Remove ?t u)) = activeFiles s
        \<and> log_of (snd (os_Remove ?t u)) n = log_of s n
        \<and> mget (dirents (snd (os_Remove ?t u))) n = mget (dirents s) n"
      if u: "u = s2 \<or> u = ?s3" for u
    proof -
      have u': "frame {n, ?t} s u" "wf_storage u" "activeFiles u = activeFiles s" "log_of u n = log_of s n"
        "mget (dirents u) n = mget (dirents s) n"
        using u fr2 frame_tick [OF fr2] wa(2,4) oc(3) keep2 by (auto simp: snd_os_call)
      obtain er u2 where rm: "os_Remove ?t u = (er, u2)" by (cases "os_Remove ?t u")
      note r = os_Remove_spec [OF rm u'(2)]
      have "frame {n, ?t} s u2"
        by (rule frame_trans [OF u'(1) frame_mono [OF r(1)]]) simp
      with r rm u' frame_log_of [OF r(1)] frame_dirents [OF r(1)] nt show ?thesis by simp
    qed
    show ?thesis
    proof (cases "e2 = None \<and> fst (os_call s2) = None")
      case False
      then have "e \<noteq> None \<and> (s' = snd (os_Remove ?t s2) \<or> s' = snd (os_Remove ?t ?s3))"
        using c o w Inr
        by (cases "os_call s2"; cases e2; cases "fst (os_call s2)")
          (auto simp: compact_replace_def Let_def split: option.splits prod.splits)
      moreover have "\<not> healthy s"
        using False wa(6) h1 h2 healthy_os_call [of s2] by blast
      ultimately show ?thesis using removed [of s2] removed [of ?s3] by (auto simp: replaced_def)
    next
      case True
      have wf3: "wf_storage ?s3" "mget (dirents ?s3) ?t = Some (hInode h)"
        using wa(2,3) h(2) by (simp_all add: snd_os_call)
      obtain s3 where s3: "os_call s2 = (None, s3)" using True by (cases "os_call s2") auto
      obtain e4 s4 where rn: "os_Rename ?t n ?s3 = (e4, s4)" by (cases "os_Rename ?t n ?s3")
      have rn': "os_Rename ?t n s3 = (e4, s4)" using rn s3 by simp
      note r = os_Rename_spec [OF rn wf3 nt [symmetric]]
      have es: "e = None \<longleftrightarrow> e4 = None" "s' = (if e4 = None then snd (os_call s4) else s4)"
        using c True by (cases e4; simp add: compact_replace_def Let_def o w Inr s3 rn' eq_commute)+
      have fr3: "frame {n, ?t} s ?s3" using frame_tick [OF fr2] by (simp add: snd_os_call)
      have "frame {n, ?t} s s4"
        by (rule frame_trans [OF fr3]) (use r(1) in \<open>simp add: insert_commute\<close>)
      then have fr4: "frame {n, ?t} s s'" using frame_tick by (simp add: es(2) snd_os_call)
      have "log_of ?s3 ?t = \<lparr>flines = map (\<lambda>r. Line (stamp (jsonText s) r)) recs, ftail = None\<rparr>"
        using wa(5) True h(3) frame_json [OF oc(1)] by (simp add: snd_os_call empty_file_def)
      then have "replaced recs e n s s'"
        using r(4,5) es keep2 by (auto simp: replaced_def snd_os_call)
      moreover have "healthy s \<Longrightarrow> e = None"
        using r(6) h2 es(1) by (simp add: snd_os_call healthy_def)
      ultimately show ?thesis using fr4 r(2,3) wa(4) oc(3) es(2) by (auto simp: snd_os_call)
    qed
  qed
qed

lemma CompactLog_spec:
  assumes c: "CompactLog t s = (e, s')" and wf: "wf_storage s"
  shows "frame {logFilePath t, logFilePath t @ ''.tmp''} s s'" and "wf_storage s'"
    and "activeFiles s' = (if isSafePath t = None then mdel t (activeFiles s) else activeFiles s)"
    and "replaced (compact_records (jsonText s) (file_tokens (log_of s (logFilePath t)))) e (logFilePath t) s s'
         \<or> (log_of s' (logFilePath t) = log_of s (logFilePath t)
             \<and> mget (dirents s') (logFilePath t) = mget (dirents s) (logFilePath t)
             \<and> (e = None \<longrightarrow> mget (dirents s) (logFilePath t) = None))"
    and "healthy s \<Longrightarrow> readable s (logFilePath t) \<Longrightarrow> isSafePath t = None \<Longrightarrow> e = None"
proof -
  let ?n = "logFilePath t"
  let ?s0 = "close_active t (lockFor t s)"
  let ?recs = "compact_records (jsonText s) (file_tokens (log_of s ?n))"
  have "frame {?n, ?n @ ''.tmp''} s s' \<and> wf_storage s'
    \<and> activeFiles s' = (if isSafePath t = None then mdel t (activeFiles s) else activeFiles s)
    \<and> (replaced ?recs e ?n s s' \<or> (log_of s' ?n = log_of s ?n \<and> mget (dirents s') ?n = mget (dirents s) ?n
          \<and> (e = None \<longrightarrow> mget (dirents s) ?n = None)))
    \<and> (healthy s \<longrightarrow> readable s ?n \<longrightarrow> isSafePath t = None \<longrightarrow> e = None)"
  proof (cases "isSafePath t = None \<and> mget (dirents s) ?n \<noteq> None")
    case False
    then have "s' = s \<and> isSafePath t \<noteq> None \<and> e \<noteq> None
        \<or> s' = ?s0 \<and> isSafePath t = None \<and> e = None \<and> mget (dirents s) ?n = None"
      using c by (auto simp: CompactLog_def Let_def split: option.splits)
    moreover have "frame N s ?s0" for N by (simp add: frame_def)
    ultimately show ?thesis using wf by auto
  next
    case True
    then obtain i where i: "mget (dirents s) ?n = Some i" and safe: "isSafePath t = None" by auto
    have log: "log_of s ?n = inode s i" using i by (simp add: log_of_def)
    let ?s2 = "?s0\<lparr>sysTick := Suc (Suc (sysTick s))\<rparr>"
    consider (early) "e \<noteq> None" "s' = ?s0\<lparr>sysTick := sysTick s'\<rparr>" "\<not> (healthy s \<and> readable s ?n)"
      | (run) "compact_replace ?n ?recs ?s2 = (e, s')"
      using c safe i log
      by (auto simp: CompactLog_def Let_def os_call_eq scan_file_eq compact_records_def
          close_active_def readable_def split: sys.splits if_splits dest: not_healthy)
    then show ?thesis
    proof cases
      case early
      let ?u = "?s0\<lparr>sysTick := sysTick s'\<rparr>"
      have "frame N s ?u" "wf_storage ?u" "activeFiles ?u = mdel t (activeFiles s)"
        "log_of ?u ?n = log_of s ?n" "dirents ?u = dirents s" for N
        using wf by (simp_all add: frame_def)
      then show ?thesis unfolding early(2) [symmetric] using safe early(1,3) by auto
    next
      case run
      have "wf_storage ?s2" using wf by simp
      note r = compact_replace_spec [OF run this]
      have "replaced ?recs e ?n ?s2 s' \<Longrightarrow> replaced ?recs e ?n s s'" by (simp add: replaced_def)
      moreover have "frame {?n, ?n @ ''.tmp''} s ?s2" by (simp add: frame_def)
      ultimately show ?thesis
        using r safe frame_trans [of "{?n, ?n @ ''.tmp''}" s ?s2 s'] by (auto simp: healthy_def)
    qed
  qed
  then show "frame {?n, ?n @ ''.tmp''} s s'" "wf_storage s'"
    "activeFiles s' = (if isSafePath t = None then mdel t (activeFiles s) else activeFiles s)"
    "replaced ?recs e ?n s s' \<or> (log_of s' ?n = log_of s ?n \<and> mget (dirents s') ?n = mget (dirents s) ?n
          \<and> (e = None \<longrightarrow> mget (dirents s) ?n = None))"
    "healthy s \<Longrightarrow> readable s ?n \<Longrightarrow> isSafePath t = None \<Longrightarrow> e = None"
    by blast+
qed

end
