(* ===== verification/DurableLog.thy ===== *)
theory DurableLog
  imports WalFiles Names
begin

text \<open>
  The write-ahead log as a durable queue. A client of the storage sees a sequence of
  operations on named queues; the locale \<^verbatim>\<open>durable_log\<close> states what one operation promises
  and proves what a whole run recovers, and the interpretation discharges the promises for
  the operations of \<^verbatim>\<open>internal/storage/storage.go\<close>. The last part is about faults: what a
  failed or torn write, a repeated identifier and a colliding file name do.
\<close>

subsection \<open>Clearing and deleting\<close>

lemma ClearLog_spec:
  assumes c: "ClearLog t s = (e, s')" and wf: "wf_storage s" and live: "live_handle s t"
  shows "frame {logFilePath t} s s'" and "wf_storage s'"
    and "\<And>t'. t' \<noteq> t \<Longrightarrow> mget (activeFiles s') t' = mget (activeFiles s) t'"
    and "e = None \<Longrightarrow> log_of s' (logFilePath t) = empty_file \<and> live_handle s' t"
    and "e \<noteq> None \<Longrightarrow> log_of s' (logFilePath t) = log_of s (logFilePath t)"
    and "healthy s \<Longrightarrow> isSafePath t = None \<Longrightarrow> e = None"
proof -
  let ?n = "logFilePath t"
  define s0 where "s0 = (case mget (activeFiles s) t of None \<Rightarrow> lockFor t s
    | Some file \<Rightarrow> (lockFor t s)\<lparr>activeFiles := mput t (file\<lparr>hClosed := True\<rparr>) (activeFiles s)\<rparr>)"
  have s0: "wf_storage s0" "frame {?n} s s0" "log_of s0 n = log_of s n"
    "t' \<noteq> t \<Longrightarrow> mget (activeFiles s0) t' = mget (activeFiles s) t'" for n t'
    using wf by (simp_all add: s0_def frame_def split: option.split)
  obtain r s1 where o: "open_create True ?n s0 = (r, s1)" by (cases "open_create True ?n s0")
  note oc = open_create_spec [OF o s0(1)]
  have fr: "frame {?n} s s1" by (rule frame_trans [OF s0(2) oc(1)])
  have "frame {?n} s s' \<and> wf_storage s' \<and> (\<forall>t'. t' \<noteq> t \<longrightarrow> mget (activeFiles s') t' = mget (activeFiles s) t')
    \<and> (e = None \<longrightarrow> log_of s' ?n = empty_file \<and> live_handle s' t)
    \<and> (e \<noteq> None \<longrightarrow> log_of s' ?n = log_of s ?n) \<and> (healthy s \<longrightarrow> isSafePath t = None \<longrightarrow> e = None)"
  proof (cases "isSafePath t")
    case (Some x)
    with c wf show ?thesis by (auto simp: ClearLog_def)
  next
    case None
    have c': "(e, s') = (case (r, s1) of (Inl e, s) \<Rightarrow> (Some e, s)
        | (Inr file, s) \<Rightarrow> (None, s\<lparr>activeFiles := mput t file (activeFiles s)\<rparr>))"
      using c None o by (cases "mget (activeFiles s) t") (simp_all add: ClearLog_def Let_def s0_def)
    show ?thesis
    proof (cases r)
      case (Inl x)
      have "\<not> healthy s" using oc(6) Inl frame_healthy [OF s0(2)] by auto
      with Inl c' fr oc(2,3) oc(5) [OF Inl] s0(3,4) show ?thesis by simp
    next
      case (Inr h)
      then show ?thesis
        using c' fr oc(2,3) oc(4) [OF Inr] s0(4) by (simp add: frame_def live_handle_def)
    qed
  qed
  then show "frame {?n} s s'" "wf_storage s'"
    "\<And>t'. t' \<noteq> t \<Longrightarrow> mget (activeFiles s') t' = mget (activeFiles s) t'"
    "e = None \<Longrightarrow> log_of s' ?n = empty_file \<and> live_handle s' t"
    "e \<noteq> None \<Longrightarrow> log_of s' ?n = log_of s ?n"
    "healthy s \<Longrightarrow> isSafePath t = None \<Longrightarrow> e = None"
    by blast+
qed

lemma DeleteLog_spec:
  assumes c: "DeleteLog t s = (e, s')" and wf: "wf_storage s"
  shows "frame {logFilePath t} s s'" and "wf_storage s'"
    and "activeFiles s' = (if isSafePath t = None then mdel t (activeFiles s) else activeFiles s)"
    and "e = None \<Longrightarrow> mget (dirents s') (logFilePath t) = None"
    and "e \<noteq> None \<Longrightarrow> log_of s' (logFilePath t) = log_of s (logFilePath t)"
    and "healthy s \<Longrightarrow> isSafePath t = None \<Longrightarrow> e = None"
proof -
  let ?n = "logFilePath t" and ?s0 = "close_active t (lockFor t s)"
  have s0: "wf_storage ?s0" "frame {?n} s ?s0" using wf by (simp_all add: frame_def)
  obtain e1 s1 where r: "os_Remove ?n ?s0 = (e1, s1)" by (cases "os_Remove ?n ?s0")
  note rm = os_Remove_spec [OF r s0(1)]
  have fr: "frame {?n} s s1" by (rule frame_trans [OF s0(2) rm(1)])
  consider x where "isSafePath t = Some x" "e = Some x" "s' = s"
    | "isSafePath t = None" "mget (dirents s) ?n = None" "e = None" "s' = ?s0"
    | "isSafePath t = None" "e = e1" "s' = s1"
    using c r by (auto simp: DeleteLog_def Let_def split: option.splits)
  then have "frame {?n} s s' \<and> wf_storage s'
    \<and> activeFiles s' = (if isSafePath t = None then mdel t (activeFiles s) else activeFiles s)
    \<and> (e = None \<longrightarrow> mget (dirents s') ?n = None) \<and> (e \<noteq> None \<longrightarrow> log_of s' ?n = log_of s ?n)
    \<and> (healthy s \<longrightarrow> isSafePath t = None \<longrightarrow> e = None)"
  proof cases
    case 3
    with fr rm frame_healthy [OF s0(2)] show ?thesis by auto
  qed (use wf s0 in auto)
  then show "frame {?n} s s'" "wf_storage s'"
    "activeFiles s' = (if isSafePath t = None then mdel t (activeFiles s) else activeFiles s)"
    "e = None \<Longrightarrow> mget (dirents s') ?n = None" "e \<noteq> None \<Longrightarrow> log_of s' ?n = log_of s ?n"
    "healthy s \<Longrightarrow> isSafePath t = None \<Longrightarrow> e = None"
    by blast+
qed

lemma CloseAll_spec:
  "frame {} s (CloseAll s) \<and> wf_storage (CloseAll s) = wf_storage s \<and> activeFiles (CloseAll s) = []
   \<and> dirents (CloseAll s) = dirents s \<and> (\<forall>n. log_of (CloseAll s) n = log_of s n)"
proof -
  have "frame {} s s' \<and> wf_storage s' = wf_storage s \<and> dirents s' = dirents s \<and> (\<forall>n. log_of s' n = log_of s n)
    \<and> (\<forall>t. mget (activeFiles s') t = (if t \<in> set ts then None else mget (activeFiles s) t))"
    if "s' = fold (\<lambda>topic s. close_active topic (snd (os_call s))) ts s" for ts s'
    using that
  proof (induction ts arbitrary: s s')
    case (Cons t ts)
    let ?s1 = "close_active t (snd (os_call s))"
    from Cons.prems have "s' = fold (\<lambda>topic s. close_active topic (snd (os_call s))) ts ?s1" by simp
    note ih = Cons.IH [OF this]
    have "frame {} s ?s1" by (simp add: snd_os_call frame_def)
    with ih frame_trans [of "{}" s ?s1 s'] show ?case by (auto simp: snd_os_call)
  qed simp
  from this [of _ "mkeys (activeFiles s)"]
  have "frame {} s (CloseAll s) \<and> wf_storage (CloseAll s) = wf_storage s \<and> dirents (CloseAll s) = dirents s
     \<and> (\<forall>n. log_of (CloseAll s) n = log_of s n)"
    and none: "mget (activeFiles (CloseAll s)) t = None" for t
    by (auto simp: CloseAll_def mget_None_iff mkeys_def)
  moreover have "activeFiles (CloseAll s) = []"
  proof (cases "activeFiles (CloseAll s)")
    case (Cons p q)
    with none [of "fst p"] show ?thesis by (simp add: mget_None_iff)
  qed
  ultimately show ?thesis by simp
qed

subsection \<open>The durable queue\<close>

datatype wal_op =
    OpPut time string message
  | OpAck time string string
  | OpCompact string
  | OpClear string
  | OpDelete string
  | OpRestart

text \<open>What an operation does to the queues.\<close>

fun queue_op :: "wal_op \<Rightarrow> (string \<Rightarrow> message list) \<Rightarrow> string \<Rightarrow> message list" where
  "queue_op (OpPut now t m) q = q(t := q t @ [m])"
| "queue_op (OpAck now t i) q = q(t := filter (\<lambda>m. ID m \<noteq> i) (q t))"
| "queue_op (OpCompact t) q = q"
| "queue_op (OpClear t) q = q(t := [])"
| "queue_op (OpDelete t) q = q(t := [])"
| "queue_op OpRestart q = q"

fun op_puts :: "wal_op \<Rightarrow> (string \<times> string) list" where
  "op_puts (OpPut now t m) = [(t, ID m)]"
| "op_puts _ = []"

text \<open>Running operations, with the errors they return.\<close>

fun run_ops :: "(wal_op \<Rightarrow> 's \<Rightarrow> error option \<times> 's) \<Rightarrow> wal_op list \<Rightarrow> 's \<Rightarrow> error option list \<times> 's" where
  "run_ops step [] s = ([], s)"
| "run_ops step (x # xs) s =
     (case step x s of (e, s) \<Rightarrow> (case run_ops step xs s of (es, s) \<Rightarrow> (e # es, s)))"

locale durable_log =
  fixes step :: "wal_op \<Rightarrow> 's \<Rightarrow> error option \<times> 's"
    and load :: "string \<Rightarrow> 's \<Rightarrow> (message list \<times> error option) \<times> 's"
    and inv :: "'s \<Rightarrow> bool"
    and okay :: "wal_op \<Rightarrow> bool"
    and name :: "string \<Rightarrow> bool"
    and used :: "'s \<Rightarrow> (string \<times> string) set"
    and queue :: "'s \<Rightarrow> string \<Rightarrow> message list"
  assumes step_law: "inv s \<Longrightarrow> okay x \<Longrightarrow> set (op_puts x) \<inter> used s = {} \<Longrightarrow> step x s = (e, s') \<Longrightarrow>
      e = None \<and> inv s' \<and> used s' \<subseteq> used s \<union> set (op_puts x)
      \<and> (\<forall>t. name t \<longrightarrow> queue s' t = queue_op x (queue s) t)"
    and load_law: "inv s \<Longrightarrow> name t \<Longrightarrow> fst (load t s) = (queue s t, None)"
begin

lemma queue_op_cong:
  "(\<And>t. name t \<Longrightarrow> q t = q' t) \<Longrightarrow> name t \<Longrightarrow> queue_op x q t = queue_op x q' t"
  by (cases x) auto

lemma fold_queue_op_cong:
  "(\<And>t. name t \<Longrightarrow> q t = q' t) \<Longrightarrow> name t \<Longrightarrow> fold queue_op xs q t = fold queue_op xs q' t"
proof (induction xs arbitrary: q q')
  case (Cons x xs)
  have "name t \<Longrightarrow> queue_op x q t = queue_op x q' t" for t
    using Cons.prems(1) by (rule queue_op_cong)
  from Cons.IH [OF this Cons.prems(2)] show ?case by simp
qed simp

lemma run_recovers:
  assumes "inv s" and "\<And>x. x \<in> set xs \<Longrightarrow> okay x" and "distinct (concat (map op_puts xs))"
    and "set (concat (map op_puts xs)) \<inter> used s = {}" and "run_ops step xs s = (es, s')"
  shows "inv s' \<and> set es \<subseteq> {None}
    \<and> (\<forall>t. name t \<longrightarrow> fst (load t s') = (fold queue_op xs (queue s) t, None))"
  using assms
proof (induction xs arbitrary: s es)
  case Nil
  then show ?case by (auto simp: load_law)
next
  case (Cons x xs)
  obtain e s1 where st: "step x s = (e, s1)" by (cases "step x s")
  obtain es1 where rest: "run_ops step xs s1 = (es1, s')" and es: "es = e # es1"
    using Cons.prems(5) st by (auto split: prod.splits)
  have law: "e = None" "inv s1" "used s1 \<subseteq> used s \<union> set (op_puts x)"
    "\<And>t. name t \<Longrightarrow> queue s1 t = queue_op x (queue s) t"
    using step_law [OF Cons.prems(1) _ _ st] Cons.prems(2,4) by auto
  have "set (concat (map op_puts xs)) \<inter> used s1 = {}"
    using law(3) Cons.prems(3,4) by auto
  with Cons.IH [OF law(2) _ _ _ rest] Cons.prems(2,3)
  have "inv s' \<and> set es1 \<subseteq> {None} \<and> (\<forall>t. name t \<longrightarrow> fst (load t s') = (fold queue_op xs (queue s1) t, None))"
    by simp
  moreover have "name t \<Longrightarrow> fold queue_op xs (queue s1) t = fold queue_op xs (queue_op x (queue s)) t" for t
    using law(4) by (rule fold_queue_op_cong)
  ultimately show ?case using law(1) es by simp
qed

end

subsection \<open>The storage is a durable queue\<close>

fun wal_step :: "wal_op \<Rightarrow> DiskStorage \<Rightarrow> error option \<times> DiskStorage" where
  "wal_step (OpPut now t m) s = AppendPut now t m s"
| "wal_step (OpAck now t i) s = AppendAck now t i s"
| "wal_step (OpCompact t) s = CompactLog t s"
| "wal_step (OpClear t) s = ClearLog t s"
| "wal_step (OpDelete t) s = DeleteLog t s"
| "wal_step OpRestart s = (None, CloseAll s)"

text \<open>Operations on topics with clean names whose record fits the scanner's buffer.\<close>

fun wal_okay :: "(log_record \<Rightarrow> bytes) \<Rightarrow> wal_op \<Rightarrow> bool" where
  "wal_okay json (OpPut now t m) \<longleftrightarrow> clean_name t \<and> length (json (put_record json now m)) < maxLine"
| "wal_okay json (OpAck now t i) \<longleftrightarrow> clean_name t \<and> length (json (ack_record json now i)) < maxLine"
| "wal_okay json (OpCompact t) \<longleftrightarrow> clean_name t"
| "wal_okay json (OpClear t) \<longleftrightarrow> clean_name t"
| "wal_okay json (OpDelete t) \<longleftrightarrow> clean_name t"
| "wal_okay json OpRestart \<longleftrightarrow> True"

text \<open>A log without a torn end, all of whose lines are records as the storage writes them.\<close>

fun own_line :: "(log_record \<Rightarrow> bytes) \<Rightarrow> log_line \<Rightarrow> bool" where
  "own_line json Junk = False"
| "own_line json (Line r) \<longleftrightarrow> stamp json r = r \<and> length (json r) < maxLine"

definition clean_log :: "(log_record \<Rightarrow> bytes) \<Rightarrow> log_file \<Rightarrow> bool" where
  "clean_log json f \<longleftrightarrow> ftail f = None \<and> list_all (own_line json) (flines f)"

definition good :: "(log_record \<Rightarrow> bytes) \<Rightarrow> DiskStorage \<Rightarrow> bool" where
  "good json s \<longleftrightarrow>
     wf_storage s \<and> healthy s \<and> jsonText s = json
     \<and> (\<forall>t h. mget (activeFiles s) t = Some h \<longrightarrow> clean_name t \<and> live_handle s t)
     \<and> (\<forall>t. clean_name t \<longrightarrow> clean_log json (log_of s (logFilePath t)))
     \<and> (\<forall>n i. mget (dirents s) n = Some i \<longrightarrow> CHR ''@'' \<notin> set n)"

definition used_ids :: "DiskStorage \<Rightarrow> (string \<times> string) set" where
  "used_ids s = {(t, i). clean_name t \<and> i \<in> set (put_ids (jsonText s) (flines (log_of s (logFilePath t))))}"

lemma file_tokens_clean: "clean_log json f \<Longrightarrow> file_tokens f = flines f"
  by (simp add: file_tokens_def clean_log_def)

lemma own_line_fits: "own_line json l \<Longrightarrow> fits json l"
  by (cases l) simp_all

lemma clean_log_readable: "jsonText s = json \<Longrightarrow> clean_log json (log_of s n) \<Longrightarrow> readable s n"
  by (auto simp: readable_def file_tokens_clean clean_log_def list_all_iff intro: own_line_fits)

lemma clean_empty [simp]: "clean_log json empty_file"
  by (simp add: clean_log_def empty_file_def)

lemma good_live: "good json s \<Longrightarrow> live_handle s t"
  unfolding good_def live_handle_def by blast

lemma good_change:
  assumes g: "good json s" and t: "clean_name t"
    and fr: "frame {logFilePath t, logFilePath t @ ''.tmp''} s s'" and wf: "wf_storage s'"
    and act: "\<And>t'. t' \<noteq> t \<Longrightarrow> mget (activeFiles s') t' = mget (activeFiles s) t'"
    and live: "live_handle s' t" and cl: "clean_log json (log_of s' (logFilePath t))"
  shows "good json s'"
    and "clean_name t' \<Longrightarrow> t' \<noteq> t \<Longrightarrow> log_of s' (logFilePath t') = log_of s (logFilePath t')"
proof -
  have out: "logFilePath t' \<notin> {logFilePath t, logFilePath t @ ''.tmp''}" if "clean_name t'" "t' \<noteq> t" for t'
    using that t logFilePath_inj [of t t'] tmp_not_log [of t t'] by auto
  show log: "clean_name t' \<Longrightarrow> t' \<noteq> t \<Longrightarrow> log_of s' (logFilePath t') = log_of s (logFilePath t')" for t'
    using frame_log_of [OF fr out] .
  have "clean_log json (log_of s' (logFilePath t'))" if "clean_name t'" for t'
    using that log [of t'] cl g by (cases "t' = t") (auto simp: good_def)
  moreover have "clean_name t' \<and> live_handle s' t'" if h: "mget (activeFiles s') t' = Some h" for t' h
  proof (cases "t' = t")
    case False
    with act [of t'] h have "mget (activeFiles s) t' = Some h" by simp
    with g have "clean_name t'" "live_handle s t'" unfolding good_def by blast+
    with act [of t'] False frame_dirents [OF fr out] show ?thesis by (simp add: live_handle_def)
  qed (use live t in auto)
  moreover have "CHR ''@'' \<notin> set n" if "mget (dirents s') n = Some i" for n i
  proof (cases "n \<in> {logFilePath t, logFilePath t @ ''.tmp''}")
    case True
    with set_logFilePath [of t] show ?thesis by auto
  next
    case False
    with frame_dirents [OF fr] that g show ?thesis by (auto simp: good_def)
  qed
  moreover have "healthy s'" "jsonText s' = json"
    using g frame_healthy [OF fr] frame_json [OF fr] by (auto simp: good_def)
  ultimately show "good json s'" using wf unfolding good_def by blast
qed

text \<open>
  One change of one log, as the law of the locale wants it: the log's new lines have the
  queue \<^verbatim>\<open>ms\<close> and no identifiers but the old ones and \<^verbatim>\<open>is\<close>.
\<close>

lemma good_law:
  assumes g: "good json s" and t: "clean_name t"
    and fr: "frame {logFilePath t, logFilePath t @ ''.tmp''} s s'" and wf: "wf_storage s'"
    and act: "\<And>t'. t' \<noteq> t \<Longrightarrow> mget (activeFiles s') t' = mget (activeFiles s) t'"
    and live: "live_handle s' t" and cl: "clean_log json (log_of s' (logFilePath t))"
    and ids: "set (put_ids json (flines (log_of s' (logFilePath t))))
        \<subseteq> set (put_ids json (flines (log_of s (logFilePath t)))) \<union> is"
    and q: "active_messages json (flines (log_of s' (logFilePath t))) = ms"
  shows "good json s' \<and> used_ids s' \<subseteq> used_ids s \<union> {t} \<times> is
     \<and> (\<forall>t'. clean_name t' \<longrightarrow> recovered s' t' = ((recovered s)(t := ms)) t')"
proof -
  note ch = good_change [OF g t fr wf act live cl]
  have js: "jsonText s = json" "jsonText s' = json" using g ch(1) by (simp_all add: good_def)
  have "recovered s' t' = ((recovered s)(t := ms)) t'" if "clean_name t'" for t'
    using ch(2) [OF _ that] q js file_tokens_clean [OF cl] by (simp add: recovered_def)
  moreover have "used_ids s' \<subseteq> used_ids s \<union> {t} \<times> is"
  proof
    fix p assume "p \<in> used_ids s'"
    then obtain t' i where p: "p = (t', i)" "clean_name t'"
      "i \<in> set (put_ids json (flines (log_of s' (logFilePath t'))))" using js by (auto simp: used_ids_def)
    then show "p \<in> used_ids s \<union> {t} \<times> is"
      using ids ch(2) [of t'] js by (cases "t' = t") (auto simp: used_ids_def)
  qed
  ultimately show ?thesis using ch(1) by blast
qed

lemma clean_safe: "clean_name t \<Longrightarrow> isSafePath t = None"
  by (simp add: clean_name_def)

lemma good_wf: "good json s \<Longrightarrow> wf_storage s" and good_healthy: "good json s \<Longrightarrow> healthy s"
  and good_json: "good json s \<Longrightarrow> jsonText s = json"
  and good_clean: "good json s \<Longrightarrow> clean_name t \<Longrightarrow> clean_log json (log_of s (logFilePath t))"
  by (simp_all add: good_def)

lemma stamp_put: "stamp json \<lparr>rType = RecordPut, rMessage = Some m, rMessageID = [], rTimestamp = now, rChecksum = c\<rparr>
    = put_record json now m"
  and stamp_ack: "stamp json \<lparr>rType = RecordAck, rMessage = None, rMessageID = i, rTimestamp = now, rChecksum = c\<rparr>
    = ack_record json now i"
  by (simp_all add: stamp_def put_record_def ack_record_def Let_def checksumFor_def)

lemma stamp_idem [simp]: "stamp json (stamp json r) = stamp json r"
  by (simp add: stamp_def)

lemma writeRecord_good:
  assumes g: "good json s" and t: "clean_name t" and w: "writeRecord t rec s = (e, s')"
    and small: "length (json (stamp json rec)) < maxLine"
  shows "e = None" and "wf_storage s'" and "live_handle s' t"
    and "frame {logFilePath t, logFilePath t @ ''.tmp''} s s'"
    and "\<And>t'. t' \<noteq> t \<Longrightarrow> mget (activeFiles s') t' = mget (activeFiles s) t'"
    and "flines (log_of s' (logFilePath t)) = flines (log_of s (logFilePath t)) @ [Line (stamp json rec)]"
    and "clean_log json (log_of s' (logFilePath t))"
proof -
  note w = writeRecord_spec [OF w good_wf [OF g] good_live [OF g]]
  note cl = good_clean [OF g t]
  show e: "e = None" using w(6) good_healthy [OF g] clean_safe [OF t] by simp
  show "wf_storage s'" "live_handle s' t" using w(2,3) .
  show "\<And>t'. t' \<noteq> t \<Longrightarrow> mget (activeFiles s') t' = mget (activeFiles s) t'" using w(4) .
  show "frame {logFilePath t, logFilePath t @ ''.tmp''} s s'" by (rule frame_mono [OF w(1)]) simp
  have log: "log_of s' (logFilePath t) = (log_of s (logFilePath t))
      \<lparr>flines := flines (log_of s (logFilePath t)) @ [Line (stamp json rec)], ftail := None\<rparr>"
    using w(5) e cl good_json [OF g] by (auto simp: grown_def clean_log_def)
  then show "flines (log_of s' (logFilePath t)) = flines (log_of s (logFilePath t)) @ [Line (stamp json rec)]" by simp
  show "clean_log json (log_of s' (logFilePath t))" using log cl small by (simp add: clean_log_def)
qed

lemma AppendPut_law:
  assumes "good json s" and "wal_okay json (OpPut now t m)" and "(t, ID m) \<notin> used_ids s"
    and a: "AppendPut now t m s = (e, s')"
  shows "e = None \<and> good json s' \<and> used_ids s' \<subseteq> used_ids s \<union> {(t, ID m)}
     \<and> (\<forall>t'. clean_name t' \<longrightarrow> recovered s' t' = ((recovered s)(t := recovered s t @ [m])) t')"
proof -
  have t: "clean_name t" using assms(2) by simp
  note w = writeRecord_good [OF assms(1) t a [unfolded AppendPut_def], unfolded stamp_put]
  have small: "length (json (put_record json now m)) < maxLine" using assms(2) by simp
  note w = w [OF small]
  have js: "jsonText s = json" using assms(1) by (rule good_json)
  have "ID m \<notin> set (put_ids json (flines (log_of s (logFilePath t))))"
    using assms(3) t js by (simp add: used_ids_def)
  then have q: "active_messages json (flines (log_of s' (logFilePath t))) = recovered s t @ [m]"
    using file_tokens_clean [OF good_clean [OF assms(1) t]] js w(6)
    by (simp add: active_snoc_put recovered_def)
  have ids: "set (put_ids json (flines (log_of s' (logFilePath t))))
      \<subseteq> set (put_ids json (flines (log_of s (logFilePath t)))) \<union> {ID m}" by (simp add: w(6))
  show ?thesis
    using good_law [OF assms(1) t w(4,2,5,3,7) ids q] w(1) by simp
qed

lemma AppendAck_law:
  assumes "good json s" and "wal_okay json (OpAck now t i)" and a: "AppendAck now t i s = (e, s')"
  shows "e = None \<and> good json s' \<and> used_ids s' \<subseteq> used_ids s
     \<and> (\<forall>t'. clean_name t' \<longrightarrow> recovered s' t' = ((recovered s)(t := filter (\<lambda>m. ID m \<noteq> i) (recovered s t))) t')"
proof -
  have t: "clean_name t" using assms(2) by simp
  note w = writeRecord_good [OF assms(1) t a [unfolded AppendAck_def], unfolded stamp_ack]
  have small: "length (json (ack_record json now i)) < maxLine" using assms(2) by simp
  note w = w [OF small]
  have q: "active_messages json (flines (log_of s' (logFilePath t))) = filter (\<lambda>m. ID m \<noteq> i) (recovered s t)"
    using file_tokens_clean [OF good_clean [OF assms(1) t]] good_json [OF assms(1)] w(6)
    by (simp add: active_snoc_ack recovered_def)
  have ids: "set (put_ids json (flines (log_of s' (logFilePath t))))
      \<subseteq> set (put_ids json (flines (log_of s (logFilePath t)))) \<union> {}" by (simp add: w(6))
  show ?thesis
    using good_law [OF assms(1) t w(4,2,5,3,7) ids q] w(1) by simp
qed

lemma compact_records_from_log: "r \<in> set (compact_records json ls) \<Longrightarrow> Line r \<in> set ls"
proof -
  assume r: "r \<in> set (compact_records json ls)"
  have live: "mget (fst (replay json (\<lambda>rec msg. rec) ls)) k = Some r \<Longrightarrow> Line r \<in> set ls" for k
  proof (induction ls rule: rev_induct)
    case (snoc l ls)
    obtain m ids bad where q: "replay json (\<lambda>rec msg. rec) ls = (m, ids, bad)"
      by (cases "replay json (\<lambda>rec msg. rec) ls")
    from snoc q show ?case
      by (cases l) (auto simp: replay_snoc split: if_splits option.splits)
  qed (simp add: replay_def)
  obtain m ids bad where "replay json (\<lambda>rec msg. rec) ls = (m, ids, bad)"
    by (cases "replay json (\<lambda>rec msg. rec) ls")
  with r live show ?thesis
    by (auto simp: compact_records_def collect_live_def List.map_filter_def)
qed

lemma put_ids_compact: "set (put_ids json (compact_lines json ls)) \<subseteq> set (put_ids json ls)"
proof
  fix i assume "i \<in> set (put_ids json (compact_lines json ls))"
  then obtain m where m: "m \<in> set (active_messages json ls)" "i = ID m"
    using active_stamped_puts(1) [OF compact_records_rel [of json ls], of json]
    by (auto simp: compact_lines_def)
  then show "i \<in> set (put_ids json ls)"
    using replay_live_in_ids [OF active_messages_in_map [OF m(1)]] by simp
qed

lemma clean_compact: "list_all (own_line json) ls \<Longrightarrow> list_all (own_line json) (compact_lines json ls)"
  using compact_records_from_log [of _ json ls] by (fastforce simp: compact_lines_def list_all_iff)

lemma CompactLog_law:
  assumes g: "good json s" and t: "clean_name t" and c: "CompactLog t s = (e, s')"
  shows "e = None \<and> good json s' \<and> used_ids s' \<subseteq> used_ids s
     \<and> (\<forall>t'. clean_name t' \<longrightarrow> recovered s' t' = recovered s t')"
proof -
  let ?n = "logFilePath t"
  note sp = CompactLog_spec [OF c good_wf [OF g]]
  note cl = good_clean [OF g t] and js = good_json [OF g]
  have e: "e = None"
    using sp(5) good_healthy [OF g] clean_log_readable [OF js cl] clean_safe [OF t] by simp
  have "log_of s' ?n = \<lparr>flines = compact_lines json (flines (log_of s ?n)), ftail = None\<rparr>
      \<or> log_of s' ?n = log_of s ?n"
    using sp(4) e js file_tokens_clean [OF cl] by (auto simp: replaced_def compact_lines_def)
  then have cl': "clean_log json (log_of s' ?n)"
    and q: "active_messages json (flines (log_of s' ?n)) = recovered s t"
    and ids: "set (put_ids json (flines (log_of s' ?n))) \<subseteq> set (put_ids json (flines (log_of s ?n))) \<union> {}"
    using cl put_ids_compact [of json "flines (log_of s ?n)"] js file_tokens_clean [OF cl]
    by (auto simp: clean_log_def clean_compact recovered_def active_compact_lines)
  have act: "activeFiles s' = mdel t (activeFiles s)" using sp(3) clean_safe [OF t] by simp
  have "live_handle s' t" by (simp add: live_handle_def act)
  with good_law [OF g t sp(1,2) _ _ cl' ids q] act e show ?thesis by simp
qed

lemma ClearLog_law:
  assumes g: "good json s" and t: "clean_name t" and c: "ClearLog t s = (e, s')"
  shows "e = None \<and> good json s' \<and> used_ids s' \<subseteq> used_ids s
     \<and> (\<forall>t'. clean_name t' \<longrightarrow> recovered s' t' = ((recovered s)(t := [])) t')"
proof -
  note sp = ClearLog_spec [OF c good_wf [OF g] good_live [OF g]]
  have e: "e = None" using sp(6) good_healthy [OF g] clean_safe [OF t] by simp
  note em = sp(4) [OF e]
  have cl: "clean_log json (log_of s' (logFilePath t))" using em by simp
  have q: "active_messages json (flines (log_of s' (logFilePath t))) = []"
    and ids: "set (put_ids json (flines (log_of s' (logFilePath t))))
      \<subseteq> set (put_ids json (flines (log_of s (logFilePath t)))) \<union> {}"
    using em by (simp_all add: empty_file_def active_messages_alt put_ids_def List.map_filter_def)
  have fr: "frame {logFilePath t, logFilePath t @ ''.tmp''} s s'" by (rule frame_mono [OF sp(1)]) simp
  show ?thesis using good_law [OF g t fr sp(2,3) _ cl ids q] em e by simp
qed

lemma DeleteLog_law:
  assumes g: "good json s" and t: "clean_name t" and c: "DeleteLog t s = (e, s')"
  shows "e = None \<and> good json s' \<and> used_ids s' \<subseteq> used_ids s
     \<and> (\<forall>t'. clean_name t' \<longrightarrow> recovered s' t' = ((recovered s)(t := [])) t')"
proof -
  note sp = DeleteLog_spec [OF c good_wf [OF g]]
  have e: "e = None" using sp(6) good_healthy [OF g] clean_safe [OF t] by simp
  have em: "log_of s' (logFilePath t) = empty_file" using sp(4) [OF e] by (simp add: log_of_def)
  have cl: "clean_log json (log_of s' (logFilePath t))" using em by simp
  have q: "active_messages json (flines (log_of s' (logFilePath t))) = []"
    and ids: "set (put_ids json (flines (log_of s' (logFilePath t))))
      \<subseteq> set (put_ids json (flines (log_of s (logFilePath t)))) \<union> {}"
    using em by (simp_all add: empty_file_def active_messages_alt put_ids_def List.map_filter_def)
  have act: "activeFiles s' = mdel t (activeFiles s)" using sp(3) clean_safe [OF t] by simp
  have live: "live_handle s' t" by (simp add: live_handle_def act)
  have fr: "frame {logFilePath t, logFilePath t @ ''.tmp''} s s'" by (rule frame_mono [OF sp(1)]) simp
  show ?thesis using good_law [OF g t fr sp(2) _ live cl ids q] act e by simp
qed

lemma CloseAll_law:
  assumes "good json s"
  shows "good json (CloseAll s) \<and> used_ids (CloseAll s) = used_ids s \<and> recovered (CloseAll s) = recovered s"
proof -
  have c: "frame {} s (CloseAll s)" "wf_storage (CloseAll s) = wf_storage s" "activeFiles (CloseAll s) = []"
    "dirents (CloseAll s) = dirents s" "\<And>n. log_of (CloseAll s) n = log_of s n"
    using CloseAll_spec [of s] by blast+
  moreover have "jsonText (CloseAll s) = jsonText s" using c(1) by (rule frame_json)
  moreover have "healthy s \<Longrightarrow> healthy (CloseAll s)" using c(1) by (rule frame_healthy)
  ultimately show ?thesis
    using assms unfolding good_def used_ids_def recovered_def by simp
qed

lemma load_good:
  assumes g: "good json s" and t: "clean_name t"
  shows "fst (LoadMessages t s) = (recovered s t, None)"
proof (rule LoadMessages_healthy)
  show "healthy s" "isSafePath t = None" using g t by (simp_all add: good_healthy clean_safe)
  show "readable s (logFilePath t)" using clean_log_readable [OF good_json [OF g] good_clean [OF g t]] .
  assume none: "mget (dirents s) (logFilePath t) = None"
  show "mget (dirents s) (legacy_name t) = None"
  proof (cases "CHR ''/'' \<in> set t")
    case True
    then have "CHR ''@'' \<in> set (legacy_name t)" by (induction t) (auto simp: legacy_name_def ReplaceAll_char)
    with g show ?thesis unfolding good_def by (cases "mget (dirents s) (legacy_name t)") auto
  next
    case False
    then have "legacy_name t = logFilePath t"
      using t by (simp add: legacy_name_def logFilePath_def topicToFilename_def ReplaceAll_absent
          Contains_char clean_name_def)
    with none show ?thesis by simp
  qed
qed

lemma wal_step_law:
  assumes g: "good json s" and ok: "wal_okay json x" and fresh: "set (op_puts x) \<inter> used_ids s = {}"
    and st: "wal_step x s = (e, s')"
  shows "e = None \<and> good json s' \<and> used_ids s' \<subseteq> used_ids s \<union> set (op_puts x)
      \<and> (\<forall>t. clean_name t \<longrightarrow> recovered s' t = queue_op x (recovered s) t)"
proof (cases x)
  case (OpPut now t m)
  with AppendPut_law [OF g ok [unfolded OpPut]] fresh st show ?thesis by simp
next
  case (OpAck now t i)
  with AppendAck_law [OF g ok [unfolded OpAck]] st show ?thesis by simp
next
  case (OpCompact t)
  with CompactLog_law [OF g] ok st show ?thesis by simp
next
  case (OpClear t)
  with ClearLog_law [OF g] ok st show ?thesis by simp
next
  case (OpDelete t)
  with DeleteLog_law [OF g] ok st show ?thesis by simp
next
  case OpRestart
  with CloseAll_law [OF g] st show ?thesis by auto
qed

interpretation wal: durable_log wal_step LoadMessages "good json" "wal_okay json" clean_name used_ids recovered
  for json
  by unfold_locales (rule wal_step_law, assumption+, rule load_good)

text \<open>A storage over an empty directory in which every system call succeeds.\<close>

definition new_disk :: "bool \<Rightarrow> (log_record \<Rightarrow> bytes) \<Rightarrow> DiskStorage" where
  "new_disk sync json =
     \<lparr>dirents = [], inodes = [], nextInode = 0, activeFiles = [], topicLocks = [], syncWrites = sync,
      jsonText = json, sysOut = (\<lambda>_. Done), sysTick = 0\<rparr>"

lemma storage_New_empty: "storage_New Done sync [] [] 0 json (\<lambda>_. Done) = Inr (new_disk sync json)"
  by (simp add: storage_New_def new_disk_def)

lemma mget_Nil [simp]: "mget [] k = None"
  by (simp add: mget_def)

lemma log_of_new [simp]: "log_of (new_disk sync json) n = empty_file"
  by (simp add: log_of_def new_disk_def)

lemma good_new_disk: "good json (new_disk sync json)"
  by (simp add: good_def wf_storage_def healthy_def) (simp add: new_disk_def)

lemma used_new_disk: "used_ids (new_disk sync json) = {}"
  by (simp add: used_ids_def empty_file_def put_ids_def List.map_filter_def)

lemma recovered_new_disk: "recovered (new_disk sync json) t = []"
  by (simp add: recovered_def active_messages_alt put_ids_def List.map_filter_def)

definition sample_message :: "string \<Rightarrow> message" where
  "sample_message i =
     \<lparr>ID = i, Topic = ''q'', Payload = [], Timestamp = 0, ExpiresAt = None, DeliverAt = None,
      RetryCount = 0, Headers = []\<rparr>"

lemma ID_sample [simp]: "ID (sample_message i) = i"
  by (simp add: sample_message_def)

lemma clean_q: "clean_name ''q''"
  by code_simp

text \<open>A log with two messages, the first acknowledged, and a corrupted line; some calls fail.\<close>

definition sample_disk :: "(nat \<Rightarrow> sys) \<Rightarrow> DiskStorage" where
  "sample_disk outs = (new_disk True (\<lambda>_. []))\<lparr>
     dirents := [(''q.log'', 0)],
     inodes := [(0, \<lparr>flines = [Line (put_record (\<lambda>_. []) 1 (sample_message ''a'')), Junk,
                           Line (put_record (\<lambda>_. []) 2 (sample_message ''b'')),
                           Line (ack_record (\<lambda>_. []) 3 ''a'')], ftail = None\<rparr>)],
     nextInode := 1, sysOut := outs\<rparr>"

lemma logFilePath_q: "logFilePath ''q'' = ''q.log''"
  by code_simp

lemma log_of_sample: "log_of (sample_disk outs) ''q.log'' =
    \<lparr>flines = [Line (put_record (\<lambda>_. []) 1 (sample_message ''a'')), Junk,
               Line (put_record (\<lambda>_. []) 2 (sample_message ''b'')),
               Line (ack_record (\<lambda>_. []) 3 ''a'')], ftail = None\<rparr>"
  by (simp add: log_of_def inode_def sample_disk_def mget_def)

lemma wf_sample: "wf_storage (sample_disk outs)"
  by (auto simp: wf_storage_def sample_disk_def mget_def split: if_splits)

lemma recovered_sample: "recovered (sample_disk outs) ''q'' = [sample_message ''b'']"
proof -
  have "jsonText (sample_disk outs) = (\<lambda>_. [])" by (simp add: sample_disk_def new_disk_def)
  then show ?thesis
    by (simp add: recovered_def logFilePath_q log_of_sample file_tokens_def active_messages_def replay_def
        collect_live_def List.map_filter_simps sample_message_def)
qed

subsection \<open>Properties\<close>



text \<open>
  C7: Compaction is safe against every fault: whichever of its system calls fail, the
  messages that any topic recovers afterwards are those it recovered before, and when it
  returns without an error for a topic that has a log, the log has no corrupted line left
  and exactly one line for each unacknowledged message.
\<close>

theorem compaction_preserves_recovery:
  assumes "wf_storage s" and "clean_name t" and "clean_name t'" and "CompactLog t s = (e, s')"
  shows "recovered s' t' = recovered s t'
    \<and> (e = None \<and> mget (dirents s) (logFilePath t) \<noteq> None \<longrightarrow>
         list_all (\<lambda>l. \<not> corrupted (jsonText s) l) (file_tokens (log_of s' (logFilePath t)))
         \<and> length (file_tokens (log_of s' (logFilePath t))) = length (recovered s t))"
proof -
  let ?n = "logFilePath t" and ?ls = "file_tokens (log_of s (logFilePath t))"
  note sp = CompactLog_spec [OF assms(4,1)]
  have js: "jsonText s' = jsonText s" using sp(1) by (rule frame_json)
  have log: "file_tokens (log_of s' ?n) = compact_lines (jsonText s) ?ls
      \<or> log_of s' ?n = log_of s ?n \<and> (e = None \<longrightarrow> mget (dirents s) ?n = None)"
    using sp(4) by (auto simp: replaced_def compact_lines_def file_tokens_def split: if_splits)
  have "log_of s' (logFilePath t') = log_of s (logFilePath t')" if "t' \<noteq> t"
    using that assms(2,3) logFilePath_inj [of t t'] tmp_not_log [of t t']
    by (intro frame_log_of [OF sp(1)]) auto
  then have "recovered s' t' = recovered s t'"
    using log js by (cases "t' = t") (auto simp: recovered_def active_compact_lines)
  moreover have "list_all (\<lambda>l. \<not> corrupted (jsonText s) l) (compact_lines (jsonText s) ?ls)"
    using compact_lines_clean by (auto simp: list_all_iff)
  ultimately show ?thesis using log length_compact_lines by (auto simp: recovered_def)
qed

theorem compaction_preserves_recovery_witness:
  "recovered (snd (CompactLog ''q'' (sample_disk (\<lambda>n. if n = 4 then Fail 1 else Done)))) ''q''
     = [sample_message ''b'']"
  using compaction_preserves_recovery [OF wf_sample clean_q clean_q prod.collapse [symmetric],
      of "\<lambda>n. if n = 4 then Fail 1 else Done"]
  by (simp add: recovered_sample)

lemma tokens_after_write:
  "ftail f = None \<Longrightarrow> file_tokens (file_write out (Line r) f) \<in> {flines f, flines f @ [Line r], flines f @ [Junk]}
     \<and> (out = Done \<longrightarrow> file_tokens (file_write out (Line r) f) = flines f @ [Line r])"
  by (cases out) (auto simp: file_write_def file_tokens_def)

lemma active_snoc_junk: "active_messages json (ls @ [Junk]) = active_messages json ls"
  using active_messages_filter [of json "ls @ [Junk]"] active_messages_filter [of json ls] by simp


lemma sample_facts:
  "jsonText (sample_disk outs) = (\<lambda>_. [])" "activeFiles (sample_disk outs) = []"
  "sysOut (sample_disk outs) = outs"
  by (simp_all add: sample_disk_def new_disk_def)

lemma log_sample_facts:
  "put_ids (\<lambda>_. []) (flines (log_of (sample_disk outs) ''q.log'')) = [''a'', ''b'']"
  "ftail (log_of (sample_disk outs) ''q.log'') = None"
  by (simp_all add: log_of_sample put_ids_def List.map_filter_simps)


text \<open>
  After a torn write the log swallows the next record: the append that follows
  continues the broken line, returns no error, and its message is not recovered.
\<close>

theorem torn_write_swallows_next:
  assumes "wf_storage s" and "live_handle s t" and "clean_name t" and "healthy s"
    and "ftail (log_of s (logFilePath t)) \<noteq> None" and "AppendPut now t m s = (e, s')"
  shows "e = None \<and> recovered s' t = active_messages (jsonText s) (flines (log_of s (logFilePath t)))"
proof -
  note w = writeRecord_spec [OF assms(6) [unfolded AppendPut_def] assms(1,2), unfolded stamp_put]
  have e: "e = None" using w(6) assms(3,4) by (simp add: clean_safe)
  moreover have "file_tokens (log_of s' (logFilePath t)) = flines (log_of s (logFilePath t)) @ [Junk]"
    using w(5) e assms(5) by (auto simp: grown_def file_write_def file_tokens_def)
  moreover have "jsonText s' = jsonText s" using w(1) by (rule frame_json)
  ultimately show ?thesis by (simp add: recovered_def active_snoc_junk)
qed

definition torn_disk :: DiskStorage where
  "torn_disk = (sample_disk (\<lambda>_. Done))\<lparr>
     inodes := [(0, \<lparr>flines = [Line (put_record (\<lambda>_. []) 2 (sample_message ''b''))], ftail = Some Junk\<rparr>)]\<rparr>"

theorem torn_write_swallows_next_witness:
  "fst (AppendPut 5 ''q'' (sample_message ''c'') torn_disk) = None
   \<and> recovered (snd (AppendPut 5 ''q'' (sample_message ''c'') torn_disk)) ''q'' = [sample_message ''b'']"
proof -
  have log: "log_of torn_disk ''q.log'' =
      \<lparr>flines = [Line (put_record (\<lambda>_. []) 2 (sample_message ''b''))], ftail = Some Junk\<rparr>"
    by (simp add: log_of_def inode_def torn_disk_def sample_disk_def mget_def)
  have "wf_storage torn_disk" using wf_sample by (simp add: torn_disk_def)
  moreover have "live_handle torn_disk ''q''" "healthy torn_disk" "jsonText torn_disk = (\<lambda>_. [])"
    by (simp_all add: torn_disk_def live_handle_def healthy_def sample_facts)
  moreover have "active_messages (\<lambda>_. []) [Line (put_record (\<lambda>_. []) 2 (sample_message ''b''))] = [sample_message ''b'']"
    by (simp add: active_messages_def replay_def collect_live_def List.map_filter_simps)
  ultimately show ?thesis
    using torn_write_swallows_next [OF _ _ clean_q _ _ prod.collapse [symmetric], of torn_disk 5 "sample_message ''c''"]
    by (simp add: logFilePath_q log)
qed

text \<open>A second PUT with the identifier of the last live message.\<close>

lemma active_snoc_put_again:
  assumes "ID m \<notin> set (put_ids json ls)" and "ID m' = ID m"
  shows "active_messages json (ls @ [Line (put_record json now m), Line (put_record json now' m')])
     = active_messages json ls @ [m', m']"
proof -
  let ?M = "fst (replay json (\<lambda>rec msg. msg) ls)" and ?ls = "ls @ [Line (put_record json now m)]"
  have ids: "put_ids json (?ls @ [Line (put_record json now' m')]) = put_ids json ls @ [ID m, ID m]"
    unfolding put_ids_snoc_put using assms(2) by simp
  have map: "mget (fst (replay json (\<lambda>rec msg. msg) (?ls @ [Line (put_record json now' m')]))) k
      = (if k = ID m then Some m' else mget ?M k)" for k
    using assms(2)
    by (simp only: replay_map_snoc [where x = "[]" and y = 0] replay_step_map) simp
  have "List.map_filter (\<lambda>k. if k = ID m then Some m' else mget ?M k) (put_ids json ls)
      = List.map_filter (mget ?M) (put_ids json ls)"
    using assms(1) by (intro map_filter_cong) auto
  then have "active_messages json (?ls @ [Line (put_record json now' m')]) = active_messages json ls @ [m', m']"
    unfolding active_messages_alt [of json "?ls @ [Line (put_record json now' m')]"] ids map
    by (simp add: map_filter_append active_messages_alt List.map_filter_simps)
  then show ?thesis by simp
qed

text \<open>
  The log does not deduplicate: when a message is appended again under its identifier
  with no acknowledgement in between, as \<^verbatim>\<open>Requeue\<close> does, recovery delivers the second
  version twice.
\<close>

theorem repeated_put_recovered_twice:
  assumes g: "good json s" and "wal_okay json (OpPut now t m)" and "wal_okay json (OpPut now' t m')"
    and "(t, ID m) \<notin> used_ids s" and "ID m' = ID m"
  shows "recovered (snd (AppendPut now' t m' (snd (AppendPut now t m s)))) t = recovered s t @ [m', m']"
proof -
  let ?s1 = "snd (AppendPut now t m s)" and ?s2 = "snd (AppendPut now' t m' (snd (AppendPut now t m s)))"
  have t: "clean_name t" using assms(2) by simp
  have g1: "good json ?s1"
    using AppendPut_law [OF g assms(2,4) prod.collapse [symmetric]] by simp
  have l1: "flines (log_of ?s1 (logFilePath t)) = flines (log_of s (logFilePath t)) @ [Line (put_record json now m)]"
    using writeRecord_good(6) [OF g t prod.collapse [symmetric], where rec = "\<lparr>rType = RecordPut, rMessage = Some m,
        rMessageID = [], rTimestamp = now, rChecksum = 0\<rparr>", unfolded stamp_put] assms(2)
    by (simp add: AppendPut_def)
  have l2: "flines (log_of ?s2 (logFilePath t)) = flines (log_of ?s1 (logFilePath t)) @ [Line (put_record json now' m')]"
    using writeRecord_good(6) [OF g1 t prod.collapse [symmetric], where rec = "\<lparr>rType = RecordPut, rMessage = Some m',
        rMessageID = [], rTimestamp = now', rChecksum = 0\<rparr>", unfolded stamp_put] assms(3)
    by (simp add: AppendPut_def)
  have c2: "clean_log json (log_of ?s2 (logFilePath t))" "jsonText ?s2 = json"
    using writeRecord_good(4,7) [OF g1 t prod.collapse [symmetric], where rec = "\<lparr>rType = RecordPut, rMessage = Some m',
        rMessageID = [], rTimestamp = now', rChecksum = 0\<rparr>", unfolded stamp_put] assms(3) good_json [OF g1] frame_json
    by (auto simp: AppendPut_def)
  have "ID m \<notin> set (put_ids json (flines (log_of s (logFilePath t))))"
    using assms(4) t good_json [OF g] by (simp add: used_ids_def)
  then show ?thesis
    using active_snoc_put_again [OF _ assms(5)] l1 l2 c2 file_tokens_clean [OF good_clean [OF g t]] good_json [OF g]
    by (simp add: recovered_def file_tokens_clean)
qed

theorem repeated_put_recovered_twice_witness:
  "recovered (snd (AppendPut 2 ''q'' (sample_message ''a'')
     (snd (AppendPut 1 ''q'' (sample_message ''a'') (new_disk True (\<lambda>_. [])))))) ''q''
   = [sample_message ''a'', sample_message ''a'']"
  using repeated_put_recovered_twice [OF good_new_disk, of "\<lambda>_. []" 1 "''q''" "sample_message ''a''" 2
      "sample_message ''a''" True]
  by (simp add: clean_q maxLine_def used_new_disk recovered_new_disk)

text \<open>
  Every log file lies in the data directory: whatever the topic is called, the name of
  its log has no path separator, ends in \<^verbatim>\<open>.log\<close> and so is neither of the two directory
  entries that lead out of it.
\<close>

theorem log_file_stays_in_directory:
  "CHR ''/'' \<notin> set (logFilePath t) \<and> logFilePath t \<noteq> ''.'' \<and> logFilePath t \<noteq> ''..''
   \<and> HasSuffix (logFilePath t) ''.log''"
proof -
  have "length (logFilePath t) \<ge> 4" by (simp add: logFilePath_def)
  then have "logFilePath t \<noteq> ''.'' \<and> logFilePath t \<noteq> ''..''" by auto
  moreover have "HasSuffix (logFilePath t) ''.log''" by (simp add: logFilePath_def HasSuffix_def)
  ultimately show ?thesis using set_logFilePath [of t] by blast
qed

text \<open>
  \<^verbatim>\<open>FilenameToTopic\<close> undoes \<^verbatim>\<open>topicToFilename\<close> on every topic name without underscores
  and at-signs, so the recovery of \<^verbatim>\<open>cmd/tinymq\<close> finds each such topic under its own name
  and no two of them share a log.
\<close>

theorem topic_filename_roundtrip:
  assumes "CHR ''_'' \<notin> set t" and "CHR ''@'' \<notin> set t"
  shows "FilenameToTopic (topicToFilename t) = t"
  using assms by (rule filename_roundtrip)

theorem topic_filename_roundtrip_witness:
  "FilenameToTopic (topicToFilename ''orders/eu/new'') = ''orders/eu/new''"
  by (rule topic_filename_roundtrip) simp_all

text \<open>
  Two different topics, both with valid names, can share one log file: the underscore
  is a legal character of a name, and the encoding of the slash is made of it.
\<close>

theorem topic_filename_collision:
  "validTopicRegex ''a_b_c'' \<and> validTopicRegex ''a/c'' \<and> isSafePath ''a_b_c'' = None \<and> isSafePath ''a/c'' = None
   \<and> logFilePath ''a_b_c'' = logFilePath ''a/c'' \<and> FilenameToTopic (topicToFilename ''a_b_c'') = ''a/c''"
  by code_simp

end
