(* ===== verification/Checksum.thy ===== *)
theory Checksum
  imports Storage
begin

text \<open>
  The CRC-32 of a log record (\<^verbatim>\<open>checksumFor\<close>, computed by \<^verbatim>\<open>crc32.ChecksumIEEE\<close>) distinguishes
  any two texts of the same length that differ in one byte: one step of the shift register is
  injective, because the bit it shifts in tells which branch was taken.
\<close>

unbundle bit_operations_syntax

lemma poly_top: "bit (0xEDB88320 :: 32 word) 31"
  by simp

lemma shift_top: "\<not> bit (drop_bit 1 (c :: 32 word)) 31"
  by (auto simp: bit_drop_bit_eq dest: bit_imp_le_length)

lemma crc_shift_top: "bit (crc_shift c) 31 = bit c 0"
  using poly_top shift_top [of c] by (simp add: crc_shift_def bit_xor_iff)

lemma drop_bit_cases:
  assumes "drop_bit 1 (c :: 32 word) = drop_bit 1 d" and "bit c 0 = bit d 0"
  shows "c = d"
proof (rule bit_word_eqI)
  fix n :: nat
  assume "n < LENGTH(32)"
  have "bit (drop_bit 1 c) k = bit (drop_bit 1 d) k" for k using assms(1) by simp
  then have "bit c (Suc k) = bit d (Suc k)" for k by (simp add: bit_drop_bit_eq)
  with assms(2) show "bit c n = bit d n" by (cases n) simp_all
qed

lemma xor_cancel: "(x :: 32 word) XOR p = y XOR p \<Longrightarrow> x = y"
proof -
  assume "x XOR p = y XOR p"
  then have "(x XOR p) XOR p = (y XOR p) XOR p" by simp
  then show "x = y" by (simp add: xor.assoc)
qed

lemma crc_shift_inj: "inj crc_shift"
proof (rule injI)
  fix c d :: "32 word"
  assume eq: "crc_shift c = crc_shift d"
  then have b: "bit c 0 = bit d 0" using crc_shift_top [of c] crc_shift_top [of d] by simp
  then have "drop_bit 1 c = drop_bit 1 d"
    using eq xor_cancel by (auto simp: crc_shift_def split: if_splits)
  with b show "c = d" by (simp add: drop_bit_cases)
qed

lemma crc_byte_inj: "inj (crc_byte b)"
proof (rule injI)
  fix c d
  assume "crc_byte b c = crc_byte b d"
  then have "c XOR ucast b = d XOR ucast b"
    using inj_fn [OF crc_shift_inj, of 8] by (simp add: crc_byte_def inj_eq)
  then show "c = d" by (rule xor_cancel)
qed

lemma crc_byte_inj_data: "crc_byte b c = crc_byte b' c \<Longrightarrow> b = b'"
proof -
  assume "crc_byte b c = crc_byte b' c"
  then have "c XOR ucast b = c XOR (ucast b' :: 32 word)"
    using inj_fn [OF crc_shift_inj, of 8] by (simp add: crc_byte_def inj_eq)
  then have eq: "(ucast b :: 32 word) = ucast b'" using xor_cancel by (metis xor.commute)
  show "b = b'"
  proof (rule bit_word_eqI)
    fix n :: nat
    assume "n < LENGTH(8)"
    with arg_cong [OF eq, of "\<lambda>w. bit w n"] show "bit b n = bit b' n"
      by (simp add: bit_unsigned_iff)
  qed
qed

lemma fold_crc_inj: "fold crc_byte bs c = fold crc_byte bs d \<Longrightarrow> c = d"
  by (induction bs arbitrary: c d) (auto dest: injD [OF crc_byte_inj])


end
