(* ===== verification/Queues.thy ===== *)
theory Queues
  imports Message
begin

text \<open>
  One topic of the broker (\<^verbatim>\<open>internal/broker/broker.go\<close>): its three priority queues and the
  operations the broker performs on them under the topic's mutex. Channels are references
  into the channel store of the broker; times and durations are nanoseconds.
\<close>

record Topic =
  Name :: string
  Messages :: "message list"
  HighMessages :: "message list"
  LowMessages :: "message list"
  waitingConsumers :: "nat list"
  spies :: "nat list"
  Policy :: string
  Deleted :: bool
  Retention :: time

definition newTopic :: "string \<Rightarrow> message list \<Rightarrow> string \<Rightarrow> time \<Rightarrow> Topic" where
  "newTopic name msgs policy retention =
     \<lparr>Name = name, Messages = msgs, HighMessages = [], LowMessages = [], waitingConsumers = [],
      spies = [], Policy = policy, Deleted = False, Retention = retention\<rparr>"

text \<open>All messages of a topic in the order in which they are served.\<close>

definition queued :: "Topic \<Rightarrow> message list" where
  "queued t = HighMessages t @ Messages t @ LowMessages t"

subsection \<open>Extraction\<close>

text \<open>
  The closure \<^verbatim>\<open>extractFrom\<close>: from the results so far and a queue to the results, the queue
  that remains and the identifiers of the expired messages found.
\<close>

fun extractFrom ::
  "time \<Rightarrow> int \<Rightarrow> message list \<Rightarrow> message list \<Rightarrow> message list \<times> message list \<times> string list" where
  "extractFrom now limit results [] = (results, [], [])"
| "extractFrom now limit results (msg # queue) =
     (if limit \<le> int (length results) then
        (case extractFrom now limit results queue of (r, keep, ex) \<Rightarrow> (r, msg # keep, ex))
      else if expired now msg then
        (case extractFrom now limit results queue of (r, keep, ex) \<Rightarrow> (r, keep, ID msg # ex))
      else if delayed now msg then
        (case extractFrom now limit results queue of (r, keep, ex) \<Rightarrow> (r, msg # keep, ex))
      else extractFrom now limit (results @ [msg]) queue)"

definition extractMessages :: "time \<Rightarrow> Topic \<Rightarrow> int \<Rightarrow> message list \<times> string list \<times> Topic" where
  "extractMessages now t limit =
     (case extractFrom now limit [] (HighMessages t) of
        (r1, high, ex1) \<Rightarrow>
          (let t = t\<lparr>HighMessages := high\<rparr> in
           case (if int (length r1) < limit then
                   (case extractFrom now limit r1 (Messages t) of
                      (r, keep, ex) \<Rightarrow> (r, ex, t\<lparr>Messages := keep\<rparr>))
                 else (r1, [], t)) of
             (r2, ex2, t) \<Rightarrow>
               (case (if int (length r2) < limit then
                        (case extractFrom now limit r2 (LowMessages t) of
                           (r, keep, ex) \<Rightarrow> (r, ex, t\<lparr>LowMessages := keep\<rparr>))
                      else (r2, [], t)) of
                  (r3, ex3, t) \<Rightarrow> (r3, ex1 @ ex2 @ ex3, t))))"

subsection \<open>Removal\<close>

definition hasID :: "string \<Rightarrow> message list \<Rightarrow> bool" where
  "hasID i q \<longleftrightarrow> list_ex (\<lambda>m. ID m = i) q"

definition removeFromSlice :: "string \<Rightarrow> message list \<Rightarrow> bool \<times> message list" where
  "removeFromSlice i q = (hasID i q, remove_first (\<lambda>m. ID m = i) q)"

definition removeMessageByID :: "Topic \<Rightarrow> string \<Rightarrow> Topic" where
  "removeMessageByID t i =
     (case removeFromSlice i (HighMessages t) of
        (True, q) \<Rightarrow> t\<lparr>HighMessages := q\<rparr>
      | (False, _) \<Rightarrow>
         (case removeFromSlice i (Messages t) of
            (True, q) \<Rightarrow> t\<lparr>Messages := q\<rparr>
          | (False, _) \<Rightarrow> t\<lparr>LowMessages := snd (removeFromSlice i (LowMessages t))\<rparr>))"

text \<open>The queue part of \<^verbatim>\<open>Ack\<close>: whether the message was found, and the topic without it.\<close>

definition ackFrom :: "Topic \<Rightarrow> string \<Rightarrow> bool \<times> Topic" where
  "ackFrom t i =
     (if hasID i (HighMessages t) then (True, t\<lparr>HighMessages := remove_first (\<lambda>m. ID m = i) (HighMessages t)\<rparr>)
      else if hasID i (Messages t) then (True, t\<lparr>Messages := remove_first (\<lambda>m. ID m = i) (Messages t)\<rparr>)
      else if hasID i (LowMessages t) then (True, t\<lparr>LowMessages := remove_first (\<lambda>m. ID m = i) (LowMessages t)\<rparr>)
      else (False, t))"

text \<open>The closure \<^verbatim>\<open>purge\<close>: \<^verbatim>\<open>msg.ExpiresAt.Before(now)\<close> is the test of \<^const>\<open>expired\<close>.\<close>

definition purge :: "time \<Rightarrow> message list \<Rightarrow> string list \<times> message list" where
  "purge now queue = (map ID (filter (expired now) queue), filter (\<lambda>m. \<not> expired now m) queue)"

definition purgeTopic :: "time \<Rightarrow> Topic \<Rightarrow> string list \<times> Topic" where
  "purgeTopic now t =
     (case purge now (HighMessages t) of (ex1, high) \<Rightarrow>
      case purge now (Messages t) of (ex2, normal) \<Rightarrow>
      case purge now (LowMessages t) of (ex3, low) \<Rightarrow>
        (ex1 @ ex2 @ ex3, t\<lparr>HighMessages := high, Messages := normal, LowMessages := low\<rparr>))"

fun appendUpToLimit :: "int \<Rightarrow> message list \<Rightarrow> message list \<Rightarrow> message list" where
  "appendUpToLimit limit results [] = results"
| "appendUpToLimit limit results (msg # source) =
     (if limit \<le> int (length results) then results
      else appendUpToLimit limit (results @ [msg]) source)"

definition peekTopic :: "Topic \<Rightarrow> int \<Rightarrow> message list" where
  "peekTopic t limit =
     appendUpToLimit limit
       (appendUpToLimit limit (appendUpToLimit limit [] (HighMessages t)) (Messages t)) (LowMessages t)"

subsection \<open>Insertion\<close>

text \<open>The queue \<^verbatim>\<open>targetQueue\<close> points at, with a message appended.\<close>

definition enqueue :: "string \<Rightarrow> message \<Rightarrow> Topic \<Rightarrow> Topic" where
  "enqueue priority msg t =
     (if priority = ''high'' then t\<lparr>HighMessages := HighMessages t @ [msg]\<rparr>
      else if priority = ''low'' then t\<lparr>LowMessages := LowMessages t @ [msg]\<rparr>
      else t\<lparr>Messages := Messages t @ [msg]\<rparr>)"

text \<open>
  The eviction of the policy \<^verbatim>\<open>drop-oldest\<close>: from the lowest priority that has a message.
  \<^const>\<open>None\<close> is the run-time error of indexing an empty slice.
\<close>

definition evict :: "Topic \<Rightarrow> (message \<times> Topic) option" where
  "evict t =
     (case LowMessages t of
        m # ms \<Rightarrow> Some (m, t\<lparr>LowMessages := ms\<rparr>)
      | [] \<Rightarrow>
         (case Messages t of
            m # ms \<Rightarrow> Some (m, t\<lparr>Messages := ms\<rparr>)
          | [] \<Rightarrow>
             (case HighMessages t of
                m # ms \<Rightarrow> Some (m, t\<lparr>HighMessages := ms\<rparr>)
              | [] \<Rightarrow> None)))"

definition totalActiveMessages :: "Topic \<Rightarrow> int" where
  "totalActiveMessages t = int (length (HighMessages t)) + int (length (Messages t)) + int (length (LowMessages t))"

subsection \<open>What the operations do to the queues\<close>

named_theorems queue_simps \<open>effect of one operation on the queues of a topic\<close>

lemma extractFrom_full: "limit \<le> int (length results) \<Longrightarrow> extractFrom now limit results q = (results, q, [])"
  by (induction q) simp_all

lemma extractFrom_results:
  "fst (extractFrom now limit results q)
     = results @ take (nat (limit - int (length results))) (filter (deliverable now) q)"
proof (induction q arbitrary: results)
  case (Cons m q)
  show ?case
  proof (cases "limit \<le> int (length results)")
    case True
    then show ?thesis by (simp add: extractFrom_full del: extractFrom.simps)
  next
    case False
    then have n: "nat (limit - int (length results)) = Suc (nat (limit - int (Suc (length results))))"
      by arith
    show ?thesis
    proof (cases "deliverable now m")
      case True
      then have "extractFrom now limit results (m # q) = extractFrom now limit (results @ [m]) q"
        using False by (simp add: deliverable_def)
      then show ?thesis using True Cons [of "results @ [m]"] n by simp
    next
      case undeliverable: False
      then have "fst (extractFrom now limit results (m # q)) = fst (extractFrom now limit results q)"
        using False by (auto simp: deliverable_def split: prod.splits)
      then show ?thesis using undeliverable Cons [of results] by simp
    qed
  qed
qed simp

text \<open>Nothing is lost or duplicated: each message is a result, kept, or expired.\<close>

definition split_off :: "time \<Rightarrow> message list \<Rightarrow> message list \<Rightarrow> message list \<Rightarrow> string list \<Rightarrow> bool" where
  "split_off now q new keep ids \<longleftrightarrow>
     (\<exists>ex. ids = map ID ex \<and> list_all (expired now) ex \<and> mset q = mset new + mset keep + mset ex)
     \<and> subseq keep q"

lemma extractFrom_split:
  "extractFrom now limit results q = (r, keep, ids) \<Longrightarrow> \<exists>new. r = results @ new \<and> split_off now q new keep ids"
proof (induction q arbitrary: results keep ids)
  case Nil
  then show ?case by (simp add: split_off_def)
next
  case (Cons m q)
  consider (kept) keep' where "extractFrom now limit results q = (r, keep', ids)" "keep = m # keep'"
    | (old) ids' where "expired now m" "extractFrom now limit results q = (r, keep, ids')" "ids = ID m # ids'"
    | (new) "extractFrom now limit (results @ [m]) q = (r, keep, ids)"
    using Cons.prems by (auto split: if_splits prod.splits)
  then show ?case
  proof cases
    case kept
    with Cons.IH [OF kept(1)] show ?thesis by (fastforce simp: split_off_def)
  next
    case old
    obtain new ex where n: "r = results @ new" "ids' = map ID ex" "list_all (expired now) ex"
      "mset q = mset new + mset keep + mset ex" "subseq keep q"
      using Cons.IH [OF old(2)] by (auto simp: split_off_def)
    then have "ids = map ID (m # ex) \<and> list_all (expired now) (m # ex)
        \<and> mset (m # q) = mset new + mset keep + mset (m # ex)"
      using old by simp
    with n show ?thesis unfolding split_off_def by blast
  next
    case new
    obtain tl where n: "r = (results @ [m]) @ tl" "split_off now q tl keep ids" using Cons.IH [OF new] by blast
    then have "split_off now (m # q) (m # tl) keep ids" by (auto simp: split_off_def)
    with n show ?thesis by auto
  qed
qed

lemma split_off_append:
  assumes "split_off now q1 n1 k1 i1" and "split_off now q2 n2 k2 i2"
  shows "split_off now (q1 @ q2) (n1 @ n2) (k1 @ k2) (i1 @ i2)"
proof -
  obtain e1 e2 where "i1 = map ID e1" "list_all (expired now) e1" "mset q1 = mset n1 + mset k1 + mset e1" "subseq k1 q1"
    "i2 = map ID e2" "list_all (expired now) e2" "mset q2 = mset n2 + mset k2 + mset e2" "subseq k2 q2"
    using assms by (auto simp: split_off_def)
  then have "i1 @ i2 = map ID (e1 @ e2) \<and> list_all (expired now) (e1 @ e2)
      \<and> mset (q1 @ q2) = mset (n1 @ n2) + mset (k1 @ k2) + mset (e1 @ e2) \<and> subseq (k1 @ k2) (q1 @ q2)"
    by (auto intro: list_emb_append_mono)
  then show ?thesis unfolding split_off_def by blast
qed

text \<open>The tests before the second and the third queue only save work.\<close>

lemma extractMessages_alt:
  "extractMessages now t limit =
     (case extractFrom now limit [] (HighMessages t) of (r1, high, ex1) \<Rightarrow>
      case extractFrom now limit r1 (Messages t) of (r2, normal, ex2) \<Rightarrow>
      case extractFrom now limit r2 (LowMessages t) of (r3, low, ex3) \<Rightarrow>
        (r3, ex1 @ ex2 @ ex3, t\<lparr>HighMessages := high, Messages := normal, LowMessages := low\<rparr>))"
  by (auto simp: extractMessages_def Let_def extractFrom_full not_less split: prod.splits)

lemma take_take_filter:
  "take (nat l) xs @ take (nat (l - int (length (take (nat l) xs)))) ys = take (nat l) (xs @ ys)"
  by (cases "nat l \<le> length xs") (auto simp: min_def nat_diff_distrib')

lemma extractMessages_spec:
  assumes "extractMessages now t limit = (results, ids, t')"
  shows "results = take (nat limit) (filter (deliverable now) (queued t))"
    and "split_off now (queued t) results (queued t') ids"
    and "t' = t\<lparr>HighMessages := HighMessages t', Messages := Messages t', LowMessages := LowMessages t'\<rparr>"
proof -
  obtain r1 high ex1 where 1: "extractFrom now limit [] (HighMessages t) = (r1, high, ex1)"
    by (cases "extractFrom now limit [] (HighMessages t)")
  obtain r2 norm ex2 where 2: "extractFrom now limit r1 (Messages t) = (r2, norm, ex2)"
    by (cases "extractFrom now limit r1 (Messages t)")
  obtain r3 low ex3 where 3: "extractFrom now limit r2 (LowMessages t) = (r3, low, ex3)"
    by (cases "extractFrom now limit r2 (LowMessages t)")
  have eq: "results = r3" "ids = ex1 @ ex2 @ ex3"
    "t' = t\<lparr>HighMessages := high, Messages := norm, LowMessages := low\<rparr>"
    using assms by (simp_all add: extractMessages_alt 1 2 3)
  let ?f = "filter (deliverable now)"
  have r1: "r1 = take (nat limit) (?f (HighMessages t))"
    using extractFrom_results [of now limit "[]" "HighMessages t"] 1 by simp
  have "r2 = r1 @ take (nat (limit - int (length r1))) (?f (Messages t))"
    using extractFrom_results [of now limit r1 "Messages t"] 2 by simp
  then have r2: "r2 = take (nat limit) (?f (HighMessages t) @ ?f (Messages t))"
    unfolding r1 by (simp only: take_take_filter)
  have "r3 = r2 @ take (nat (limit - int (length r2))) (?f (LowMessages t))"
    using extractFrom_results [of now limit r2 "LowMessages t"] 3 by simp
  then have "r3 = take (nat limit) ((?f (HighMessages t) @ ?f (Messages t)) @ ?f (LowMessages t))"
    unfolding r2 by (simp only: take_take_filter)
  then show "results = take (nat limit) (?f (queued t))" by (simp add: eq queued_def)
  obtain n1 n2 n3 where "r1 = n1" "split_off now (HighMessages t) n1 high ex1"
    "r2 = r1 @ n2" "split_off now (Messages t) n2 norm ex2" "r3 = r2 @ n3" "split_off now (LowMessages t) n3 low ex3"
    using extractFrom_split [OF 1] extractFrom_split [OF 2] extractFrom_split [OF 3] by auto
  then show "split_off now (queued t) results (queued t') ids"
    by (simp add: eq queued_def split_off_append)
  show "t' = t\<lparr>HighMessages := HighMessages t', Messages := Messages t', LowMessages := LowMessages t'\<rparr>"
    by (simp add: eq)
qed

lemma hasID_iff: "hasID i q \<longleftrightarrow> i \<in> ID ` set q"
  by (auto simp: hasID_def list_ex_iff)

lemma no_ID_remove_first: "\<not> hasID i q \<Longrightarrow> remove_first (\<lambda>m. ID m = i) q = q"
  by (rule remove_first_none) (auto simp: hasID_def list_ex_iff)

lemma removeMessageByID_queued [queue_simps]:
  "queued (removeMessageByID t i) = remove_first (\<lambda>m. ID m = i) (queued t)"
  by (auto simp: removeMessageByID_def removeFromSlice_def queued_def remove_first_append hasID_def list_ex_iff
      remove_first_none split: bool.splits)

lemma removeMessageByID_rest [queue_simps]:
  "waitingConsumers (removeMessageByID t i) = waitingConsumers t" "spies (removeMessageByID t i) = spies t"
  "Name (removeMessageByID t i) = Name t" "Deleted (removeMessageByID t i) = Deleted t"
  "Policy (removeMessageByID t i) = Policy t" "Retention (removeMessageByID t i) = Retention t"
  by (auto simp: removeMessageByID_def removeFromSlice_def split: bool.splits)

lemma ackFrom_queued [queue_simps]:
  "fst (ackFrom t i) = hasID i (queued t)"
  "queued (snd (ackFrom t i)) = remove_first (\<lambda>m. ID m = i) (queued t)"
  by (auto simp: ackFrom_def queued_def remove_first_append hasID_def list_ex_iff remove_first_none)

lemma ackFrom_rest [queue_simps]:
  "waitingConsumers (snd (ackFrom t i)) = waitingConsumers t" "spies (snd (ackFrom t i)) = spies t"
  "Name (snd (ackFrom t i)) = Name t" "Deleted (snd (ackFrom t i)) = Deleted t"
  by (auto simp: ackFrom_def)

lemma purgeTopic_queued [queue_simps]:
  "fst (purgeTopic now t) = map ID (filter (expired now) (queued t))"
  "queued (snd (purgeTopic now t)) = filter (\<lambda>m. \<not> expired now m) (queued t)"
  by (simp_all add: purgeTopic_def purge_def queued_def)

lemma purgeTopic_rest [queue_simps]:
  "waitingConsumers (snd (purgeTopic now t)) = waitingConsumers t" "spies (snd (purgeTopic now t)) = spies t"
  "Name (snd (purgeTopic now t)) = Name t" "Deleted (snd (purgeTopic now t)) = Deleted t"
  by (simp_all add: purgeTopic_def purge_def)

lemma appendUpToLimit_eq:
  "appendUpToLimit limit results q = results @ take (nat (limit - int (length results))) q"
proof (induction q arbitrary: results)
  case (Cons m q)
  show ?case
  proof (cases "limit \<le> int (length results)")
    case False
    then have "nat (limit - int (length results)) = Suc (nat (limit - int (Suc (length results))))" by arith
    with False Cons [of "results @ [m]"] show ?thesis by simp
  qed simp
qed simp

lemma peekTopic_eq: "peekTopic t limit = take (nat limit) (queued t)"
proof -
  have "appendUpToLimit limit (take (nat limit) q) q' = take (nat limit) (q @ q')" for q q'
    unfolding appendUpToLimit_eq by (rule take_take_filter)
  moreover have "appendUpToLimit limit [] q = take (nat limit) q" for q
    by (simp add: appendUpToLimit_eq)
  ultimately show ?thesis by (simp add: peekTopic_def queued_def del: take_append)
qed

lemma enqueue_total [queue_simps]: "totalActiveMessages (enqueue p m t) = totalActiveMessages t + 1"
  by (simp add: enqueue_def totalActiveMessages_def)

lemma enqueue_queued: "mset (queued (enqueue p m t)) = add_mset m (mset (queued t))"
  by (simp add: enqueue_def queued_def)

lemma enqueue_rest [queue_simps]:
  "waitingConsumers (enqueue p m t) = waitingConsumers t" "spies (enqueue p m t) = spies t"
  "Name (enqueue p m t) = Name t" "Deleted (enqueue p m t) = Deleted t" "Policy (enqueue p m t) = Policy t"
  "Retention (enqueue p m t) = Retention t"
  by (simp_all add: enqueue_def)

lemma total_queued: "totalActiveMessages t = int (length (queued t))"
  by (simp add: totalActiveMessages_def queued_def)

lemma evict_Some: "0 < totalActiveMessages t \<Longrightarrow> evict t \<noteq> None"
  by (auto simp: evict_def totalActiveMessages_def split: list.splits)

lemma evict_spec:
  assumes "evict t = Some (m, t')"
  shows "mset (queued t) = add_mset m (mset (queued t'))" and "subseq (queued t') (queued t)"
    and "totalActiveMessages t' = totalActiveMessages t - 1"
    and "waitingConsumers t' = waitingConsumers t" and "spies t' = spies t" and "Name t' = Name t"
    and "Deleted t' = Deleted t" and "Policy t' = Policy t" and "Retention t' = Retention t"
  using assms
  by (auto simp: evict_def queued_def totalActiveMessages_def split: list.splits
      intro!: list_emb_append_mono)

text \<open>The message that is dropped is the oldest of the lowest priority that has one.\<close>

lemma evict_oldest:
  "evict t = Some (m, t') \<Longrightarrow>
     (if LowMessages t \<noteq> [] then m = hd (LowMessages t)
      else if Messages t \<noteq> [] then m = hd (Messages t) else m = hd (HighMessages t))"
  by (auto simp: evict_def split: list.splits)

end
