(* ===== verification/Broker.thy ===== *)
theory Broker
  imports Queues Names Helper Storage
begin

text \<open>
  \<^verbatim>\<open>internal/broker/broker.go\<close>. Topics are shared objects: a map entry, a wildcard entry and a
  pending push hold a reference into \<^verbatim>\<open>heap\<close>, and an object lives on after its topic was
  deleted. Channels are references into \<^verbatim>\<open>chans\<close>; every channel of the program is buffered, so
  a send in a \<^verbatim>\<open>select\<close> with a default succeeds exactly when the buffer has room. Goroutines and
  timers that an operation starts are entries of \<^verbatim>\<open>jobs\<close> and run as steps of their own.

  The outside world appears as parameters of the state: the outcomes of system calls inside
  the storage, the random bytes of identifiers, the results of the \<^verbatim>\<open>OnPublish\<close> callback (with
  the calls made to it), the regular expressions outside the modelled fragment and the
  environment variable for the default policy. One reading of the clock serves a whole
  operation. An operation runs to its end before the next one starts, except that pushes,
  broadcasts and webhook calls that the code defers are deferred.
\<close>

subsection \<open>State\<close>

record chan =
  cap :: nat
  buf :: "message list"
  chClosed :: bool

record WebhookConfig =
  URL :: string
  Secret :: string

text \<open>What the closure \<^verbatim>\<open>pushFunc\<close> captures.\<close>

record push_job =
  jName :: string
  jTopic :: nat
  jMsg :: message
  jWild :: "nat list"
  jBroadcast :: bool

datatype job =
    DelayedPush time push_job
  | BroadcastSend "nat list" message
  | WebhookCall WebhookConfig bytes

record Broker =
  heap :: "Topic list"
  chans :: "chan list"
  jobs :: "job list"
  Topics :: "(string, nat) gomap"
  wildcards :: "(string, nat) gomap"
  storage :: "DiskStorage option"
  compiledRegex :: "(string, regex) gomap"
  webhooks :: "(string, WebhookConfig list) gomap"
  webhookSem :: nat
  idempotencyKeys :: "(string, time) gomap"
  bindings :: "(string, string list) gomap"
  maxMessages :: int
  maxTopics :: int
  OnPublish :: "(nat \<Rightarrow> error option) option"
  onPublishCalls :: "(string \<times> bytes) list"
  OnGroupCreate :: bool
  onGroupCreateCalls :: "(string \<times> string) list"
  envPolicy :: string
  xcomp :: "string \<Rightarrow> bool"
  xmatch :: "string \<Rightarrow> string \<Rightarrow> bool"
  randOut :: "nat \<Rightarrow> bytes option"
  randTick :: nat

record publish_req =
  pPayload :: bytes
  pHeaders :: "(string, string) gomap"
  pPriority :: string
  pExpiresAt :: "time option"
  pDeliverAt :: "time option"
  pBroadcast :: bool
  pReplication :: bool

text \<open>An operation returns, blocks for ever on a mutex it holds itself, or panics.\<close>

datatype 'a run = Ret 'a | Deadlock | Panic

fun bind_run :: "'a run \<Rightarrow> ('a \<Rightarrow> 'b run) \<Rightarrow> 'b run" where
  "bind_run (Ret x) f = f x"
| "bind_run Deadlock f = Deadlock"
| "bind_run Panic f = Panic"

fun fold_run :: "('a \<Rightarrow> 's \<Rightarrow> 's run) \<Rightarrow> 'a list \<Rightarrow> 's \<Rightarrow> 's run" where
  "fold_run f [] s = Ret s"
| "fold_run f (x # xs) s = bind_run (f x s) (fold_run f xs)"

definition updTopic :: "nat \<Rightarrow> (Topic \<Rightarrow> Topic) \<Rightarrow> Broker \<Rightarrow> Broker" where
  "updTopic r f b = b\<lparr>heap := (heap b)[r := f (heap b ! r)]\<rparr>"

definition storePut :: "time \<Rightarrow> string \<Rightarrow> message \<Rightarrow> Broker \<Rightarrow> Broker" where
  "storePut now name msg b =
     (case storage b of None \<Rightarrow> b | Some s \<Rightarrow> b\<lparr>storage := Some (snd (AppendPut now name msg s))\<rparr>)"

definition storeAck :: "time \<Rightarrow> string \<Rightarrow> string \<Rightarrow> Broker \<Rightarrow> Broker" where
  "storeAck now name i b =
     (case storage b of None \<Rightarrow> b | Some s \<Rightarrow> b\<lparr>storage := Some (snd (AppendAck now name i s))\<rparr>)"

subsection \<open>Channels\<close>

datatype sent = Sent Broker | Full | SendOnClosed

definition trySend :: "nat \<Rightarrow> message \<Rightarrow> Broker \<Rightarrow> sent" where
  "trySend c m b =
     (let ch = chans b ! c in
      if chClosed ch then SendOnClosed
      else if length (buf ch) < cap ch then Sent (b\<lparr>chans := (chans b)[c := ch\<lparr>buf := buf ch @ [m]\<rparr>]\<rparr>)
      else Full)"

text \<open>\<^verbatim>\<open>select { case ch <- m: default: }\<close>\<close>

definition offer :: "message \<Rightarrow> nat \<Rightarrow> Broker \<Rightarrow> Broker run" where
  "offer m c b = (case trySend c m b of Sent b \<Rightarrow> Ret b | Full \<Rightarrow> Ret b | SendOnClosed \<Rightarrow> Panic)"

definition newChan :: "nat \<Rightarrow> Broker \<Rightarrow> nat \<times> Broker" where
  "newChan n b = (length (chans b), b\<lparr>chans := chans b @ [\<lparr>cap = n, buf = [], chClosed = False\<rparr>]\<rparr>)"

definition closeChan :: "nat \<Rightarrow> Broker \<Rightarrow> Broker" where
  "closeChan c b = b\<lparr>chans := (chans b)[c := (chans b ! c)\<lparr>chClosed := True\<rparr>]\<rparr>"

subsection \<open>Topics\<close>

definition env_limit :: "int \<Rightarrow> string \<Rightarrow> int" where
  "env_limit dflt val = (if val \<noteq> [] then (case Atoi val of Some n \<Rightarrow> if 0 < n then n else dflt | None \<Rightarrow> dflt) else dflt)"

definition broker_New ::
  "DiskStorage option \<Rightarrow> string \<Rightarrow> string \<Rightarrow> string \<Rightarrow>
   (string \<Rightarrow> bool) \<Rightarrow> (string \<Rightarrow> string \<Rightarrow> bool) \<Rightarrow> (nat \<Rightarrow> bytes option) \<Rightarrow> Broker" where
  "broker_New store envMsgs envTopics policy xc xm rnd =
     \<lparr>heap = [], chans = [], jobs = [], Topics = [], wildcards = [], storage = store, compiledRegex = [],
      webhooks = [], webhookSem = 0, idempotencyKeys = [], bindings = [],
      maxMessages = env_limit 100000 envMsgs, maxTopics = env_limit 10000 envTopics,
      OnPublish = None, onPublishCalls = [], OnGroupCreate = False, onGroupCreateCalls = [],
      envPolicy = policy, xcomp = xc, xmatch = xm, randOut = rnd, randTick = 0\<rparr>"

definition compileWildcardRegex :: "string \<Rightarrow> Broker \<Rightarrow> Broker" where
  "compileWildcardRegex name b =
     (case mget (compiledRegex b) name of
        Some _ \<Rightarrow> b
      | None \<Rightarrow> (case wildcard_regex (xcomp b) name of
                   Some r \<Rightarrow> b\<lparr>compiledRegex := mput name r (compiledRegex b)\<rparr>
                 | None \<Rightarrow> b))"

definition policyOf :: "string \<Rightarrow> string" where
  "policyOf p = (if p = ''drop-oldest'' then p else ''reject'')"

text \<open>The end of every function that makes a topic: the new object enters the maps.\<close>

definition addTopic :: "string \<Rightarrow> Topic \<Rightarrow> Broker \<Rightarrow> Broker" where
  "addTopic name t b =
     (let r = length (heap b);
          b = b\<lparr>heap := heap b @ [t], Topics := mput name r (Topics b)\<rparr> in
      if Contains name ''*'' then compileWildcardRegex name (b\<lparr>wildcards := mput name r (wildcards b)\<rparr>) else b)"

definition getOrCreateTopic :: "string \<Rightarrow> Broker \<Rightarrow> nat option \<times> Broker" where
  "getOrCreateTopic name b =
     (case mget (Topics b) name of
        Some r \<Rightarrow> (Some r, b)
      | None \<Rightarrow>
         (if maxTopics b \<le> int (length (Topics b)) then (None, b)
          else (Some (length (heap b)), addTopic name (newTopic name [] (policyOf (envPolicy b)) 0) b)))"

definition addBinding :: "string \<Rightarrow> string \<Rightarrow> Broker \<Rightarrow> Broker" where
  "addBinding src vt b =
     (let vs = (case mget (bindings b) src of None \<Rightarrow> [] | Some vs \<Rightarrow> vs) in
      b\<lparr>bindings := mput src (if vt \<in> set vs then vs else vs @ [vt]) (bindings b)\<rparr>)"

text \<open>One round of \<^verbatim>\<open>LoadExistingTopics\<close>; without a storage the method call panics.\<close>

definition loadTopic :: "string \<Rightarrow> Broker \<Rightarrow> Broker run" where
  "loadTopic name b =
     (let b = (if Contains name ''::'' then addBinding (hd (SplitN name ''::'' 2)) name b else b) in
      case storage b of
        None \<Rightarrow> (if isSafePath name = None then Panic else Ret b)
      | Some s \<Rightarrow>
         (case LoadMessages name s of
            ((msgs, err), s) \<Rightarrow>
              (let b = b\<lparr>storage := Some s\<rparr> in
               if err \<noteq> None then Ret b
               else Ret (addTopic name (newTopic name msgs (policyOf (envPolicy b)) 0) b))))"

definition LoadExistingTopics :: "string list \<Rightarrow> Broker \<Rightarrow> Broker run" where
  "LoadExistingTopics names b = fold_run loadTopic names b"

subsection \<open>Publishing\<close>

text \<open>The checks on the name, before anything changes.\<close>

definition publish_check :: "string \<Rightarrow> error option" where
  "publish_check topicName =
     (if length topicName = 0 \<or> 255 < length topicName
      then Some ''invalid topic name length (must be between 1 and 255 characters)''
      else if \<not> validTopicRegex topicName then Some ''invalid topic name''
      else None)"

definition boundTopics :: "string \<Rightarrow> Broker \<Rightarrow> string list" where
  "boundTopics topicName b =
     (if Contains topicName ''::'' then []
      else (case mget (bindings b) topicName of None \<Rightarrow> [] | Some vs \<Rightarrow> vs))"

definition matchingWildcards :: "string \<Rightarrow> Broker \<Rightarrow> nat list" where
  "matchingWildcards topicName b =
     map snd (filter (\<lambda>(name, r). case mget (compiledRegex b) name of
                        None \<Rightarrow> False | Some reg \<Rightarrow> MatchString (xmatch b) reg topicName) (wildcards b))"

text \<open>
  The message. The retention of the topic supplies a missing expiry; the identifier takes the
  next random bytes.
\<close>

definition publish_message :: "time \<Rightarrow> string \<Rightarrow> publish_req \<Rightarrow> Topic \<Rightarrow> string \<Rightarrow> message" where
  "publish_message now topicName req t i =
     \<lparr>ID = i, Topic = topicName, Payload = pPayload req, Timestamp = now,
      ExpiresAt = (if pExpiresAt req = None \<and> 0 < Retention t then Some (now + Retention t) else pExpiresAt req),
      DeliverAt = pDeliverAt req, RetryCount = 0, Headers = pHeaders req\<rparr>"

definition callOnPublish :: "string \<Rightarrow> publish_req \<Rightarrow> Broker \<Rightarrow> error option \<times> Broker" where
  "callOnPublish topicName req b =
     (case OnPublish b of
        None \<Rightarrow> (None, b)
      | Some results \<Rightarrow>
          (if pReplication req then (None, b)
           else (results (length (onPublishCalls b)),
                 b\<lparr>onPublishCalls := onPublishCalls b @ [(topicName, pPayload req)]\<rparr>)))"

text \<open>The section under the topic's mutex: the log, the capacity, the queue.\<close>

definition publish_enqueue ::
  "time \<Rightarrow> string \<Rightarrow> publish_req \<Rightarrow> nat \<Rightarrow> message \<Rightarrow> Broker \<Rightarrow> (error option \<times> Broker) run" where
  "publish_enqueue now topicName req r msg b =
     (if Deleted (heap b ! r) then Ret (Some ''topic was concurrently deleted'', b)
      else
        (let b = (if pBroadcast req then b else storePut now topicName msg b) in
         if maxMessages b \<le> totalActiveMessages (heap b ! r) then
           (if Policy (heap b ! r) = ''drop-oldest'' then
              (case evict (heap b ! r) of
                 None \<Rightarrow> Panic
               | Some (oldest, t) \<Rightarrow>
                   Ret (None, updTopic r (enqueue (pPriority req) msg)
                          (storeAck now topicName (ID oldest) (updTopic r (\<lambda>_. t) b))))
            else Ret (Some (''queue capacity reached (max '' @ Itoa (maxMessages b) @ '' messages)''), b))
         else Ret (None, updTopic r (enqueue (pPriority req) msg) b)))"

subsection \<open>Pushing\<close>

text \<open>The four parts of \<^verbatim>\<open>pushFunc\<close>: webhooks, spies, broadcast, and one waiting consumer.\<close>

definition webhooksOf :: "string \<Rightarrow> Broker \<Rightarrow> WebhookConfig list" where
  "webhooksOf topicName b = (case mget (webhooks b) topicName of None \<Rightarrow> [] | Some cs \<Rightarrow> cs)"

definition push_webhook :: "bytes \<Rightarrow> WebhookConfig \<Rightarrow> Broker \<Rightarrow> Broker" where
  "push_webhook payload wh b =
     (if webhookSem b < 64 then b\<lparr>webhookSem := Suc (webhookSem b), jobs := jobs b @ [WebhookCall wh payload]\<rparr>
      else b)"

definition push_webhooks :: "push_job \<Rightarrow> Broker \<Rightarrow> Broker" where
  "push_webhooks j b =
     fold (push_webhook (Payload (jMsg j))) (webhooksOf (jName j) b) b"

definition push_spies :: "push_job \<Rightarrow> Broker \<Rightarrow> Broker run" where
  "push_spies j b = fold_run (\<lambda>r b. fold_run (offer (jMsg j)) (spies (heap b ! r)) b) (jTopic j # jWild j) b"

definition takeWaiting :: "nat \<Rightarrow> Broker \<Rightarrow> Broker" where
  "takeWaiting r b = updTopic r (\<lambda>t. t\<lparr>waitingConsumers := []\<rparr>) b"

definition push_broadcast :: "push_job \<Rightarrow> Broker \<Rightarrow> Broker" where
  "push_broadcast j b =
     (case fold (\<lambda>r (cs, b). (cs @ waitingConsumers (heap b ! r), takeWaiting r b)) (jWild j @ [jTopic j]) ([], b) of
        (cs, b) \<Rightarrow> b\<lparr>jobs := jobs b @ [BroadcastSend cs (jMsg j)]\<rparr>)"

definition popWaiting :: "nat \<Rightarrow> Broker \<Rightarrow> Broker" where
  "popWaiting r b = updTopic r (\<lambda>t. t\<lparr>waitingConsumers := tl (waitingConsumers t)\<rparr>) b"

text \<open>
  The loop over the wildcard topics. Its default branch takes the mutex of the topic and
  keeps it: every way on from there takes that mutex again and blocks.
\<close>

fun push_wild :: "push_job \<Rightarrow> nat list \<Rightarrow> Broker \<Rightarrow> (bool \<times> Broker) run" where
  "push_wild j [] b = Ret (False, b)"
| "push_wild j (r # rs) b =
     (case waitingConsumers (heap b ! r) of
        [] \<Rightarrow> push_wild j rs b
      | c # _ \<Rightarrow>
         (case trySend c (jMsg j) (popWaiting r b) of
            Sent b \<Rightarrow> Ret (True, updTopic (jTopic j) (\<lambda>t. removeMessageByID t (ID (jMsg j))) b)
          | Full \<Rightarrow> Deadlock
          | SendOnClosed \<Rightarrow> Panic))"

definition push_direct :: "push_job \<Rightarrow> Broker \<Rightarrow> Broker run" where
  "push_direct j b =
     (case waitingConsumers (heap b ! jTopic j) of
        [] \<Rightarrow> Ret b
      | c # _ \<Rightarrow>
         (case trySend c (jMsg j) (popWaiting (jTopic j) b) of
            Sent b \<Rightarrow> Ret (updTopic (jTopic j) (\<lambda>t. removeMessageByID t (ID (jMsg j))) b)
          | Full \<Rightarrow> Ret (popWaiting (jTopic j) b)
          | SendOnClosed \<Rightarrow> Panic))"

definition pushFunc :: "push_job \<Rightarrow> Broker \<Rightarrow> Broker run" where
  "pushFunc j b =
     bind_run (push_spies j (push_webhooks j b)) (\<lambda>b.
       if jBroadcast j then Ret (push_broadcast j b)
       else bind_run (push_wild j (jWild j) b) (\<lambda>(delivered, b).
              if delivered then Ret b else push_direct j b))"

text \<open>A job of a goroutine or a timer.\<close>

fun runJob :: "job \<Rightarrow> Broker \<Rightarrow> Broker run" where
  "runJob (DelayedPush _ j) b = pushFunc j b"
| "runJob (BroadcastSend cs m) b = fold_run (offer m) cs b"
| "runJob (WebhookCall _ _) b = Ret (b\<lparr>webhookSem := webhookSem b - 1\<rparr>)"

text \<open>Everything after the bindings.\<close>

definition publish_local :: "time \<Rightarrow> string \<Rightarrow> publish_req \<Rightarrow> Broker \<Rightarrow> (error option \<times> Broker) run" where
  "publish_local now topicName req b =
     (case getOrCreateTopic topicName b of
        (None, b) \<Rightarrow> Ret (Some ''broker maximum topic limit reached'', b)
      | (Some r, b) \<Rightarrow>
         (case NewUUID (randOut b (randTick b)) of
            None \<Rightarrow> Panic
          | Some i \<Rightarrow>
             (let wilds = matchingWildcards topicName b;
                  msg = publish_message now topicName req (heap b ! r) i;
                  b = b\<lparr>randTick := Suc (randTick b)\<rparr> in
              case callOnPublish topicName req b of
                (Some e, b) \<Rightarrow> Ret (Some e, b)
              | (None, b) \<Rightarrow>
                 bind_run (publish_enqueue now topicName req r msg b) (\<lambda>(err, b).
                   case err of
                     Some e \<Rightarrow> Ret (Some e, b)
                   | None \<Rightarrow>
                      (let j = \<lparr>jName = topicName, jTopic = r, jMsg = msg, jWild = wilds,
                                jBroadcast = pBroadcast req\<rparr> in
                       if delayed now msg
                       then Ret (None, b\<lparr>jobs := jobs b @ [DelayedPush (the (pDeliverAt req)) j]\<rparr>)
                       else bind_run (pushFunc j b) (\<lambda>b. Ret (None, b)))))))"

text \<open>
  \<^verbatim>\<open>publishCore\<close>, by recursion on the number of levels left: depth \<^verbatim>\<open>d\<close> of the code is
  \<^verbatim>\<open>11 - d\<close>, and \<^verbatim>\<open>depth > 10\<close> is 0. Errors of the bound topics are ignored.
\<close>

primrec publishCore ::
  "nat \<Rightarrow> time \<Rightarrow> string \<Rightarrow> publish_req \<Rightarrow> Broker \<Rightarrow> (error option \<times> Broker) run" where
  "publishCore 0 = (\<lambda>now topicName req b. Ret (Some ''binding loop detected'', b))"
| "publishCore (Suc levels) = (\<lambda>now topicName req b.
     case publish_check topicName of
       Some e \<Rightarrow> Ret (Some e, b)
     | None \<Rightarrow>
        bind_run
          (fold_run (\<lambda>dest b. bind_run (publishCore levels now dest req b) (\<lambda>(_, b). Ret b))
             (boundTopics topicName b) b)
          (publish_local now topicName req))"

definition Publish :: "time \<Rightarrow> string \<Rightarrow> publish_req \<Rightarrow> Broker \<Rightarrow> (error option \<times> Broker) run" where
  "Publish now topicName req b = publishCore 11 now topicName (req\<lparr>pReplication := False\<rparr>) b"

definition PublishReplicated :: "time \<Rightarrow> string \<Rightarrow> bytes \<Rightarrow> Broker \<Rightarrow> (error option \<times> Broker) run" where
  "PublishReplicated now topicName payload b =
     publishCore 11 now topicName
       \<lparr>pPayload = payload, pHeaders = [], pPriority = ''normal'', pExpiresAt = None, pDeliverAt = None,
        pBroadcast = False, pReplication = True\<rparr> b"

subsection \<open>Consuming\<close>

definition ackExpired :: "time \<Rightarrow> string \<Rightarrow> string list \<Rightarrow> Broker \<Rightarrow> Broker" where
  "ackExpired now topicName expiredIDs b = fold (storeAck now topicName) expiredIDs b"

text \<open>One locked extraction and the acknowledgements of what had expired.\<close>

definition extractAt :: "time \<Rightarrow> int \<Rightarrow> nat \<Rightarrow> Broker \<Rightarrow> message list \<times> Broker" where
  "extractAt now limit r b =
     (case extractMessages now (heap b ! r) limit of
        (results, expiredIDs, t) \<Rightarrow> (results, ackExpired now (Name t) expiredIDs (updTopic r (\<lambda>_. t) b)))"

fun extractFirst :: "time \<Rightarrow> int \<Rightarrow> nat list \<Rightarrow> Broker \<Rightarrow> message list \<times> Broker" where
  "extractFirst now limit [] b = ([], b)"
| "extractFirst now limit (r # rs) b =
     (case extractAt now limit r b of
        (results, b) \<Rightarrow> if results \<noteq> [] then (results, b) else extractFirst now limit rs b)"

definition matchingTopics :: "string \<Rightarrow> Broker \<Rightarrow> nat list" where
  "matchingTopics topicName b =
     (if Contains topicName ''*'' then
        (case mget (compiledRegex b) topicName of
           None \<Rightarrow> []
         | Some reg \<Rightarrow> map snd (filter (\<lambda>(name, r). MatchString (xmatch b) reg name) (Topics b)))
      else [])"

definition Consume ::
  "time \<Rightarrow> string \<Rightarrow> int \<Rightarrow> nat \<Rightarrow> Broker \<Rightarrow> (message list \<times> bool) \<times> Broker" where
  "Consume now topicName limit notifyChan b =
     (if 0 < length topicName \<and> \<not> IsValidTopicName topicName then (([], False), b)
      else
        (case getOrCreateTopic topicName b of
           (None, b) \<Rightarrow> (([], False), b)
         | (Some target, b) \<Rightarrow>
            (case extractFirst now limit (matchingTopics topicName b) b of
               (results, b) \<Rightarrow>
                 if results \<noteq> [] then ((results, True), b)
                 else
                   (case extractMessages now (heap b ! target) limit of
                      (results, expiredIDs, t) \<Rightarrow>
                        (let t = (if results = []
                                  then t\<lparr>waitingConsumers := waitingConsumers t @ [notifyChan]\<rparr> else t);
                             b = ackExpired now (Name t) expiredIDs (updTopic target (\<lambda>_. t) b) in
                         ((results, results \<noteq> []), b))))))"

record TopicStat =
  sName :: string
  MessageCount :: int
  WaitingConsumers :: int
  IsDLQ :: bool
  HasWebhooks :: bool

definition GetStats :: "Broker \<Rightarrow> TopicStat list \<times> int" where
  "GetStats b =
     (map (\<lambda>(name, r).
        \<lparr>sName = name, MessageCount = totalActiveMessages (heap b ! r),
         WaitingConsumers = int (length (waitingConsumers (heap b ! r))),
         IsDLQ = HasSuffix name ''.dlq'', HasWebhooks = (mget (webhooks b) name \<noteq> None)\<rparr>) (Topics b),
      int (sum_list (map (length \<circ> snd) (webhooks b))))"

definition RemoveWaitingConsumer :: "string \<Rightarrow> nat \<Rightarrow> Broker \<Rightarrow> Broker" where
  "RemoveWaitingConsumer topicName notifyChan b =
     (case mget (Topics b) topicName of
        None \<Rightarrow> b
      | Some r \<Rightarrow> updTopic r (\<lambda>t. t\<lparr>waitingConsumers := remove1 notifyChan (waitingConsumers t)\<rparr>) b)"

definition Ack :: "time \<Rightarrow> string \<Rightarrow> string \<Rightarrow> Broker \<Rightarrow> bool \<times> Broker" where
  "Ack now topicName msgID b =
     (case mget (Topics b) topicName of
        None \<Rightarrow> (False, b)
      | Some r \<Rightarrow>
         (case ackFrom (heap b ! r) msgID of
            (True, t) \<Rightarrow> (True, storeAck now topicName msgID (updTopic r (\<lambda>_. t) b))
          | (False, _) \<Rightarrow> (False, b)))"

text \<open>The message \<^verbatim>\<open>Requeue\<close> works with: one more retry, moved to the dead letters at the third.\<close>

definition requeued :: "message \<Rightarrow> message" where
  "requeued msg =
     (let msg = (if RetryCount msg < 0 then msg\<lparr>RetryCount := 0\<rparr> else msg);
          msg = msg\<lparr>RetryCount := wrap64 (RetryCount msg + 1)\<rparr> in
      if 3 \<le> RetryCount msg then msg\<lparr>Topic := Topic msg @ ''.dlq''\<rparr> else msg)"

definition Requeue :: "time \<Rightarrow> message \<Rightarrow> Broker \<Rightarrow> Broker run" where
  "Requeue now msg b =
     (let msg = requeued msg; targetTopic = Topic msg in
      case getOrCreateTopic targetTopic b of
        (None, b) \<Rightarrow> Ret b
      | (Some r, b) \<Rightarrow>
         (let b = storePut now targetTopic msg b in
          case waitingConsumers (heap b ! r) of
            [] \<Rightarrow> Ret (updTopic r (\<lambda>t. t\<lparr>Messages := Messages t @ [msg]\<rparr>) b)
          | c # _ \<Rightarrow>
             (case trySend c msg (popWaiting r b) of
                Sent b \<Rightarrow> Ret b
              | Full \<Rightarrow> Ret (updTopic r (\<lambda>t. t\<lparr>Messages := Messages t @ [msg]\<rparr>) (popWaiting r b))
              | SendOnClosed \<Rightarrow> Panic)))"

definition purgeAt :: "time \<Rightarrow> nat \<Rightarrow> Broker \<Rightarrow> Broker" where
  "purgeAt now r b =
     (case purgeTopic now (heap b ! r) of
        (allExpired, t) \<Rightarrow> ackExpired now (Name t) allExpired (updTopic r (\<lambda>_. t) b))"

definition purgeExpiredMessages :: "time \<Rightarrow> Broker \<Rightarrow> Broker" where
  "purgeExpiredMessages now b = fold (purgeAt now) (map snd (Topics b)) b"

text \<open>The loop of \<^verbatim>\<open>RedriveDLQ\<close> counts the messages published without an error.\<close>

fun redrive :: "time \<Rightarrow> string \<Rightarrow> string \<Rightarrow> message list \<Rightarrow> int \<Rightarrow> Broker \<Rightarrow> (int \<times> Broker) run" where
  "redrive now dlqName targetTopic [] n b = Ret (n, b)"
| "redrive now dlqName targetTopic (msg # msgs) n b =
     bind_run
       (publishCore 11 now targetTopic
          \<lparr>pPayload = Payload msg, pHeaders = Headers msg, pPriority = ''normal'', pExpiresAt = ExpiresAt msg,
           pDeliverAt = None, pBroadcast = False, pReplication = False\<rparr>
          (storeAck now dlqName (ID msg) b))
       (\<lambda>(err, b). redrive now dlqName targetTopic msgs (if err = None then n + 1 else n) b)"

definition RedriveDLQ :: "time \<Rightarrow> string \<Rightarrow> Broker \<Rightarrow> ((int \<times> error option) \<times> Broker) run" where
  "RedriveDLQ now targetTopic b =
     (let dlqName = (if HasSuffix targetTopic ''.dlq'' then targetTopic else targetTopic @ ''.dlq'');
          targetTopic = (if HasSuffix targetTopic ''.dlq'' then TrimSuffix targetTopic ''.dlq'' else targetTopic) in
      case mget (Topics b) dlqName of
        None \<Rightarrow> Ret ((0, Some (''DLQ topic '' @ [CHR 0x27] @ dlqName @ [CHR 0x27] @ '' not found'')), b)
      | Some r \<Rightarrow>
         (let msgs = Messages (heap b ! r) in
          if msgs = [] then Ret ((0, None), b)
          else bind_run (redrive now dlqName targetTopic msgs 0 (updTopic r (\<lambda>t. t\<lparr>Messages := []\<rparr>) b))
                 (\<lambda>(n, b). Ret ((n, None), b))))"

subsection \<open>Administration\<close>

definition RegisterWebhook :: "string \<Rightarrow> string \<Rightarrow> string \<Rightarrow> Broker \<Rightarrow> error option \<times> Broker" where
  "RegisterWebhook topicName callbackURL secret b =
     (if list_ex (\<lambda>wh. URL wh = callbackURL) (webhooksOf topicName b)
      then (Some ''webhook already registered for this topic'', b)
      else (None, b\<lparr>webhooks := mput topicName (webhooksOf topicName b @ [\<lparr>URL = callbackURL, Secret = secret\<rparr>])
                    (webhooks b)\<rparr>))"

definition CreateTopic :: "string \<Rightarrow> string \<Rightarrow> time \<Rightarrow> Broker \<Rightarrow> error option \<times> Broker" where
  "CreateTopic topicName policy retention b =
     (if length topicName = 0 \<or> 255 < length topicName
      then (Some ''Invalid name length (1-255 characters)'', b)
      else if \<not> validTopicRegex topicName
      then (Some (''The name can only contain letters, numbers, '' @ [CHR 0x27] @ ''.'' @ [CHR 0x27] @ '', ''
                  @ [CHR 0x27] @ ''-'' @ [CHR 0x27] @ '' and '' @ [CHR 0x27] @ ''_'' @ [CHR 0x27]), b)
      else if maxTopics b \<le> int (length (Topics b)) then (Some ''broker maximum topic limit reached'', b)
      else if mget (Topics b) topicName \<noteq> None then (Some ''the Topic already exists'', b)
      else (None, addTopic topicName (newTopic topicName [] (policyOf policy) retention) b))"

definition Peek :: "string \<Rightarrow> int \<Rightarrow> Broker \<Rightarrow> message list" where
  "Peek topicName limit b =
     (case mget (Topics b) topicName of None \<Rightarrow> [] | Some r \<Rightarrow> peekTopic (heap b ! r) limit)"

definition TopicExists :: "string \<Rightarrow> Broker \<Rightarrow> bool" where
  "TopicExists name b \<longleftrightarrow> mget (Topics b) name \<noteq> None"

definition Purge :: "string \<Rightarrow> Broker \<Rightarrow> error option \<times> Broker" where
  "Purge topicName b =
     (case mget (Topics b) topicName of
        None \<Rightarrow> (Some ''queue not found'', b)
      | Some r \<Rightarrow>
         (let b = updTopic r (\<lambda>t. t\<lparr>Messages := [], HighMessages := [], LowMessages := []\<rparr>) b in
          (None, case storage b of None \<Rightarrow> b | Some s \<Rightarrow> b\<lparr>storage := Some (snd (ClearLog topicName s))\<rparr>)))"

definition DeleteTopic :: "string \<Rightarrow> Broker \<Rightarrow> error option \<times> Broker" where
  "DeleteTopic topicName b =
     (case mget (Topics b) topicName of
        None \<Rightarrow> (Some ''queue not found'', b)
      | Some r \<Rightarrow>
         (let b = (updTopic r (\<lambda>t. t\<lparr>Deleted := True\<rparr>) b)\<lparr>
                Topics := mdel topicName (Topics b), wildcards := mdel topicName (wildcards b),
                webhooks := mdel topicName (webhooks b), compiledRegex := mdel topicName (compiledRegex b)\<rparr> in
          (None, case storage b of None \<Rightarrow> b | Some s \<Rightarrow> b\<lparr>storage := Some (snd (DeleteLog topicName s))\<rparr>)))"

definition GetWebhooks :: "string \<Rightarrow> Broker \<Rightarrow> string list" where
  "GetWebhooks topicName b = map URL (webhooksOf topicName b)"

definition maxIdempotencyKeys :: int where
  "maxIdempotencyKeys = 20000"

definition IsIdempotent :: "time \<Rightarrow> string \<Rightarrow> Broker \<Rightarrow> bool \<times> Broker" where
  "IsIdempotent now key b =
     (if key = [] then (False, b)
      else if (case mget (idempotencyKeys b) key of None \<Rightarrow> False | Some exp \<Rightarrow> now < exp) then (True, b)
      else
        (let keys = (if 5000 < int (length (idempotencyKeys b))
                     then filter (\<lambda>(k, v). \<not> v < now) (idempotencyKeys b) else idempotencyKeys b) in
         if maxIdempotencyKeys \<le> int (length keys) then (False, b\<lparr>idempotencyKeys := keys\<rparr>)
         else (False, b\<lparr>idempotencyKeys := mput key (now + 5 * 60 * 1000000000) keys\<rparr>)))"

definition AddSpy :: "string \<Rightarrow> Broker \<Rightarrow> nat result \<times> Broker" where
  "AddSpy topicName b =
     (if \<not> IsValidTopicName topicName then (Inl ''invalid topic name'', b)
      else
        (case getOrCreateTopic topicName b of
           (None, b) \<Rightarrow> (Inl ''broker maximum topic limit reached'', b)
         | (Some r, b) \<Rightarrow>
            (case newChan 1024 b of
               (c, b) \<Rightarrow> (Inr c, updTopic r (\<lambda>t. t\<lparr>spies := spies t @ [c]\<rparr>) b))))"

definition RemoveSpy :: "string \<Rightarrow> nat \<Rightarrow> Broker \<Rightarrow> Broker" where
  "RemoveSpy topicName c b =
     (case mget (Topics b) topicName of
        None \<Rightarrow> b
      | Some r \<Rightarrow>
         (if c \<in> set (spies (heap b ! r))
          then closeChan c (updTopic r (\<lambda>t. t\<lparr>spies := remove1 c (spies t)\<rparr>) b) else b))"

definition CreateGroup :: "string \<Rightarrow> string \<Rightarrow> Broker \<Rightarrow> string result \<times> Broker" where
  "CreateGroup topicName groupName b =
     (if \<not> validTopicRegex groupName then (Inl ''invalid group name format'', b)
      else
        (let virtualName = topicName @ ''::'' @ groupName; b = addBinding topicName virtualName b in
         case getOrCreateTopic virtualName b of
           (None, b) \<Rightarrow> (Inl ''broker maximum topic limit reached'', b)
         | (Some r, b) \<Rightarrow>
             (Inr virtualName,
              if OnGroupCreate b then b\<lparr>onGroupCreateCalls := onGroupCreateCalls b @ [(topicName, groupName)]\<rparr>
              else b)))"

definition GetGroups :: "string \<Rightarrow> Broker \<Rightarrow> string list" where
  "GetGroups topicName b =
     map (\<lambda>vt. TrimPrefix vt (topicName @ ''::''))
       (case mget (bindings b) topicName of None \<Rightarrow> [] | Some vs \<Rightarrow> vs)"

definition GetStateSnapshot :: "Broker \<Rightarrow> message list" where
  "GetStateSnapshot b = concat (map (\<lambda>(name, r). queued (heap b ! r)) (Topics b))"

end
