(* ===== verification/BrokerInv.thy ===== *)
theory BrokerInv
  imports Broker
begin

text \<open>
  The invariant of the broker and its preservation by every operation: references are
  valid, the maps agree, and channels are used with discipline, so that a send to a waiting
  consumer always finds room and no channel is used after it was closed. From it: no
  operation deadlocks or panics.
\<close>

subsection \<open>Channel use\<close>

definition waits :: "Broker \<Rightarrow> nat multiset" where
  "waits b = sum_list (map (mset \<circ> waitingConsumers) (heap b))"

definition spied :: "Broker \<Rightarrow> nat multiset" where
  "spied b = sum_list (map (mset \<circ> spies) (heap b))"

fun job_chans :: "job \<Rightarrow> nat list" where
  "job_chans (BroadcastSend cs m) = cs"
| "job_chans _ = []"

definition jobbed :: "Broker \<Rightarrow> nat multiset" where
  "jobbed b = sum_list (map (mset \<circ> job_chans) (jobs b))"

definition chan_ok :: "Broker \<Rightarrow> bool" where
  "chan_ok b \<longleftrightarrow>
     (\<forall>c. count (waits b + spied b + jobbed b) c \<le> 1)
     \<and> (\<forall>c \<in># waits b + spied b + jobbed b. c < length (chans b) \<and> \<not> chClosed (chans b ! c))
     \<and> (\<forall>c \<in># waits b + jobbed b. buf (chans b ! c) = [] \<and> 0 < cap (chans b ! c))"

fun job_refs :: "job \<Rightarrow> nat set" where
  "job_refs (DelayedPush t j) = insert (jTopic j) (set (jWild j))"
| "job_refs _ = {}"

definition refs_ok :: "Broker \<Rightarrow> bool" where
  "refs_ok b \<longleftrightarrow>
     wf_map (Topics b) \<and> wf_map (wildcards b)
     \<and> (\<forall>n r. mget (Topics b) n = Some r \<longrightarrow>
          r < length (heap b) \<and> Name (heap b ! r) = n \<and> \<not> Deleted (heap b ! r))
     \<and> (\<forall>n r. mget (wildcards b) n = Some r \<longrightarrow> mget (Topics b) n = Some r \<and> Contains n ''*'')
     \<and> (\<forall>j \<in> set (jobs b). \<forall>r \<in> job_refs j. r < length (heap b))"

definition broker_inv :: "Broker \<Rightarrow> bool" where
  "broker_inv b \<longleftrightarrow> chan_ok b \<and> refs_ok b \<and> 0 < maxMessages b \<and> (\<forall>n. randOut b n \<noteq> None)"

text \<open>Changes that the invariant cannot see.\<close>

definition tcore :: "Topic \<Rightarrow> string \<times> nat list \<times> nat list \<times> bool" where
  "tcore t = (Name t, waitingConsumers t, spies t, Deleted t)"

definition quiet :: "Broker \<Rightarrow> Broker \<Rightarrow> bool" where
  "quiet b b' \<longleftrightarrow>
     map tcore (heap b') = map tcore (heap b) \<and> chans b' = chans b \<and> jobs b' = jobs b
     \<and> Topics b' = Topics b \<and> wildcards b' = wildcards b \<and> maxMessages b' = maxMessages b
     \<and> maxTopics b' = maxTopics b \<and> randOut b' = randOut b"

lemma quiet_refl [simp]: "quiet b b"
  by (simp add: quiet_def)

lemma quiet_trans: "quiet a b \<Longrightarrow> quiet b c \<Longrightarrow> quiet a c"
  by (simp add: quiet_def)

lemma quiet_length: "quiet b b' \<Longrightarrow> length (heap b') = length (heap b)"
  unfolding quiet_def by (metis length_map)

lemma quiet_tcore: "quiet b b' \<Longrightarrow> r < length (heap b) \<Longrightarrow> tcore (heap b' ! r) = tcore (heap b ! r)"
  unfolding quiet_def by (metis length_map nth_map)

lemma waits_alt: "waits b = sum_list (map (mset \<circ> (fst \<circ> snd)) (map tcore (heap b)))"
  by (simp add: waits_def tcore_def comp_def)

lemma spied_alt: "spied b = sum_list (map (mset \<circ> (fst \<circ> snd \<circ> snd)) (map tcore (heap b)))"
  by (simp add: spied_def tcore_def comp_def)

lemma quiet_chans:
  "quiet b b' \<Longrightarrow> waits b' = waits b \<and> spied b' = spied b \<and> jobbed b' = jobbed b"
  by (simp add: quiet_def waits_alt spied_alt jobbed_def)

lemma quiet_inv: "quiet b b' \<Longrightarrow> broker_inv b \<Longrightarrow> broker_inv b'"
proof -
  assume q: "quiet b b'" and i: "broker_inv b"
  have "chan_ok b'" using i quiet_chans [OF q] q by (simp add: broker_inv_def chan_ok_def quiet_def)
  moreover have "r < length (heap b) \<Longrightarrow> Name (heap b' ! r) = Name (heap b ! r) \<and> Deleted (heap b' ! r) = Deleted (heap b ! r)" for r
    using quiet_tcore [OF q] by (simp add: tcore_def)
  then have "refs_ok b'"
    using i q quiet_length [OF q] by (simp add: broker_inv_def refs_ok_def quiet_def)
  ultimately show ?thesis using i q by (simp add: broker_inv_def quiet_def)
qed

lemma map_list_update_same: "g y = g (xs ! r) \<Longrightarrow> map g (xs[r := y]) = map g xs"
  by (cases "r < length xs") (simp_all add: map_update list_update_same_conv list_update_beyond)

lemma quiet_updTopic: "tcore (f (heap b ! r)) = tcore (heap b ! r) \<Longrightarrow> quiet b (updTopic r f b)"
  by (simp add: quiet_def updTopic_def map_list_update_same)

text \<open>Operations on the log and on the maps that no reference goes through.\<close>

lemma quiet_fields [simp]:
  "quiet b (b\<lparr>storage := s\<rparr>)" "quiet b (b\<lparr>compiledRegex := x\<rparr>)" "quiet b (b\<lparr>webhooks := w\<rparr>)"
  "quiet b (b\<lparr>idempotencyKeys := k\<rparr>)" "quiet b (b\<lparr>bindings := d\<rparr>)" "quiet b (b\<lparr>randTick := n\<rparr>)"
  "quiet b (b\<lparr>onPublishCalls := p\<rparr>)" "quiet b (b\<lparr>onGroupCreateCalls := g\<rparr>)" "quiet b (b\<lparr>webhookSem := m\<rparr>)"
  by (simp_all add: quiet_def)

lemma storePut_quiet [simp]: "quiet b (storePut now n m b)"
  by (simp add: storePut_def split: option.split)

lemma storeAck_quiet [simp]: "quiet b (storeAck now n i b)"
  by (simp add: storeAck_def split: option.split)

lemma ackExpired_quiet [simp]: "quiet b (ackExpired now n ids b)"
  unfolding ackExpired_def
  by (induction ids arbitrary: b) (auto intro: quiet_trans [OF storeAck_quiet])

lemma compile_quiet [simp]: "quiet b (compileWildcardRegex n b)"
  by (simp add: compileWildcardRegex_def split: option.split)

lemma addBinding_quiet [simp]: "quiet b (addBinding s v b)"
  by (simp add: addBinding_def Let_def)

text \<open>What these leave in place, for rewriting.\<close>

lemma storePut_simps [simp]:
  "heap (storePut now n m b) = heap b" "chans (storePut now n m b) = chans b" "jobs (storePut now n m b) = jobs b"
  "Topics (storePut now n m b) = Topics b" "maxMessages (storePut now n m b) = maxMessages b"
  "webhooks (storePut now n m b) = webhooks b"
  by (simp_all add: storePut_def split: option.split)

lemma storeAck_simps [simp]:
  "heap (storeAck now n i b) = heap b" "chans (storeAck now n i b) = chans b" "jobs (storeAck now n i b) = jobs b"
  "Topics (storeAck now n i b) = Topics b" "maxMessages (storeAck now n i b) = maxMessages b"
  "maxTopics (storeAck now n i b) = maxTopics b"
  by (simp_all add: storeAck_def split: option.split)

lemma ackExpired_simps [simp]:
  "heap (ackExpired now n ids b) = heap b" "chans (ackExpired now n ids b) = chans b"
  "Topics (ackExpired now n ids b) = Topics b" "jobs (ackExpired now n ids b) = jobs b"
  "maxMessages (ackExpired now n ids b) = maxMessages b" "maxTopics (ackExpired now n ids b) = maxTopics b"
  unfolding ackExpired_def by (induction ids arbitrary: b) simp_all

lemma compile_simps [simp]:
  "heap (compileWildcardRegex n b) = heap b" "chans (compileWildcardRegex n b) = chans b"
  "jobs (compileWildcardRegex n b) = jobs b" "Topics (compileWildcardRegex n b) = Topics b"
  "wildcards (compileWildcardRegex n b) = wildcards b" "maxMessages (compileWildcardRegex n b) = maxMessages b"
  "randOut (compileWildcardRegex n b) = randOut b" "maxTopics (compileWildcardRegex n b) = maxTopics b"
  "storage (compileWildcardRegex n b) = storage b" "bindings (compileWildcardRegex n b) = bindings b"
  by (simp_all add: compileWildcardRegex_def split: option.split)

lemma updTopic_simps [simp]:
  "chans (updTopic r f b) = chans b" "jobs (updTopic r f b) = jobs b" "Topics (updTopic r f b) = Topics b"
  "wildcards (updTopic r f b) = wildcards b" "maxMessages (updTopic r f b) = maxMessages b"
  "length (heap (updTopic r f b)) = length (heap b)" "storage (updTopic r f b) = storage b"
  "randOut (updTopic r f b) = randOut b" "maxTopics (updTopic r f b) = maxTopics b"
  "webhooks (updTopic r f b) = webhooks b" "bindings (updTopic r f b) = bindings b"
  by (simp_all add: updTopic_def)

lemma heap_updTopic:
  "r < length (heap b) \<Longrightarrow> heap (updTopic r f b) ! r' = (if r' = r then f (heap b ! r) else heap b ! r')"
  by (simp add: updTopic_def nth_list_update)

subsection \<open>Changes of channel use\<close>

lemma sum_update:
  fixes g :: "'a \<Rightarrow> 'b multiset"
  assumes "r < length xs"
  shows "sum_list (map g (xs[r := y])) + g (xs ! r) = sum_list (map g xs) + g y"
proof -
  have xs: "xs = take r xs @ xs ! r # drop (Suc r) xs" using assms by (rule id_take_nth_drop)
  have "xs[r := y] = take r xs @ y # drop (Suc r) xs" using assms by (rule upd_conv_take_nth_drop)
  then show ?thesis by (subst (3) xs) simp
qed

lemma waits_updTopic:
  "r < length (heap b) \<Longrightarrow>
   waits (updTopic r f b) + mset (waitingConsumers (heap b ! r)) = waits b + mset (waitingConsumers (f (heap b ! r)))"
  using sum_update [of r "heap b" "mset \<circ> waitingConsumers"] by (simp add: waits_def updTopic_def)

lemma spied_updTopic:
  "r < length (heap b) \<Longrightarrow>
   spied (updTopic r f b) + mset (spies (heap b ! r)) = spied b + mset (spies (f (heap b ! r)))"
  using sum_update [of r "heap b" "mset \<circ> spies"] by (simp add: spied_def updTopic_def)

lemma jobbed_updTopic [simp]: "jobbed (updTopic r f b) = jobbed b"
  by (simp add: jobbed_def)

lemma chans_update_simps [simp]:
  "waits (b\<lparr>chans := x\<rparr>) = waits b" "spied (b\<lparr>chans := x\<rparr>) = spied b" "jobbed (b\<lparr>chans := x\<rparr>) = jobbed b"
  "waits (b\<lparr>jobs := y\<rparr>) = waits b" "spied (b\<lparr>jobs := y\<rparr>) = spied b"
  by (simp_all add: waits_def spied_def jobbed_def)

lemma in_sum_list: "x \<in> set xs \<Longrightarrow> c \<in># g x \<Longrightarrow> c \<in># sum_list (map g xs)"
  by (induction xs) auto

lemma in_waits: "r < length (heap b) \<Longrightarrow> c \<in> set (waitingConsumers (heap b ! r)) \<Longrightarrow> c \<in># waits b"
  unfolding waits_def by (rule in_sum_list [OF nth_mem]) auto

lemma in_spied: "r < length (heap b) \<Longrightarrow> c \<in> set (spies (heap b ! r)) \<Longrightarrow> c \<in># spied b"
  unfolding spied_def by (rule in_sum_list [OF nth_mem]) auto

lemma chan_okD:
  assumes "chan_ok b"
  shows "c \<in># waits b + spied b + jobbed b \<Longrightarrow> c < length (chans b) \<and> \<not> chClosed (chans b ! c)"
    and "c \<in># waits b + jobbed b \<Longrightarrow> buf (chans b ! c) = [] \<and> 0 < cap (chans b ! c)"
    and "c \<in># spied b \<Longrightarrow> c \<notin># waits b + jobbed b"
    and "count (waits b + spied b + jobbed b) c \<le> 1"
proof -
  show "c \<in># waits b + spied b + jobbed b \<Longrightarrow> c < length (chans b) \<and> \<not> chClosed (chans b ! c)"
    "c \<in># waits b + jobbed b \<Longrightarrow> buf (chans b ! c) = [] \<and> 0 < cap (chans b ! c)"
    "count (waits b + spied b + jobbed b) c \<le> 1"
    using assms unfolding chan_ok_def by blast+
  assume "c \<in># spied b"
  then have "1 \<le> count (spied b) c" by simp
  with \<open>count (waits b + spied b + jobbed b) c \<le> 1\<close> have "count (waits b + jobbed b) c = 0"
    unfolding count_union by linarith
  then show "c \<notin># waits b + jobbed b" by (simp only: not_in_iff)
qed

text \<open>
  Fewer or moved uses of channels, on channels that keep what the invariant says of them.
\<close>

lemma chan_ok_change:
  assumes ok: "chan_ok b"
    and sub: "waits b' + spied b' + jobbed b' \<subseteq># waits b + spied b + jobbed b"
    and len: "length (chans b') \<ge> length (chans b)"
    and op: "\<And>c. c \<in># waits b' + spied b' + jobbed b' \<Longrightarrow> chClosed (chans b' ! c) = chClosed (chans b ! c)"
    and em: "\<And>c. c \<in># waits b' + jobbed b' \<Longrightarrow> c \<in># waits b + jobbed b \<and> chans b' ! c = chans b ! c"
  shows "chan_ok b'"
  unfolding chan_ok_def
proof (intro conjI allI ballI)
  fix c
  show "count (waits b' + spied b' + jobbed b') c \<le> 1"
    using mset_subset_eq_count [OF sub, of c] chan_okD(4) [OF ok, of c] by linarith
next
  fix c assume c: "c \<in># waits b' + spied b' + jobbed b'"
  with sub have "c \<in># waits b + spied b + jobbed b" by (rule mset_subset_eqD)
  from chan_okD(1) [OF ok this] op [OF c] len show "c < length (chans b')" "\<not> chClosed (chans b' ! c)" by auto
next
  fix c assume "c \<in># waits b' + jobbed b'"
  from em [OF this] chan_okD(2) [OF ok] show "buf (chans b' ! c) = []" "0 < cap (chans b' ! c)" by auto
qed

text \<open>A send to a spy.\<close>

lemma trySend_frame:
  "trySend c m b = Sent b' \<Longrightarrow>
     b' = b\<lparr>chans := (chans b)[c := (chans b ! c)\<lparr>buf := buf (chans b ! c) @ [m]\<rparr>]\<rparr>"
  by (auto simp: trySend_def Let_def split: if_splits)

lemma inv_chans:
  "broker_inv b \<Longrightarrow> chan_ok (b\<lparr>chans := x\<rparr>) \<Longrightarrow> broker_inv (b\<lparr>chans := x\<rparr>)"
  by (simp add: broker_inv_def refs_ok_def)

lemma offer_spy:
  assumes i: "broker_inv b" and c: "c \<in># spied b"
  shows "\<exists>x. offer m c b = Ret (b\<lparr>chans := x\<rparr>) \<and> broker_inv (b\<lparr>chans := x\<rparr>)"
proof -
  have ok: "chan_ok b" using i by (simp add: broker_inv_def)
  let ?x = "(chans b)[c := (chans b ! c)\<lparr>buf := buf (chans b ! c) @ [m]\<rparr>]"
  have c': "c < length (chans b)" "\<not> chClosed (chans b ! c)" "c \<notin># waits b + jobbed b"
    using chan_okD(1,3) [OF ok, of c] c by auto
  have "chan_ok (b\<lparr>chans := ?x\<rparr>)"
    by (rule chan_ok_change [OF ok]) (use c' in \<open>auto simp: nth_list_update\<close>)
  with i have "broker_inv (b\<lparr>chans := ?x\<rparr>)" by (rule inv_chans)
  moreover have "b\<lparr>chans := chans b\<rparr> = b" by simp
  ultimately show ?thesis
    using c' i by (cases "length (buf (chans b ! c)) < cap (chans b ! c)")
      (auto simp: offer_def trySend_def Let_def intro: exI [of _ ?x] exI [of _ "chans b"])
qed

lemma offer_spies:
  "broker_inv b \<Longrightarrow> set cs \<subseteq> set_mset (spied b) \<Longrightarrow>
     \<exists>x. fold_run (offer m) cs b = Ret (b\<lparr>chans := x\<rparr>) \<and> broker_inv (b\<lparr>chans := x\<rparr>)"
proof (induction cs arbitrary: b)
  case Nil
  have "b = b\<lparr>chans := chans b\<rparr>" by simp
  with Nil show ?case by (metis fold_run.simps(1))
next
  case (Cons c cs)
  obtain x where x: "offer m c b = Ret (b\<lparr>chans := x\<rparr>)" "broker_inv (b\<lparr>chans := x\<rparr>)"
    using offer_spy [OF Cons.prems(1), of c m] Cons.prems(2) by (meson list.set_intros(1) subsetD)
  with Cons.IH [OF x(2)] Cons.prems(2) show ?case by auto
qed

lemma spies_of_list:
  "broker_inv b \<Longrightarrow> \<forall>r \<in> set rs. r < length (heap b) \<Longrightarrow>
     \<exists>x. fold_run (\<lambda>r b. fold_run (offer m) (spies (heap b ! r)) b) rs b = Ret (b\<lparr>chans := x\<rparr>)
        \<and> broker_inv (b\<lparr>chans := x\<rparr>)"
proof (induction rs arbitrary: b)
  case Nil
  have "b = b\<lparr>chans := chans b\<rparr>" by simp
  with Nil show ?case by (metis fold_run.simps(1))
next
  case (Cons r rs)
  have "set (spies (heap b ! r)) \<subseteq> set_mset (spied b)" using Cons.prems(2) by (auto intro: in_spied)
  from offer_spies [OF Cons.prems(1) this]
  obtain x where x: "fold_run (offer m) (spies (heap b ! r)) b = Ret (b\<lparr>chans := x\<rparr>)"
    "broker_inv (b\<lparr>chans := x\<rparr>)" by blast
  with Cons.IH [OF x(2)] Cons.prems(2) show ?case by auto
qed

lemma push_spies_ok:
  "broker_inv b \<Longrightarrow> \<forall>r \<in> set (jTopic j # jWild j). r < length (heap b) \<Longrightarrow>
     \<exists>x. push_spies j b = Ret (b\<lparr>chans := x\<rparr>) \<and> broker_inv (b\<lparr>chans := x\<rparr>)"
  unfolding push_spies_def by (rule spies_of_list)

lemma push_webhook_inv [simp]: "broker_inv b \<Longrightarrow> broker_inv (push_webhook p w b)"
  by (simp add: push_webhook_def broker_inv_def chan_ok_def refs_ok_def jobbed_def waits_def spied_def)

lemma push_webhook_simps [simp]:
  "heap (push_webhook p w b) = heap b" "chans (push_webhook p w b) = chans b"
  by (simp_all add: push_webhook_def)

lemma push_webhooks_inv [simp]: "broker_inv b \<Longrightarrow> broker_inv (push_webhooks j b)"
proof -
  have "broker_inv b \<Longrightarrow> broker_inv (fold (push_webhook p) ws b)" for p ws
    by (induction ws arbitrary: b) simp_all
  then show "broker_inv b \<Longrightarrow> broker_inv (push_webhooks j b)" by (simp add: push_webhooks_def)
qed

lemma push_webhooks_simps [simp]:
  "heap (push_webhooks j b) = heap b" "chans (push_webhooks j b) = chans b"
proof -
  have "heap (fold (push_webhook p) ws b) = heap b \<and> chans (fold (push_webhook p) ws b) = chans b" for p ws
    by (induction ws arbitrary: b) simp_all
  then show "heap (push_webhooks j b) = heap b" "chans (push_webhooks j b) = chans b"
    by (simp_all add: push_webhooks_def)
qed

text \<open>A send to the first waiting consumer of a topic always finds room.\<close>

lemma popWaiting_simps [simp]:
  "chans (popWaiting r b) = chans b" "jobs (popWaiting r b) = jobs b" "Topics (popWaiting r b) = Topics b"
  "length (heap (popWaiting r b)) = length (heap b)" "storage (popWaiting r b) = storage b"
  "maxTopics (popWaiting r b) = maxTopics b" "maxMessages (popWaiting r b) = maxMessages b"
  by (simp_all add: popWaiting_def)

lemma refs_ok_updTopic:
  assumes "refs_ok b" and "r < length (heap b)" and "Name (f (heap b ! r)) = Name (heap b ! r)"
    and "Deleted (f (heap b ! r)) = Deleted (heap b ! r)"
  shows "refs_ok (updTopic r f b)"
  using assms by (auto simp: refs_ok_def heap_updTopic)

lemma send_waiting:
  assumes i: "broker_inv b" and r: "r < length (heap b)" and w: "waitingConsumers (heap b ! r) = c # cs"
  shows "trySend c m (popWaiting r b) = Sent ((popWaiting r b)\<lparr>chans := (chans b)[c := (chans b ! c)\<lparr>buf := [m]\<rparr>]\<rparr>)"
    and "broker_inv ((popWaiting r b)\<lparr>chans := (chans b)[c := (chans b ! c)\<lparr>buf := [m]\<rparr>]\<rparr>)"
    and "c < length (chans b)"
proof -
  have ok: "chan_ok b" and refs: "refs_ok b" using i by (simp_all add: broker_inv_def)
  have cw: "c \<in># waits b" using in_waits [OF r, of c] w by simp
  then have c: "c < length (chans b)" "\<not> chClosed (chans b ! c)" "buf (chans b ! c) = []" "0 < cap (chans b ! c)"
    using chan_okD(1,2) [OF ok, of c] by auto
  show "c < length (chans b)" by (rule c(1))
  show "trySend c m (popWaiting r b) = Sent ((popWaiting r b)\<lparr>chans := (chans b)[c := (chans b ! c)\<lparr>buf := [m]\<rparr>]\<rparr>)"
    using c by (simp add: trySend_def Let_def)
  let ?b = "(popWaiting r b)\<lparr>chans := (chans b)[c := (chans b ! c)\<lparr>buf := [m]\<rparr>]\<rparr>"
  have wt: "waits b = add_mset c (waits ?b)"
    using waits_updTopic [OF r, of "\<lambda>t. t\<lparr>waitingConsumers := tl (waitingConsumers t)\<rparr>"] w
    by (simp add: popWaiting_def)
  have sp: "spied ?b = spied b"
    using spied_updTopic [OF r, of "\<lambda>t. t\<lparr>waitingConsumers := tl (waitingConsumers t)\<rparr>"]
    by (simp add: popWaiting_def)
  have jb: "jobbed ?b = jobbed b" by (simp add: popWaiting_def)
  have "c \<notin># waits ?b + spied ?b + jobbed ?b"
    using chan_okD(4) [OF ok, of c] wt sp jb by (simp add: not_in_iff)
  moreover have "chan_ok ?b"
    by (rule chan_ok_change [OF ok])
      (use wt sp jb c(1) calculation in \<open>auto simp: nth_list_update\<close>)
  moreover have "refs_ok ?b"
    using refs_ok_updTopic [OF refs r, of "\<lambda>t. t\<lparr>waitingConsumers := tl (waitingConsumers t)\<rparr>"]
    by (simp add: popWaiting_def refs_ok_def)
  ultimately show "broker_inv ?b" using i by (simp add: broker_inv_def popWaiting_def)
qed

subsection \<open>Pushing keeps the invariant\<close>

lemma tcore_remove [simp]: "tcore (removeMessageByID t i) = tcore t"
  by (simp add: tcore_def queue_simps)

lemma remove_inv: "broker_inv b \<Longrightarrow> broker_inv (updTopic r (\<lambda>t. removeMessageByID t i) b)"
  by (rule quiet_inv [OF quiet_updTopic]) simp_all

definition same_size :: "Broker \<Rightarrow> Broker \<Rightarrow> bool" where
  "same_size b b' \<longleftrightarrow> length (heap b') = length (heap b) \<and> Topics b' = Topics b \<and> maxTopics b' = maxTopics b"

lemma same_size_refl [simp]: "same_size b b" by (simp add: same_size_def)

lemma same_size_trans: "same_size a b \<Longrightarrow> same_size b c \<Longrightarrow> same_size a c" by (simp add: same_size_def)

lemma same_size_simps [simp]:
  "same_size b (updTopic r f b)" "same_size b (b\<lparr>chans := x\<rparr>)" "same_size b (b\<lparr>jobs := y\<rparr>)"
  "same_size b (popWaiting r b)" "same_size b (storePut now n m b)" "same_size b (storeAck now n i b)"
  by (simp_all add: same_size_def popWaiting_def storePut_def storeAck_def split: option.split)

lemma push_webhooks_size [simp]: "same_size b (push_webhooks j b)"
proof -
  have "same_size b (fold (push_webhook p) ws b)" for p ws
    by (induction ws arbitrary: b) (auto simp: push_webhook_def same_size_def)
  then show ?thesis by (simp add: push_webhooks_def)
qed

lemma push_wild_ok:
  "broker_inv b \<Longrightarrow> \<forall>r \<in> set rs. r < length (heap b) \<Longrightarrow>
     \<exists>d b'. push_wild j rs b = Ret (d, b') \<and> broker_inv b' \<and> same_size b b'"
proof (induction rs arbitrary: b)
  case (Cons r rs)
  show ?case
  proof (cases "waitingConsumers (heap b ! r)")
    case Nil
    with Cons show ?thesis by simp
  next
    case c: (Cons c cs)
    have r: "r < length (heap b)" using Cons.prems(2) by simp
    note s = send_waiting(1,2) [OF Cons.prems(1) r c, of "jMsg j"]
    then show ?thesis using c remove_inv [OF s(2)] by (auto simp: same_size_def)
  qed
qed auto

lemma push_direct_ok:
  assumes i: "broker_inv b" and r: "jTopic j < length (heap b)"
  shows "\<exists>b'. push_direct j b = Ret b' \<and> broker_inv b' \<and> same_size b b'"
proof (cases "waitingConsumers (heap b ! jTopic j)")
  case Nil
  with i show ?thesis by (simp add: push_direct_def)
next
  case c: (Cons c cs)
  note s = send_waiting(1,2) [OF i r c, of "jMsg j"]
  then show ?thesis using c remove_inv [OF s(2)] by (simp add: push_direct_def same_size_def)
qed

lemma takeWaiting_facts:
  assumes "r < length (heap b)" and "refs_ok b"
  shows "waits b = waits (takeWaiting r b) + mset (waitingConsumers (heap b ! r))"
    and "spied (takeWaiting r b) = spied b" and "jobbed (takeWaiting r b) = jobbed b"
    and "chans (takeWaiting r b) = chans b" and "jobs (takeWaiting r b) = jobs b"
    and "refs_ok (takeWaiting r b)" and "same_size b (takeWaiting r b)"
    and "maxMessages (takeWaiting r b) = maxMessages b" and "randOut (takeWaiting r b) = randOut b"
  using waits_updTopic [OF assms(1), of "\<lambda>t. t\<lparr>waitingConsumers := []\<rparr>"]
    spied_updTopic [OF assms(1), of "\<lambda>t. t\<lparr>waitingConsumers := []\<rparr>"]
    refs_ok_updTopic [OF assms(2,1), of "\<lambda>t. t\<lparr>waitingConsumers := []\<rparr>"]
  by (simp_all add: takeWaiting_def)

lemma collect_waiting:
  "fold (\<lambda>r (cs, b). (cs @ waitingConsumers (heap b ! r), takeWaiting r b)) rs (cs, b) = (cs', b') \<Longrightarrow>
   refs_ok b \<Longrightarrow> \<forall>r \<in> set rs. r < length (heap b) \<Longrightarrow>
   mset cs' + waits b' = mset cs + waits b \<and> spied b' = spied b \<and> jobbed b' = jobbed b \<and> chans b' = chans b
   \<and> jobs b' = jobs b \<and> refs_ok b' \<and> same_size b b' \<and> maxMessages b' = maxMessages b \<and> randOut b' = randOut b"
proof (induction rs arbitrary: cs b)
  case (Cons r rs)
  have r: "r < length (heap b)" using Cons.prems(3) by simp
  note t = takeWaiting_facts [OF r Cons.prems(2)]
  have "\<forall>r \<in> set rs. r < length (heap (takeWaiting r' b))" for r'
    using Cons.prems(3) by (simp add: takeWaiting_def)
  with Cons.IH [OF _ t(6), of "cs @ waitingConsumers (heap b ! r)"] Cons.prems(1) t
  show ?case by (auto intro: same_size_trans)
qed simp

lemma push_broadcast_ok:
  assumes i: "broker_inv b" and r: "\<forall>r \<in> set (jTopic j # jWild j). r < length (heap b)"
  shows "broker_inv (push_broadcast j b) \<and> same_size b (push_broadcast j b)"
proof -
  obtain cs b' where f: "fold (\<lambda>r (cs, b). (cs @ waitingConsumers (heap b ! r), takeWaiting r b))
      (jWild j @ [jTopic j]) ([], b) = (cs, b')" by (rule prod.exhaust)
  have ok: "chan_ok b" and refs: "refs_ok b" using i by (simp_all add: broker_inv_def)
  note c = collect_waiting [OF f refs]
  let ?b = "b'\<lparr>jobs := jobs b' @ [BroadcastSend cs (jMsg j)]\<rparr>"
  have b: "push_broadcast j b = ?b" by (simp add: push_broadcast_def f del: fold_append)
  have c: "mset cs + waits b' = waits b" "spied b' = spied b" "jobbed b' = jobbed b" "chans b' = chans b"
    "jobs b' = jobs b" "refs_ok b'" "same_size b b'" "maxMessages b' = maxMessages b" "randOut b' = randOut b"
    using c r by auto
  have jb: "jobbed ?b = jobbed b + mset cs" using c(5) by (simp add: jobbed_def)
  have tot: "waits ?b + jobbed ?b = waits b + jobbed b" using jb c(1) by (simp add: ac_simps)
  have "chan_ok ?b"
  proof (rule chan_ok_change [OF ok])
    have "waits ?b + spied ?b + jobbed ?b = waits b + spied b + jobbed b"
      using tot c(2) by (simp add: ac_simps)
    then show "waits ?b + spied ?b + jobbed ?b \<subseteq># waits b + spied b + jobbed b" by simp
    show "c \<in># waits ?b + jobbed ?b \<Longrightarrow> c \<in># waits b + jobbed b \<and> chans ?b ! c = chans b ! c" for c
      unfolding tot using c(4) by simp
  qed (simp_all add: c(4))
  moreover have "refs_ok ?b" using c(6) by (simp add: refs_ok_def)
  ultimately show ?thesis using i c(7-9) by (simp add: b broker_inv_def same_size_def)
qed

lemma pushFunc_ok:
  assumes i: "broker_inv b" and r: "\<forall>r \<in> set (jTopic j # jWild j). r < length (heap b)"
  shows "\<exists>b'. pushFunc j b = Ret b' \<and> broker_inv b' \<and> same_size b b'"
proof -
  have "\<forall>r \<in> set (jTopic j # jWild j). r < length (heap (push_webhooks j b))" using r by simp
  from push_spies_ok [OF push_webhooks_inv [OF i] this]
  obtain x where x: "push_spies j (push_webhooks j b) = Ret ((push_webhooks j b)\<lparr>chans := x\<rparr>)"
    and ix: "broker_inv ((push_webhooks j b)\<lparr>chans := x\<rparr>)" by blast
  let ?b = "(push_webhooks j b)\<lparr>chans := x\<rparr>"
  have sz: "same_size b ?b" using push_webhooks_size [of b j] by (simp add: same_size_def)
  have rx: "\<forall>r \<in> set (jTopic j # jWild j). r < length (heap ?b)" using r by simp
  show ?thesis
  proof (cases "jBroadcast j")
    case True
    with x push_broadcast_ok [OF ix rx] sz show ?thesis by (auto simp: pushFunc_def intro: same_size_trans)
  next
    case False
    obtain d b1 where w: "push_wild j (jWild j) ?b = Ret (d, b1)" "broker_inv b1" "same_size ?b b1"
      using push_wild_ok [OF ix, of "jWild j" j] rx by auto
    obtain b2 where "push_direct j b1 = Ret b2" "broker_inv b2" "same_size b1 b2"
      using push_direct_ok [OF w(2), of j] w(3) rx by (auto simp: same_size_def)
    with False x w sz show ?thesis by (cases d) (auto simp: pushFunc_def intro: same_size_trans)
  qed
qed

subsection \<open>Publishing keeps the invariant\<close>

lemma addTopic_simps [simp]:
  "heap (addTopic n t b) = heap b @ [t]" "chans (addTopic n t b) = chans b" "jobs (addTopic n t b) = jobs b"
  "Topics (addTopic n t b) = mput n (length (heap b)) (Topics b)"
  "maxMessages (addTopic n t b) = maxMessages b" "randOut (addTopic n t b) = randOut b"
  "maxTopics (addTopic n t b) = maxTopics b" "storage (addTopic n t b) = storage b"
  "bindings (addTopic n t b) = bindings b"
  "wildcards (addTopic n t b) = (if Contains n ''*'' then mput n (length (heap b)) (wildcards b) else wildcards b)"
  by (simp_all add: addTopic_def Let_def)

lemma newTopic_simps [simp]:
  "waitingConsumers (newTopic n ms p d) = []" "spies (newTopic n ms p d) = []" "Name (newTopic n ms p d) = n"
  "Deleted (newTopic n ms p d) = False" "queued (newTopic n ms p d) = ms"
  by (simp_all add: newTopic_def queued_def)

lemma addTopic_inv:
  assumes i: "broker_inv b" and t: "waitingConsumers t = []" "spies t = []" "Name t = n" "\<not> Deleted t"
  shows "broker_inv (addTopic n t b)"
proof -
  have ok: "chan_ok b" and refs: "refs_ok b" using i by (simp_all add: broker_inv_def)
  have u: "waits (addTopic n t b) = waits b" "spied (addTopic n t b) = spied b" "jobbed (addTopic n t b) = jobbed b"
    using t by (simp_all add: waits_def spied_def jobbed_def)
  have "chan_ok (addTopic n t b)"
    by (rule chan_ok_change [OF ok]) (simp_all add: u)
  moreover have "refs_ok (addTopic n t b)"
    unfolding refs_ok_def
  proof (intro conjI allI impI ballI)
    show "wf_map (Topics (addTopic n t b))" "wf_map (wildcards (addTopic n t b))"
      using refs by (simp_all add: refs_ok_def)
  next
    fix n' r assume "mget (wildcards (addTopic n t b)) n' = Some r"
    then show "mget (Topics (addTopic n t b)) n' = Some r" "Contains n' ''*''"
      using refs by (auto simp: refs_ok_def split: if_splits)
  next
    fix n' r assume "mget (Topics (addTopic n t b)) n' = Some r"
    then show "r < length (heap (addTopic n t b))" "Name (heap (addTopic n t b) ! r) = n'"
      "\<not> Deleted (heap (addTopic n t b) ! r)"
      using refs t by (auto simp: refs_ok_def nth_append less_SucI split: if_splits)
  next
    fix j r assume "j \<in> set (jobs (addTopic n t b))" "r \<in> job_refs j"
    then show "r < length (heap (addTopic n t b))" using refs by (auto simp: refs_ok_def intro: less_SucI)
  qed
  ultimately show ?thesis using i by (simp add: broker_inv_def)
qed

definition extends :: "Broker \<Rightarrow> Broker \<Rightarrow> bool" where
  "extends b b' \<longleftrightarrow> length (heap b) \<le> length (heap b')"

lemma extends_refl [simp]: "extends b b" by (simp add: extends_def)

lemma extends_trans: "extends a b \<Longrightarrow> extends b c \<Longrightarrow> extends a c" by (simp add: extends_def)

lemma same_size_extends: "same_size b b' \<Longrightarrow> extends b b'" by (simp add: same_size_def extends_def)

lemma getOrCreateTopic_ok:
  assumes "broker_inv b" and "getOrCreateTopic n b = (ro, b')"
  shows "broker_inv b'" and "extends b b'" and "ro = Some r \<Longrightarrow> mget (Topics b') n = Some r \<and> r < length (heap b')"
    and "ro = None \<Longrightarrow> b' = b"
proof -
  have refs: "refs_ok b" using assms(1) by (simp add: broker_inv_def)
  have new: "broker_inv (addTopic n (newTopic n [] p d) b)" for p d
    by (rule addTopic_inv [OF assms(1)]) simp_all
  show "broker_inv b'" "extends b b'" "ro = Some r \<Longrightarrow> mget (Topics b') n = Some r \<and> r < length (heap b')"
    "ro = None \<Longrightarrow> b' = b"
    using assms new refs
    by (auto simp: getOrCreateTopic_def extends_def refs_ok_def split: option.splits if_splits)
qed

lemma matchingWildcards_refs:
  assumes "broker_inv b"
  shows "\<forall>r \<in> set (matchingWildcards n b). r < length (heap b)"
proof -
  have "(k, r) \<in> set (wildcards b) \<Longrightarrow> r < length (heap b)" for k r
    using assms mget_in_wf [of "wildcards b" k r] by (auto simp: broker_inv_def refs_ok_def)
  then show ?thesis by (auto simp: matchingWildcards_def)
qed

lemma tcore_enqueue [simp]: "tcore (enqueue p m t) = tcore t"
  by (simp add: tcore_def queue_simps)

lemma publish_enqueue_ok:
  assumes i: "broker_inv b" and r: "r < length (heap b)"
  shows "\<exists>e b'. publish_enqueue now n req r msg b = Ret (e, b') \<and> broker_inv b' \<and> same_size b b'"
proof -
  let ?b = "if pBroadcast req then b else storePut now n msg b"
  have ib: "broker_inv ?b" "same_size b ?b" "heap ?b = heap b" "maxMessages ?b = maxMessages b"
    using quiet_inv [OF storePut_quiet i] i by auto
  have enq: "broker_inv b' \<Longrightarrow> broker_inv (updTopic r (enqueue (pPriority req) msg) b')" for b'
    by (rule quiet_inv [OF quiet_updTopic]) simp_all
  show ?thesis
  proof (cases "maxMessages b \<le> totalActiveMessages (heap b ! r) \<and> Policy (heap b ! r) = ''drop-oldest''")
    case True
    then have "0 < totalActiveMessages (heap b ! r)" using i by (simp add: broker_inv_def)
    then obtain old t where ev: "evict (heap b ! r) = Some (old, t)" using evict_Some by fastforce
    have "quiet ?b (updTopic r (\<lambda>_. t) ?b)"
      using evict_spec [OF ev] ib(3) by (intro quiet_updTopic) (simp add: tcore_def)
    from quiet_inv [OF quiet_trans [OF this storeAck_quiet] ib(1)]
    have "broker_inv (storeAck now n (ID old) (updTopic r (\<lambda>_. t) ?b))" .
    from enq [OF this] True ev ib i show ?thesis
      by (auto simp: publish_enqueue_def Let_def same_size_def)
  next
    case False
    with enq [OF ib(1)] ib i show ?thesis
      by (auto simp: publish_enqueue_def Let_def same_size_def)
  qed
qed

lemma add_push_inv:
  assumes "broker_inv b" and "\<forall>r \<in> set (jTopic j # jWild j). r < length (heap b)"
  shows "broker_inv (b\<lparr>jobs := jobs b @ [DelayedPush t j]\<rparr>)"
  using assms by (simp add: broker_inv_def refs_ok_def chan_ok_def jobbed_def waits_def spied_def)

lemma callOnPublish_quiet: "callOnPublish n req b = (e, b') \<Longrightarrow> quiet b b' \<and> heap b' = heap b"
  by (auto simp: callOnPublish_def split: option.splits if_splits)

lemma publish_local_ok:
  assumes i: "broker_inv b"
  shows "\<exists>e b'. publish_local now n req b = Ret (e, b') \<and> broker_inv b' \<and> extends b b'"
proof -
  obtain ro b1 where g: "getOrCreateTopic n b = (ro, b1)" by (cases "getOrCreateTopic n b")
  note ok1 = getOrCreateTopic_ok [OF i g]
  show ?thesis
  proof (cases ro)
    case None
    with g ok1 show ?thesis by (simp add: publish_local_def)
  next
    case (Some r)
    then have r: "r < length (heap b1)" using ok1(3) by simp
    obtain i' where u: "NewUUID (randOut b1 (randTick b1)) = Some i'"
    proof -
      have "randOut b1 (randTick b1) \<noteq> None" using ok1(1) unfolding broker_inv_def by blast
      then show thesis using that by (auto simp: NewUUID_def Let_def)
    qed
    let ?w = "matchingWildcards n b1" and ?m = "publish_message now n req (heap b1 ! r) i'"
      and ?b2 = "b1\<lparr>randTick := Suc (randTick b1)\<rparr>"
    obtain e b3 where c: "callOnPublish n req ?b2 = (e, b3)" by (cases "callOnPublish n req ?b2")
    have q: "quiet b1 b3" using quiet_trans [of b1 ?b2 b3] callOnPublish_quiet [OF c] by simp
    have h3: "heap b3 = heap b1" using callOnPublish_quiet [OF c] by simp
    have i3: "broker_inv b3" using quiet_inv [OF q ok1(1)] .
    have e3: "extends b b3" using ok1(2) h3 by (simp add: extends_def)
    show ?thesis
    proof (cases e)
      case (Some x)
      with g \<open>ro = Some r\<close> u c i3 e3 show ?thesis by (simp add: publish_local_def Let_def)
    next
      case None
      have r3: "r < length (heap b3)" using r h3 by simp
      obtain e4 b4 where p: "publish_enqueue now n req r ?m b3 = Ret (e4, b4)" "broker_inv b4" "same_size b3 b4"
        using publish_enqueue_ok [OF i3 r3] by blast
      have e4: "extends b b4" using e3 same_size_extends [OF p(3)] by (rule extends_trans)
      let ?j = "\<lparr>jName = n, jTopic = r, jMsg = ?m, jWild = ?w, jBroadcast = pBroadcast req\<rparr>"
      have jr: "\<forall>r \<in> set (jTopic ?j # jWild ?j). r < length (heap b4)"
        using r3 p(3) matchingWildcards_refs [OF ok1(1), of n] h3 by (simp add: same_size_def)
      obtain b5 where f: "pushFunc ?j b4 = Ret b5" "broker_inv b5" "same_size b4 b5"
        using pushFunc_ok [OF p(2) jr] by blast
      have e5: "extends b b5" using e4 same_size_extends [OF f(3)] by (rule extends_trans)
      let ?b6 = "b4\<lparr>jobs := jobs b4 @ [DelayedPush (the (pDeliverAt req)) ?j]\<rparr>"
      have i6: "broker_inv ?b6" "extends b ?b6" using add_push_inv [OF p(2) jr] e4 by (simp_all add: extends_def)
      have eq: "publish_local now n req b =
          (case e4 of Some e \<Rightarrow> Ret (Some e, b4)
           | None \<Rightarrow> if delayed now ?m then Ret (None, ?b6) else Ret (None, b5))"
        using g \<open>ro = Some r\<close> u c None p(1) f(1)
        by (simp add: publish_local_def Let_def split: option.split)
      then show ?thesis using p(2) f(2) i6 e4 e5 by (auto split: option.splits)
    qed
  qed
qed

lemma fold_run_ok:
  assumes "\<And>x b. x \<in> set xs \<Longrightarrow> I b \<Longrightarrow> \<exists>b'. f x b = Ret b' \<and> I b' \<and> E b b'"
    and "\<And>b. E b b" and "\<And>a b c. E a b \<Longrightarrow> E b c \<Longrightarrow> E a c" and "I b"
  shows "\<exists>b'. fold_run f xs b = Ret b' \<and> I b' \<and> E b b'"
  using assms(1,4)
proof (induction xs arbitrary: b)
  case Nil
  with assms(2) show ?case by auto
next
  case (Cons x xs)
  then obtain b1 where b1: "f x b = Ret b1" "I b1" "E b b1" by (metis list.set_intros(1))
  with Cons.IH [of b1] Cons.prems(1) obtain b2 where "fold_run f xs b1 = Ret b2" "I b2" "E b1 b2"
    by (metis list.set_intros(2))
  with b1 assms(3) show ?case by auto
qed

lemma publishCore_ok:
  "broker_inv b \<Longrightarrow> \<exists>e b'. publishCore k now n req b = Ret (e, b') \<and> broker_inv b' \<and> extends b b'"
proof (induction k arbitrary: n b)
  case (Suc k)
  let ?f = "\<lambda>dest b. bind_run (publishCore k now dest req b) (\<lambda>(_, b). Ret b)"
  have "\<exists>b'. ?f x b = Ret b' \<and> broker_inv b' \<and> extends b b'" if "broker_inv b" for x b
    using Suc.IH [OF that, of x] by auto
  then have "\<exists>b'. fold_run ?f (boundTopics n b) b = Ret b' \<and> broker_inv b' \<and> extends b b'"
    by (intro fold_run_ok) (auto intro: extends_trans Suc.prems)
  then obtain b1 where b1: "fold_run ?f (boundTopics n b) b = Ret b1" "broker_inv b1" "extends b b1" by blast
  obtain e b2 where "publish_local now n req b1 = Ret (e, b2)" "broker_inv b2" "extends b1 b2"
    using publish_local_ok [OF b1(2)] by blast
  with b1 Suc.prems show ?case
    by (cases "publish_check n") (auto intro: extends_trans)
qed simp

subsection \<open>The other operations keep the invariant\<close>

definition uses :: "Broker \<Rightarrow> nat multiset" where
  "uses b = waits b + spied b + jobbed b"

text \<open>A channel a client has made for itself and not yet handed to the broker.\<close>

definition fresh_chan :: "Broker \<Rightarrow> nat \<Rightarrow> bool" where
  "fresh_chan b c \<longleftrightarrow>
     c < length (chans b) \<and> \<not> chClosed (chans b ! c) \<and> buf (chans b ! c) = [] \<and> 0 < cap (chans b ! c) \<and> c \<notin># uses b"

lemma quiet_uses: "quiet b b' \<Longrightarrow> uses b' = uses b \<and> chans b' = chans b"
  using quiet_chans [of b b'] by (simp add: uses_def quiet_def)

lemma getOrCreate_uses: "getOrCreateTopic n b = (ro, b') \<Longrightarrow> uses b' = uses b \<and> chans b' = chans b"
  by (auto simp: getOrCreateTopic_def uses_def waits_def spied_def jobbed_def split: option.splits if_splits)

lemma fresh_same: "uses b' = uses b \<and> chans b' = chans b \<Longrightarrow> fresh_chan b' c = fresh_chan b c"
  by (simp add: fresh_chan_def)

lemma tcore_queues: "tcore (t\<lparr>HighMessages := x, Messages := y, LowMessages := z\<rparr>) = tcore t"
  by (simp add: tcore_def)

lemma tcore_extract:
  assumes "extractMessages now t limit = (res, ids, t')"
  shows "tcore t' = tcore t"
  by (subst extractMessages_spec(3) [OF assms]) (rule tcore_queues)

lemma extractAt_quiet: "extractAt now limit r b = (res, b') \<Longrightarrow> quiet b b'"
  by (auto simp: extractAt_def tcore_extract split: prod.splits
      intro!: quiet_trans [OF quiet_updTopic ackExpired_quiet])

lemma extractFirst_quiet: "extractFirst now limit rs b = (res, b') \<Longrightarrow> quiet b b'"
  by (induction rs arbitrary: b)
    (auto split: prod.splits if_splits dest: extractAt_quiet intro: quiet_trans)

lemma addWaiting_inv:
  assumes i: "broker_inv b" and r: "r < length (heap b)" and c: "fresh_chan b c"
  shows "broker_inv (updTopic r (\<lambda>t. t\<lparr>waitingConsumers := waitingConsumers t @ [c]\<rparr>) b)" (is "broker_inv ?b")
proof -
  let ?f = "\<lambda>t. t\<lparr>waitingConsumers := waitingConsumers t @ [c]\<rparr>"
  have ok: "chan_ok b" and refs: "refs_ok b" using i by (simp_all add: broker_inv_def)
  have w: "waits ?b = add_mset c (waits b)" using waits_updTopic [OF r, of ?f] by simp
  have s: "spied ?b = spied b" using spied_updTopic [OF r, of ?f] by simp
  have "chan_ok ?b"
    unfolding chan_ok_def w s jobbed_updTopic updTopic_simps
    using ok c by (auto simp: chan_ok_def fresh_chan_def uses_def not_in_iff)
  moreover have "refs_ok ?b" by (rule refs_ok_updTopic [OF refs r]) simp_all
  ultimately show ?thesis using i by (simp add: broker_inv_def)
qed

lemma updTopic_updTopic: "r < length (heap b) \<Longrightarrow> updTopic r f (updTopic r g b) = updTopic r (\<lambda>t. f (g t)) b"
  by (simp add: updTopic_def)

lemma Consume_ok:
  assumes i: "broker_inv b" and c: "fresh_chan b c" and e: "Consume now n limit c b = (res, b')"
  shows "broker_inv b'"
proof (cases "0 < length n \<and> \<not> IsValidTopicName n")
  case False
  obtain ro b1 where g: "getOrCreateTopic n b = (ro, b1)" by (cases "getOrCreateTopic n b")
  note ok1 = getOrCreateTopic_ok [OF i g]
  show ?thesis
  proof (cases ro)
    case (Some r)
    obtain rs b2 where x: "extractFirst now limit (matchingTopics n b1) b1 = (rs, b2)"
      by (cases "extractFirst now limit (matchingTopics n b1) b1")
    note q2 = extractFirst_quiet [OF x]
    have i2: "broker_inv b2" using quiet_inv [OF q2 ok1(1)] .
    have r2: "r < length (heap b2)" using ok1(3) [OF Some] quiet_length [OF q2] by simp
    have f2: "fresh_chan b2 c" using c fresh_same getOrCreate_uses [OF g] quiet_uses [OF q2] by metis
    obtain rs3 ids t where m: "extractMessages now (heap b2 ! r) limit = (rs3, ids, t)"
      by (cases "extractMessages now (heap b2 ! r) limit")
    let ?b3 = "updTopic r (\<lambda>_. t) b2" and ?w = "\<lambda>t. t\<lparr>waitingConsumers := waitingConsumers t @ [c]\<rparr>"
    have q3: "quiet b2 ?b3" using tcore_extract [OF m] by (intro quiet_updTopic)
    have i3: "broker_inv ?b3" using quiet_inv [OF q3 i2] .
    have f3: "fresh_chan ?b3 c" using f2 fresh_same quiet_uses [OF q3] by metis
    have "broker_inv (updTopic r ?w ?b3)" by (rule addWaiting_inv [OF i3 _ f3]) (use r2 in simp)
    then have i4: "broker_inv (updTopic r (\<lambda>_. ?w t) b2)" by (simp add: updTopic_updTopic [OF r2])
    have "b' = b2 \<or> b' = ackExpired now (Name t) ids ?b3 \<or> b' = ackExpired now (Name t) ids (updTopic r (\<lambda>_. ?w t) b2)"
      using e False g Some x m by (auto simp: Consume_def Let_def split: if_splits)
    with i2 i3 i4 quiet_inv [OF ackExpired_quiet] show ?thesis by metis
  qed (use e False g ok1 in \<open>auto simp: Consume_def\<close>)
qed (use i e in \<open>auto simp: Consume_def\<close>)

lemma Requeue_ok:
  assumes i: "broker_inv b"
  shows "\<exists>b'. Requeue now msg b = Ret b' \<and> broker_inv b'"
proof -
  let ?m = "requeued msg" let ?n = "Topic (requeued msg)"
  obtain ro b1 where g: "getOrCreateTopic ?n b = (ro, b1)" by (cases "getOrCreateTopic ?n b")
  note ok1 = getOrCreateTopic_ok [OF i g]
  have enq: "broker_inv b' \<Longrightarrow> broker_inv (updTopic r (\<lambda>t. t\<lparr>Messages := Messages t @ [?m]\<rparr>) b')" for b' r
    by (rule quiet_inv [OF quiet_updTopic]) (simp_all add: tcore_def)
  show ?thesis
  proof (cases ro)
    case None
    with g i ok1 show ?thesis by (simp add: Requeue_def Let_def)
  next
    case (Some r)
    let ?b = "storePut now ?n ?m b1"
    have ib: "broker_inv ?b" using quiet_inv [OF storePut_quiet ok1(1)] .
    have r: "r < length (heap ?b)" using ok1(3) [OF Some] by simp
    show ?thesis
    proof (cases "waitingConsumers (heap ?b ! r)")
      case Nil
      then show ?thesis using Some g enq [OF ib] by (simp add: Requeue_def Let_def)
    next
      case (Cons c cs)
      note s = send_waiting(1,2) [OF ib r Cons, of ?m]
      then show ?thesis using Some g Cons by (simp add: Requeue_def Let_def)
    qed
  qed
qed

lemma purgeAt_quiet: "quiet b (purgeAt now r b)"
proof -
  have "tcore (snd (purgeTopic now t)) = tcore t" for t by (simp add: tcore_def queue_simps)
  then show ?thesis
    by (auto simp: purgeAt_def split: prod.split intro!: quiet_trans [OF quiet_updTopic ackExpired_quiet])
      (metis snd_conv)
qed

lemma purgeExpired_inv: "broker_inv b \<Longrightarrow> broker_inv (purgeExpiredMessages now b)"
proof -
  have "quiet b (fold (purgeAt now) rs b)" for rs b
    by (induction rs arbitrary: b) (auto intro: quiet_trans [OF purgeAt_quiet])
  then show "broker_inv b \<Longrightarrow> broker_inv (purgeExpiredMessages now b)"
    unfolding purgeExpiredMessages_def by (rule quiet_inv)
qed

lemma Ack_quiet: "Ack now n i b = (res, b') \<Longrightarrow> quiet b b'"
proof -
  have "tcore (snd (ackFrom t i)) = tcore t" for t by (simp add: tcore_def queue_simps)
  then have "ackFrom t i = (ok, t') \<Longrightarrow> tcore t' = tcore t" for t t' ok by (metis snd_conv)
  then show "Ack now n i b = (res, b') \<Longrightarrow> quiet b b'"
    by (auto simp: Ack_def split: option.splits prod.splits bool.splits
        intro!: quiet_trans [OF quiet_updTopic storeAck_quiet])
qed

lemma redrive_ok: "broker_inv b \<Longrightarrow> \<exists>k b'. redrive now d n ms j b = Ret (k, b') \<and> broker_inv b'"
proof (induction ms arbitrary: j b)
  case (Cons m ms)
  have i: "broker_inv (storeAck now d (ID m) b)" using quiet_inv [OF storeAck_quiet Cons.prems] .
  let ?r = "\<lparr>pPayload = Payload m, pHeaders = Headers m, pPriority = ''normal'', pExpiresAt = ExpiresAt m,
     pDeliverAt = None, pBroadcast = False, pReplication = False\<rparr>"
  obtain e b1 where "publishCore 11 now n ?r (storeAck now d (ID m) b) = Ret (e, b1)" "broker_inv b1"
    using publishCore_ok [OF i] by blast
  then show ?case using Cons.IH [of b1] by simp
qed simp

lemma RedriveDLQ_ok:
  assumes i: "broker_inv b"
  shows "\<exists>res b'. RedriveDLQ now n b = Ret (res, b') \<and> broker_inv b'"
proof -
  let ?d = "if HasSuffix n ''.dlq'' then n else n @ ''.dlq''"
  let ?t = "if HasSuffix n ''.dlq'' then TrimSuffix n ''.dlq'' else n"
  show ?thesis
  proof (cases "mget (Topics b) ?d")
    case None
    with i show ?thesis by (simp add: RedriveDLQ_def Let_def)
  next
    case (Some r)
    let ?b = "updTopic r (\<lambda>t. t\<lparr>Messages := []\<rparr>) b"
    have "broker_inv ?b" by (rule quiet_inv [OF quiet_updTopic i]) (simp add: tcore_def)
    then obtain k b' where "redrive now ?d ?t (Messages (heap b ! r)) 0 ?b = Ret (k, b')" "broker_inv b'"
      using redrive_ok by blast
    with Some i show ?thesis
      by (cases "Messages (heap b ! r) = []") (simp_all add: RedriveDLQ_def Let_def del: redrive.simps)
  qed
qed

lemma CreateTopic_inv: "broker_inv b \<Longrightarrow> CreateTopic n p d b = (e, b') \<Longrightarrow> broker_inv b'"
proof -
  assume i: "broker_inv b" and c: "CreateTopic n p d b = (e, b')"
  have "b' = b \<or> b' = addTopic n (newTopic n [] (policyOf p) d) b"
    using c unfolding CreateTopic_def by (simp split: if_split_asm)
  then show "broker_inv b'" using i addTopic_inv [OF i, of "newTopic n [] (policyOf p) d" n] by auto
qed

lemma Purge_quiet: "Purge n b = (e, b') \<Longrightarrow> quiet b b'"
proof -
  let ?f = "\<lambda>t. t\<lparr>Messages := [], HighMessages := [], LowMessages := []\<rparr>"
  have "quiet b (updTopic r ?f b)" for r by (rule quiet_updTopic) (simp add: tcore_def)
  then have "quiet b ((updTopic r ?f b)\<lparr>storage := x\<rparr>)" "quiet b (updTopic r ?f b)" for r x
    using quiet_trans quiet_fields(1) by blast+
  then show "Purge n b = (e, b') \<Longrightarrow> quiet b b'"
    by (auto simp: Purge_def Let_def split: option.splits)
qed

lemma DeleteTopic_inv:
  assumes i: "broker_inv b" and d: "DeleteTopic n b = (e, b')"
  shows "broker_inv b'"
proof (cases "mget (Topics b) n")
  case None
  with i d show ?thesis by (simp add: DeleteTopic_def)
next
  case (Some r)
  have refs: "refs_ok b" and ok: "chan_ok b" using i by (simp_all add: broker_inv_def)
  have r: "r < length (heap b)" "Name (heap b ! r) = n" using refs Some by (simp_all add: refs_ok_def)
  let ?b = "(updTopic r (\<lambda>t. t\<lparr>Deleted := True\<rparr>) b)\<lparr>Topics := mdel n (Topics b), wildcards := mdel n (wildcards b),
      webhooks := mdel n (webhooks b), compiledRegex := mdel n (compiledRegex b)\<rparr>"
  have u: "waits ?b = waits b" "spied ?b = spied b" "jobbed ?b = jobbed b"
    using waits_updTopic [OF r(1), of "\<lambda>t. t\<lparr>Deleted := True\<rparr>"] spied_updTopic [OF r(1), of "\<lambda>t. t\<lparr>Deleted := True\<rparr>"]
    by (simp_all add: waits_def spied_def jobbed_def)
  have "chan_ok ?b" by (rule chan_ok_change [OF ok]) (simp_all add: u)
  moreover have "refs_ok ?b"
    using refs r by (auto simp: refs_ok_def heap_updTopic split: if_splits)
  ultimately have ib: "broker_inv ?b" using i by (simp add: broker_inv_def)
  have "quiet ?b b'" using d Some by (auto simp: DeleteTopic_def Let_def split: option.splits)
  then show ?thesis using ib by (rule quiet_inv)
qed

lemma IsIdempotent_quiet: "IsIdempotent now k b = (x, b') \<Longrightarrow> quiet b b'"
  by (auto simp: IsIdempotent_def Let_def split: if_splits)

lemma RegisterWebhook_quiet: "RegisterWebhook n u s b = (e, b') \<Longrightarrow> quiet b b'"
  by (auto simp: RegisterWebhook_def split: if_splits)

lemma newChan_inv: "broker_inv b \<Longrightarrow> newChan k b = (c, b') \<Longrightarrow> broker_inv b' \<and> uses b' = uses b \<and> heap b' = heap b"
proof -
  assume i: "broker_inv b" and n: "newChan k b = (c, b')"
  let ?x = "chans b @ [\<lparr>cap = k, buf = [], chClosed = False\<rparr>]"
  have b': "b' = b\<lparr>chans := ?x\<rparr>" using n by (auto simp: newChan_def)
  have ok: "chan_ok b" using i by (simp add: broker_inv_def)
  have "chan_ok (b\<lparr>chans := ?x\<rparr>)"
  proof (rule chan_ok_change [OF ok])
    fix c assume "c \<in># waits (b\<lparr>chans := ?x\<rparr>) + spied (b\<lparr>chans := ?x\<rparr>) + jobbed (b\<lparr>chans := ?x\<rparr>)"
    then have "c < length (chans b)" using chan_okD(1) [OF ok, of c] by simp
    then show "chClosed (chans (b\<lparr>chans := ?x\<rparr>) ! c) = chClosed (chans b ! c)" by (simp add: nth_append)
  next
    fix c assume c: "c \<in># waits (b\<lparr>chans := ?x\<rparr>) + jobbed (b\<lparr>chans := ?x\<rparr>)"
    then have "c < length (chans b)" using chan_okD(1) [OF ok, of c] by auto
    with c show "c \<in># waits b + jobbed b \<and> chans (b\<lparr>chans := ?x\<rparr>) ! c = chans b ! c" by (simp add: nth_append)
  qed simp_all
  then have "broker_inv (b\<lparr>chans := ?x\<rparr>)" by (rule inv_chans [OF i])
  then show ?thesis by (simp add: b' uses_def)
qed

lemma newChan_fresh: "broker_inv b \<Longrightarrow> newChan k b = (c, b') \<Longrightarrow> 0 < k \<Longrightarrow> fresh_chan b' c"
proof -
  assume i: "broker_inv b" and n: "newChan k b = (c, b')" and k: "0 < k"
  have "c \<notin># uses b" using i n chan_okD(1) [of b c] by (auto simp: broker_inv_def uses_def newChan_def)
  with newChan_inv [OF i n] n k show ?thesis by (auto simp: fresh_chan_def newChan_def nth_append)
qed

lemma AddSpy_inv:
  assumes i: "broker_inv b" and a: "AddSpy n b = (res, b')"
  shows "broker_inv b'"
proof (cases "IsValidTopicName n")
  case False
  with i a show ?thesis by (simp add: AddSpy_def)
next
  case True
  obtain ro b1 where g: "getOrCreateTopic n b = (ro, b1)" by (cases "getOrCreateTopic n b")
  note ok1 = getOrCreateTopic_ok [OF i g]
  show ?thesis
  proof (cases ro)
    case None
    with g a True ok1 i show ?thesis by (simp add: AddSpy_def)
  next
    case (Some r)
    obtain c b2 where c: "newChan 1024 b1 = (c, b2)" by (cases "newChan 1024 b1")
    have i2: "broker_inv b2" "heap b2 = heap b1" using newChan_inv [OF ok1(1) c] by simp_all
    have f: "fresh_chan b2 c" using newChan_fresh [OF ok1(1) c] by simp
    let ?f = "\<lambda>t. t\<lparr>spies := spies t @ [c]\<rparr>"
    have r: "r < length (heap b2)" using ok1(3) [OF Some] i2(2) by simp
    have b': "b' = updTopic r ?f b2" using a True g Some c by (simp add: AddSpy_def)
    have w: "waits b' = waits b2" using waits_updTopic [OF r, of ?f] by (simp add: b')
    have s: "spied b' = add_mset c (spied b2)" using spied_updTopic [OF r, of ?f] by (simp add: b')
    have ok: "chan_ok b2" and refs: "refs_ok b2" using i2 by (simp_all add: broker_inv_def)
    have "chan_ok b'"
      unfolding chan_ok_def w s unfolding b' jobbed_updTopic updTopic_simps
      using ok f by (auto simp: chan_ok_def fresh_chan_def uses_def not_in_iff)
    moreover have "refs_ok b'" unfolding b' by (rule refs_ok_updTopic [OF refs r]) simp_all
    ultimately show ?thesis using i2 by (simp add: broker_inv_def b')
  qed
qed

lemma RemoveSpy_inv:
  assumes i: "broker_inv b"
  shows "broker_inv (RemoveSpy n c b)"
proof (cases "\<exists>r. mget (Topics b) n = Some r \<and> c \<in> set (spies (heap b ! r))")
  case False
  with i show ?thesis by (auto simp: RemoveSpy_def split: option.splits)
next
  case True
  then obtain r where r: "mget (Topics b) n = Some r" "c \<in> set (spies (heap b ! r))" by blast
  have ok: "chan_ok b" and refs: "refs_ok b" using i by (simp_all add: broker_inv_def)
  have rl: "r < length (heap b)" using refs r(1) by (simp add: refs_ok_def)
  let ?f = "\<lambda>t. t\<lparr>spies := remove1 c (spies t)\<rparr>"
  let ?b = "closeChan c (updTopic r ?f b)"
  have w: "waits ?b = waits b" using waits_updTopic [OF rl, of ?f] by (simp add: closeChan_def)
  define M where "M = mset (remove1 c (spies (heap b ! r)))"
  have "mset (spies (heap b ! r)) = add_mset c M" using r(2) by (simp add: M_def)
  with spied_updTopic [OF rl, of ?f] have "add_mset c (spied ?b) + M = spied b + M"
    by (simp add: closeChan_def M_def del: mset_remove1)
  then have s: "spied b = add_mset c (spied ?b)" by (simp only: add_right_cancel)
  have j: "jobbed ?b = jobbed b" by (simp add: closeChan_def)
  have n: "c \<notin># waits ?b + spied ?b + jobbed ?b"
    using chan_okD(4) [OF ok, of c] w s j by (simp add: not_in_iff)
  have cl: "c' \<noteq> c \<Longrightarrow> chans ?b ! c' = chans b ! c'" for c' by (simp add: closeChan_def)
  have "chan_ok ?b"
  proof (rule chan_ok_change [OF ok])
    show "waits ?b + spied ?b + jobbed ?b \<subseteq># waits b + spied b + jobbed b" using w s j by simp
    show "length (chans b) \<le> length (chans ?b)" by (simp add: closeChan_def)
    show "c' \<in># waits ?b + spied ?b + jobbed ?b \<Longrightarrow> chClosed (chans ?b ! c') = chClosed (chans b ! c')" for c'
      using n cl [of c'] by (cases "c' = c") auto
    show "c' \<in># waits ?b + jobbed ?b \<Longrightarrow> c' \<in># waits b + jobbed b \<and> chans ?b ! c' = chans b ! c'" for c'
      using n cl [of c'] w j by (cases "c' = c") auto
  qed
  moreover have "refs_ok ?b"
    using refs_ok_updTopic [OF refs rl, of ?f] by (simp add: closeChan_def refs_ok_def)
  ultimately have "broker_inv ?b" using i by (simp add: broker_inv_def closeChan_def)
  then show ?thesis using r by (simp add: RemoveSpy_def)
qed

lemma RemoveWaitingConsumer_inv:
  assumes i: "broker_inv b"
  shows "broker_inv (RemoveWaitingConsumer n c b)"
proof (cases "mget (Topics b) n")
  case None
  with i show ?thesis by (simp add: RemoveWaitingConsumer_def)
next
  case (Some r)
  have ok: "chan_ok b" and refs: "refs_ok b" using i by (simp_all add: broker_inv_def)
  have rl: "r < length (heap b)" using refs Some by (simp add: refs_ok_def)
  let ?f = "\<lambda>t. t\<lparr>waitingConsumers := remove1 c (waitingConsumers t)\<rparr>"
  let ?b = "updTopic r ?f b"
  have "waits ?b + mset (waitingConsumers (heap b ! r)) = waits b + (mset (waitingConsumers (heap b ! r)) - {#c#})"
    using waits_updTopic [OF rl, of ?f] by simp
  then have "waits ?b + mset (waitingConsumers (heap b ! r)) \<subseteq># waits b + mset (waitingConsumers (heap b ! r))"
    by (simp add: subset_mset.add_left_mono)
  then have w: "waits ?b \<subseteq># waits b" by simp
  have s: "spied ?b = spied b" using spied_updTopic [OF rl, of ?f] by simp
  have "chan_ok ?b"
    by (rule chan_ok_change [OF ok]) (use w s in \<open>auto dest: mset_subset_eqD intro: subset_mset.add_mono\<close>)
  moreover have "refs_ok ?b" by (rule refs_ok_updTopic [OF refs rl]) simp_all
  ultimately show ?thesis using i Some by (simp add: RemoveWaitingConsumer_def broker_inv_def)
qed

lemma CreateGroup_inv:
  assumes i: "broker_inv b" and c: "CreateGroup n g b = (res, b')"
  shows "broker_inv b'"
proof (cases "validTopicRegex g")
  case False
  with i c show ?thesis by (simp add: CreateGroup_def)
next
  case True
  let ?v = "n @ ''::'' @ g" let ?b = "addBinding n (n @ ''::'' @ g) b"
  obtain ro b1 where go: "getOrCreateTopic ?v ?b = (ro, b1)" by (cases "getOrCreateTopic ?v ?b")
  have "broker_inv b1" using getOrCreateTopic_ok(1) [OF quiet_inv [OF addBinding_quiet i] go] .
  moreover have "quiet b1 b'" using c True go by (auto simp: CreateGroup_def Let_def split: option.splits if_splits)
  ultimately show ?thesis by (rule quiet_inv [rotated])
qed

end
