(* ===== verification/BrokerSteps.thy ===== *)
theory BrokerSteps
  imports BrokerInv
begin

text \<open>
  The broker as a transition system: its operations, the goroutines and timers they leave
  behind, the receivers of channels, and the iteration order of Go maps, which may change at
  any time. The invariant of \<^verbatim>\<open>BrokerInv\<close> holds in every reachable state.
\<close>

subsection \<open>Recovery, goroutines and receivers\<close>

lemma loadTopic_inv:
  assumes i: "broker_inv b" and st: "storage b \<noteq> None"
  shows "\<exists>b'. loadTopic n b = Ret b' \<and> broker_inv b' \<and> storage b' \<noteq> None"
proof -
  let ?b = "if Contains n ''::'' then addBinding (hd (SplitN n ''::'' 2)) n b else b"
  have ib: "broker_inv ?b" using quiet_inv [OF addBinding_quiet i] i by simp
  obtain s where s: "storage ?b = Some s" using st by (auto simp: addBinding_def Let_def)
  obtain msgs err s' where l: "LoadMessages n s = ((msgs, err), s')" by (cases "LoadMessages n s") auto
  let ?c = "?b\<lparr>storage := Some s'\<rparr>"
  have ic: "broker_inv ?c" using quiet_inv [OF quiet_fields(1) ib] .
  have "broker_inv (addTopic n (newTopic n msgs p d) ?c)" for p d by (rule addTopic_inv [OF ic]) simp_all
  with ic s l show ?thesis unfolding loadTopic_def Let_def by (cases "err = None") simp_all
qed

lemma LoadExistingTopics_inv:
  "broker_inv b \<Longrightarrow> storage b \<noteq> None \<Longrightarrow> \<exists>b'. LoadExistingTopics ns b = Ret b' \<and> broker_inv b'"
proof -
  assume "broker_inv b" "storage b \<noteq> None"
  moreover have "\<exists>b'. fold_run loadTopic ns b = Ret b' \<and> (broker_inv b' \<and> storage b' \<noteq> None) \<and> True"
    if "broker_inv b \<and> storage b \<noteq> None" for b
    using that loadTopic_inv
    by (intro fold_run_ok [where E = "\<lambda>_ _. True" and I = "\<lambda>b. broker_inv b \<and> storage b \<noteq> None"]) auto
  ultimately show ?thesis by (auto simp: LoadExistingTopics_def)
qed

text \<open>Removing a job from the list, and running it.\<close>

lemma job_removed:
  assumes "broker_inv b" and "jobs b = xs @ j # ys"
  shows "jobbed b = jobbed (b\<lparr>jobs := xs @ ys\<rparr>) + mset (job_chans j)" and "broker_inv (b\<lparr>jobs := xs @ ys\<rparr>)"
proof -
  show jb: "jobbed b = jobbed (b\<lparr>jobs := xs @ ys\<rparr>) + mset (job_chans j)"
    by (simp add: jobbed_def assms(2))
  have ok: "chan_ok b" using assms(1) by (simp add: broker_inv_def)
  have "chan_ok (b\<lparr>jobs := xs @ ys\<rparr>)"
    by (rule chan_ok_change [OF ok]) (use jb in auto)
  then show "broker_inv (b\<lparr>jobs := xs @ ys\<rparr>)"
    using assms by (auto simp: broker_inv_def refs_ok_def)
qed

lemma offer_own:
  assumes i: "broker_inv b" and c: "c < length (chans b)" "\<not> chClosed (chans b ! c)" "c \<notin># waits b + jobbed b"
  shows "\<exists>x. offer m c b = Ret (b\<lparr>chans := x\<rparr>) \<and> broker_inv (b\<lparr>chans := x\<rparr>) \<and> length x = length (chans b)
     \<and> (\<forall>c'. chClosed (x ! c') = chClosed (chans b ! c'))"
proof -
  have ok: "chan_ok b" using i by (simp add: broker_inv_def)
  let ?x = "(chans b)[c := (chans b ! c)\<lparr>buf := buf (chans b ! c) @ [m]\<rparr>]"
  have "chan_ok (b\<lparr>chans := ?x\<rparr>)"
    by (rule chan_ok_change [OF ok]) (use c in \<open>auto simp: nth_list_update\<close>)
  then have "broker_inv (b\<lparr>chans := ?x\<rparr>)" by (rule inv_chans [OF i])
  moreover have "chClosed (?x ! c') = chClosed (chans b ! c')" for c'
    using c(1) by (cases "c' = c") simp_all
  moreover have "b\<lparr>chans := chans b\<rparr> = b" by simp
  ultimately show ?thesis
    using c i by (cases "length (buf (chans b ! c)) < cap (chans b ! c)")
      (auto simp: offer_def trySend_def Let_def intro: exI [of _ ?x] exI [of _ "chans b"])
qed

lemma broadcast_ok:
  "broker_inv b \<Longrightarrow> \<forall>c \<in> set cs. c < length (chans b) \<and> \<not> chClosed (chans b ! c) \<and> c \<notin># waits b + jobbed b \<Longrightarrow>
     \<exists>x. fold_run (offer m) cs b = Ret (b\<lparr>chans := x\<rparr>) \<and> broker_inv (b\<lparr>chans := x\<rparr>)"
proof (induction cs arbitrary: b)
  case Nil
  have "b = b\<lparr>chans := chans b\<rparr>" by simp
  with Nil show ?case by (metis fold_run.simps(1))
next
  case (Cons c cs)
  obtain x where x: "offer m c b = Ret (b\<lparr>chans := x\<rparr>)" "broker_inv (b\<lparr>chans := x\<rparr>)" "length x = length (chans b)"
    "\<forall>c'. chClosed (x ! c') = chClosed (chans b ! c')"
    using offer_own [OF Cons.prems(1), of c m] Cons.prems(2) by (meson list.set_intros(1))
  with Cons.IH [OF x(2)] Cons.prems(2) show ?case by auto
qed

lemma runJob_ok:
  assumes i: "broker_inv b" and j: "jobs b = xs @ j # ys"
  shows "\<exists>b'. runJob j (b\<lparr>jobs := xs @ ys\<rparr>) = Ret b' \<and> broker_inv b'"
proof (cases j)
  case (DelayedPush t p)
  have "\<forall>r \<in> set (jTopic p # jWild p). r < length (heap (b\<lparr>jobs := xs @ ys\<rparr>))"
    using i j DelayedPush by (auto simp: broker_inv_def refs_ok_def)
  from pushFunc_ok [OF job_removed(2) [OF i j] this] DelayedPush show ?thesis by auto
next
  case (BroadcastSend cs m)
  let ?b = "b\<lparr>jobs := xs @ ys\<rparr>"
  have ok: "chan_ok b" using i by (simp add: broker_inv_def)
  have jb: "jobbed b = jobbed ?b + mset cs" using job_removed(1) [OF i j] BroadcastSend by simp
  have "c < length (chans ?b) \<and> \<not> chClosed (chans ?b ! c) \<and> c \<notin># waits ?b + jobbed ?b" if c: "c \<in> set cs" for c
  proof -
    have "c \<in># jobbed b" using jb c by simp
    moreover have "count (jobbed b) c = count (jobbed ?b) c + count (mset cs) c" "1 \<le> count (mset cs) c"
      using jb c by (simp_all add: Suc_le_eq)
    with chan_okD(4) [OF ok, of c] have "count (waits b + jobbed ?b) c = 0" unfolding count_union by linarith
    ultimately show ?thesis using chan_okD(1) [OF ok, of c] by (simp add: not_in_iff)
  qed
  with broadcast_ok [OF job_removed(2) [OF i j], of cs m] BroadcastSend show ?thesis by auto
next
  case (WebhookCall w p)
  with quiet_inv [OF quiet_fields(9) job_removed(2) [OF i j]] show ?thesis by simp
qed

definition receive :: "nat \<Rightarrow> Broker \<Rightarrow> Broker" where
  "receive c b = b\<lparr>chans := (chans b)[c := (chans b ! c)\<lparr>buf := tl (buf (chans b ! c))\<rparr>]\<rparr>"

lemma receive_inv: "broker_inv b \<Longrightarrow> broker_inv (receive c b)"
proof -
  assume i: "broker_inv b"
  have ok: "chan_ok b" using i by (simp add: broker_inv_def)
  let ?x = "(chans b)[c := (chans b ! c)\<lparr>buf := tl (buf (chans b ! c))\<rparr>]"
  have cl: "chClosed (?x ! c') = chClosed (chans b ! c')" for c'
    by (cases "c' = c \<and> c < length (chans b)") (auto simp: nth_list_update list_update_beyond)
  have em: "buf (chans b ! c') = [] \<Longrightarrow> ?x ! c' = chans b ! c'" for c'
    by (cases "c' = c \<and> c < length (chans b)") (auto simp: nth_list_update list_update_beyond)
  have "chan_ok (b\<lparr>chans := ?x\<rparr>)"
    by (rule chan_ok_change [OF ok]) (use cl em chan_okD(2) [OF ok] in auto)
  then show ?thesis unfolding receive_def by (rule inv_chans [OF i])
qed

text \<open>Go maps have no order: any permutation of the entries is the same map.\<close>

definition reordered :: "Broker \<Rightarrow> Broker \<Rightarrow> bool" where
  "reordered b b' \<longleftrightarrow> (\<exists>ts ws bs. mset ts = mset (Topics b) \<and> mset ws = mset (wildcards b) \<and> mset bs = mset (bindings b)
     \<and> b' = b\<lparr>Topics := ts, wildcards := ws, bindings := bs\<rparr>)"

lemma mget_perm: "wf_map m \<Longrightarrow> mset m' = mset m \<Longrightarrow> wf_map m' \<and> mget m' = mget m"
proof -
  assume w: "wf_map m" and p: "mset m' = mset m"
  then have d: "wf_map m'" by (metis mset_eq_imp_distinct_iff mset_map)
  moreover have "set m' = set m" using p by (rule mset_eq_setD)
  ultimately show ?thesis using w map_of_inject_set [of m' m] by (simp add: mget_def fun_eq_iff)
qed

lemma reordered_inv: "reordered b b' \<Longrightarrow> broker_inv b \<Longrightarrow> broker_inv b'"
proof -
  assume r: "reordered b b'" and i: "broker_inv b"
  then obtain ts ws bs where m: "mset ts = mset (Topics b)" "mset ws = mset (wildcards b)"
    "b' = b\<lparr>Topics := ts, wildcards := ws, bindings := bs\<rparr>" by (auto simp: reordered_def)
  have "wf_map ts \<and> mget ts = mget (Topics b)" "wf_map ws \<and> mget ws = mget (wildcards b)"
    using i m mget_perm by (auto simp: broker_inv_def refs_ok_def)
  with i m(3) show ?thesis
    by (simp add: broker_inv_def refs_ok_def chan_ok_def waits_def spied_def jobbed_def)
qed

subsection \<open>The transition system\<close>

text \<open>The steps of a running broker, and with them the recovery of logs at the start.\<close>

inductive live_step :: "Broker \<Rightarrow> Broker \<Rightarrow> bool" where
  publish: "Publish now n req b = Ret (e, b') \<Longrightarrow> live_step b b'"
| publish_replicated: "PublishReplicated now n payload b = Ret (e, b') \<Longrightarrow> live_step b b'"
| consume: "newChan k b = (c, b1) \<Longrightarrow> 0 < k \<Longrightarrow> Consume now n limit c b1 = (res, b') \<Longrightarrow> live_step b b'"
| stop_waiting: "live_step b (RemoveWaitingConsumer n c b)"
| receive: "live_step b (receive c b)"
| ack: "Ack now n i b = (res, b') \<Longrightarrow> live_step b b'"
| requeue: "Requeue now m b = Ret b' \<Longrightarrow> live_step b b'"
| collect: "live_step b (purgeExpiredMessages now b)"
| redrive: "RedriveDLQ now n b = Ret (res, b') \<Longrightarrow> live_step b b'"
| webhook: "RegisterWebhook n u s b = (e, b') \<Longrightarrow> live_step b b'"
| create: "CreateTopic n p d b = (e, b') \<Longrightarrow> live_step b b'"
| purge: "Purge n b = (e, b') \<Longrightarrow> live_step b b'"
| delete: "DeleteTopic n b = (e, b') \<Longrightarrow> live_step b b'"
| idempotent: "IsIdempotent now key b = (x, b') \<Longrightarrow> live_step b b'"
| add_spy: "AddSpy n b = (r, b') \<Longrightarrow> live_step b b'"
| remove_spy: "live_step b (RemoveSpy n c b)"
| group: "CreateGroup n g b = (r, b') \<Longrightarrow> live_step b b'"
| compact: "storage b = Some s \<Longrightarrow> live_step b (b\<lparr>storage := Some (snd (CompactLog n s))\<rparr>)"
| job: "jobs b = xs @ j # ys \<Longrightarrow> runJob j (b\<lparr>jobs := xs @ ys\<rparr>) = Ret b' \<Longrightarrow> live_step b b'"
| reorder: "reordered b b' \<Longrightarrow> live_step b b'"

inductive broker_step :: "Broker \<Rightarrow> Broker \<Rightarrow> bool" where
  live: "live_step b b' \<Longrightarrow> broker_step b b'"
| load: "storage b \<noteq> None \<Longrightarrow> LoadExistingTopics ns b = Ret b' \<Longrightarrow> broker_step b b'"

text \<open>A new broker, with the callbacks the cluster installs; the random source works.\<close>

definition broker_init :: "Broker \<Rightarrow> bool" where
  "broker_init b \<longleftrightarrow> (\<exists>store em et p xc xm rnd on og. (\<forall>n. rnd n \<noteq> None)
     \<and> b = (broker_New store em et p xc xm rnd)\<lparr>OnPublish := on, OnGroupCreate := og\<rparr>)"

lemma env_limit_pos: "0 < d \<Longrightarrow> 0 < env_limit d v"
  by (simp add: env_limit_def split: option.split)

lemma broker_init_inv: "broker_init b \<Longrightarrow> broker_inv b"
  by (auto simp: broker_init_def broker_New_def broker_inv_def chan_ok_def refs_ok_def waits_def spied_def
      jobbed_def env_limit_pos mget_def)

lemma publishCore_inv: "publishCore k now n req b = Ret (e, b') \<Longrightarrow> broker_inv b \<Longrightarrow> broker_inv b'"
  using publishCore_ok [of b k now n req] by auto

lemma live_step_inv: "live_step b b' \<Longrightarrow> broker_inv b \<Longrightarrow> broker_inv b'"
proof (induction rule: live_step.induct)
  case (publish now n req b e b')
  then show ?case unfolding Publish_def by (rule publishCore_inv)
next
  case (publish_replicated now n payload b e b')
  then show ?case unfolding PublishReplicated_def by (rule publishCore_inv)
next
  case (consume k b c b1 now n limit res b')
  then show ?case using Consume_ok newChan_inv newChan_fresh by metis
next
  case (requeue now m b b')
  then show ?case using Requeue_ok [of b now m] by auto
next
  case (redrive now n b res b')
  then show ?case using RedriveDLQ_ok [of b now n] by auto
next
  case (job b xs j ys b')
  then show ?case using runJob_ok [of b xs j ys] by auto
qed (auto intro: RemoveWaitingConsumer_inv receive_inv quiet_inv [OF Ack_quiet] purgeExpired_inv
    quiet_inv [OF RegisterWebhook_quiet] CreateTopic_inv quiet_inv [OF Purge_quiet] DeleteTopic_inv
    quiet_inv [OF IsIdempotent_quiet] AddSpy_inv RemoveSpy_inv CreateGroup_inv quiet_inv [OF quiet_fields(1)]
    reordered_inv)

lemma broker_step_inv: "broker_step b b' \<Longrightarrow> broker_inv b \<Longrightarrow> broker_inv b'"
proof (induction rule: broker_step.induct)
  case (live b b')
  then show ?case by (rule live_step_inv)
next
  case (load b ns b')
  then show ?case using LoadExistingTopics_inv [of b ns] by auto
qed

interpretation brk: invariant_system broker_init broker_step broker_inv
  by unfold_locales (auto intro: broker_init_inv broker_step_inv)

text \<open>
  C4: The broker never gets stuck. In every state reachable from a new broker by any
  interleaving of publishing, consuming (each request with a channel of its own, as the
  HTTP handlers do), acknowledging, requeueing, redriving, spying, creating, purging and
  deleting topics, garbage collection, recovery and pending timers and goroutines, a further
  publish, replicated publish, requeue or redrive returns, and so does every pending job: none
  of them blocks on a mutex it already holds, sends on a closed channel, or takes an element
  of an empty queue.
\<close>

theorem broker_never_stuck:
  assumes "reach broker_init broker_step b"
  shows "(\<exists>e b'. Publish now n req b = Ret (e, b')) \<and> (\<exists>e b'. PublishReplicated now n p b = Ret (e, b'))
     \<and> (\<exists>b'. Requeue now m b = Ret b') \<and> (\<exists>r b'. RedriveDLQ now n b = Ret (r, b'))
     \<and> (jobs b = xs @ j # ys \<longrightarrow> (\<exists>b'. runJob j (b\<lparr>jobs := xs @ ys\<rparr>) = Ret b'))"
proof -
  have i: "broker_inv b" using assms by (rule brk.inv_reach)
  have "\<exists>e b'. publishCore 11 now n r b = Ret (e, b')" for r using publishCore_ok [OF i] by blast
  then show ?thesis
    using Requeue_ok [OF i, of now m] RedriveDLQ_ok [OF i, of now n] runJob_ok [OF i, of xs j ys]
    by (auto simp: Publish_def PublishReplicated_def)
qed

definition sample_broker :: "DiskStorage option \<Rightarrow> Broker" where
  "sample_broker store = broker_New store [] [] [] (\<lambda>_. False) (\<lambda>_ _. False) (\<lambda>n. Some (replicate 15 0 @ [of_nat n]))"

lemma sample_broker_init: "broker_init (sample_broker store)"
  unfolding broker_init_def sample_broker_def
  by (intro exI [of _ store] exI [of _ "[]"] exI [of _ "\<lambda>_. False"] exI [of _ "\<lambda>_ _. False"]
      exI [of _ "\<lambda>n. Some (replicate 15 0 @ [of_nat n])"] exI [of _ None] exI [of _ False])
    (simp add: broker_New_def)

theorem broker_never_stuck_witness:
  "\<exists>e b'. Publish 1 ''q'' \<lparr>pPayload = [1], pHeaders = [], pPriority = ''high'', pExpiresAt = None, pDeliverAt = None,
      pBroadcast = True, pReplication = False\<rparr> (snd (AddSpy ''q'' (sample_broker None))) = Ret (e, b')"
proof -
  have "reach broker_init broker_step (snd (AddSpy ''q'' (sample_broker None)))"
    by (rule reach.step [OF reach.init [of broker_init, OF sample_broker_init]], rule broker_step.live,
        rule live_step.add_spy, rule prod.collapse [symmetric])
  then show ?thesis using broker_never_stuck by blast
qed

end
