(* ===== verification/BrokerProps.thy ===== *)
theory BrokerProps
  imports BrokerSteps DurableLog
begin

text \<open>
  What the operations of the broker do: where a published message goes, the limits on
  queues and topics, consuming and acknowledging, idempotency keys, dead letters, and what
  the log keeps of all this.
\<close>

subsection \<open>Where a message goes\<close>

text \<open>The first waiting consumer, looking at the topics in the given order.\<close>

fun receiver :: "nat list \<Rightarrow> Broker \<Rightarrow> (nat \<times> nat) option" where
  "receiver [] b = None"
| "receiver (r # rs) b = (case waitingConsumers (heap b ! r) of [] \<Rightarrow> receiver rs b | c # _ \<Rightarrow> Some (r, c))"

definition deliver :: "push_job \<Rightarrow> nat \<Rightarrow> nat \<Rightarrow> Broker \<Rightarrow> Broker" where
  "deliver j r c b =
     updTopic (jTopic j) (\<lambda>t. removeMessageByID t (ID (jMsg j)))
       ((popWaiting r b)\<lparr>chans := (chans b)[c := (chans b ! c)\<lparr>buf := [jMsg j]\<rparr>]\<rparr>)"

lemma receiver_append: "receiver (rs @ ss) b = (case receiver rs b of None \<Rightarrow> receiver ss b | Some p \<Rightarrow> Some p)"
  by (induction rs) (auto split: list.splits)

lemma receiver_Some:
  "receiver rs b = Some (r, c) \<Longrightarrow> r \<in> set rs \<and> (\<exists>cs. waitingConsumers (heap b ! r) = c # cs)"
  by (induction rs) (auto split: list.splits)

lemma receiver_heap: "heap b' = heap b \<Longrightarrow> receiver rs b' = receiver rs b"
  by (induction rs) (auto split: list.splits)

lemma push_wild_receiver:
  "broker_inv b \<Longrightarrow> \<forall>r \<in> set rs. r < length (heap b) \<Longrightarrow>
   push_wild j rs b = (case receiver rs b of None \<Rightarrow> Ret (False, b) | Some (r, c) \<Rightarrow> Ret (True, deliver j r c b))"
proof (induction rs)
  case (Cons r rs)
  show ?case
  proof (cases "waitingConsumers (heap b ! r)")
    case Nil
    with Cons show ?thesis by simp
  next
    case c: (Cons c cs)
    have "r < length (heap b)" using Cons.prems(2) by simp
    from send_waiting(1) [OF Cons.prems(1) this c] c show ?thesis by (simp add: deliver_def)
  qed
qed simp

lemma push_direct_receiver:
  "broker_inv b \<Longrightarrow> jTopic j < length (heap b) \<Longrightarrow>
   push_direct j b = (case receiver [jTopic j] b of None \<Rightarrow> Ret b | Some (r, c) \<Rightarrow> Ret (deliver j r c b))"
  using send_waiting(1) [of b "jTopic j" _ _ "jMsg j"]
  by (auto simp: push_direct_def deliver_def split: list.splits)

lemma push_one_receiver:
  assumes "broker_inv b" and "\<forall>r \<in> set (jTopic j # jWild j). r < length (heap b)"
  shows "bind_run (push_wild j (jWild j) b) (\<lambda>(d, b). if d then Ret b else push_direct j b)
     = Ret (case receiver (jWild j @ [jTopic j]) b of None \<Rightarrow> b | Some (r, c) \<Rightarrow> deliver j r c b)"
  using assms push_wild_receiver [of b "jWild j" j] push_direct_receiver [of b j]
  by (auto simp: receiver_append split: option.splits)

text \<open>Spies see the message; the rest of the broker does not notice them.\<close>

lemma offer_frame: "offer m c b = Ret b' \<Longrightarrow> \<exists>x. b' = b\<lparr>chans := x\<rparr> \<and> (\<forall>c'. c' \<noteq> c \<longrightarrow> x ! c' = chans b ! c')"
proof -
  assume o: "offer m c b = Ret b'"
  have "b\<lparr>chans := chans b\<rparr> = b" by simp
  with o show ?thesis
    by (auto simp: offer_def trySend_def Let_def split: if_splits intro: exI [of _ "chans b"])
qed

lemma offers_frame:
  "fold_run (offer m) cs b = Ret b' \<Longrightarrow> \<exists>x. b' = b\<lparr>chans := x\<rparr> \<and> (\<forall>c'. c' \<notin> set cs \<longrightarrow> x ! c' = chans b ! c')"
proof (induction cs arbitrary: b)
  case Nil
  have "b = b\<lparr>chans := chans b\<rparr>" by simp
  with Nil show ?case by (metis fold_run.simps(1) run.inject)
next
  case (Cons c cs)
  obtain b1 where b1: "offer m c b = Ret b1" "fold_run (offer m) cs b1 = Ret b'"
    using Cons.prems by (cases "offer m c b") auto
  from offer_frame [OF b1(1)] obtain x where x: "b1 = b\<lparr>chans := x\<rparr>" "\<forall>c'. c' \<noteq> c \<longrightarrow> x ! c' = chans b ! c'" by blast
  from Cons.IH [OF b1(2)] x show ?case by auto
qed

lemma spies_frame:
  "fold_run (\<lambda>r b. fold_run (offer m) (spies (heap b ! r)) b) rs b = Ret b' \<Longrightarrow>
   \<forall>r \<in> set rs. r < length (heap b) \<Longrightarrow>
   \<exists>x. b' = b\<lparr>chans := x\<rparr> \<and> (\<forall>c'. c' \<notin># spied b \<longrightarrow> x ! c' = chans b ! c')"
proof (induction rs arbitrary: b)
  case Nil
  have "b = b\<lparr>chans := chans b\<rparr>" by simp
  with Nil show ?case by (metis fold_run.simps(1) run.inject)
next
  case (Cons r rs)
  obtain b1 where b1: "fold_run (offer m) (spies (heap b ! r)) b = Ret b1"
    "fold_run (\<lambda>r b. fold_run (offer m) (spies (heap b ! r)) b) rs b1 = Ret b'"
    using Cons.prems(1) by (cases "fold_run (offer m) (spies (heap b ! r)) b") auto
  from offers_frame [OF b1(1)] obtain x where x: "b1 = b\<lparr>chans := x\<rparr>"
    "\<forall>c'. c' \<notin> set (spies (heap b ! r)) \<longrightarrow> x ! c' = chans b ! c'" by blast
  have "c' \<notin># spied b \<Longrightarrow> c' \<notin> set (spies (heap b ! r))" for c'
    using in_spied [of r b c'] Cons.prems(2) by auto
  with Cons.IH [OF b1(2)] Cons.prems(2) x show ?case by auto
qed

lemma push_webhooks_rest:
  "Topics (push_webhooks j b) = Topics b \<and> storage (push_webhooks j b) = storage b
   \<and> maxMessages (push_webhooks j b) = maxMessages b"
proof -
  have "Topics (fold (push_webhook p) ws b) = Topics b \<and> storage (fold (push_webhook p) ws b) = storage b
      \<and> maxMessages (fold (push_webhook p) ws b) = maxMessages b" for p ws
    by (induction ws arbitrary: b) (simp_all add: push_webhook_def)
  then show ?thesis by (simp add: push_webhooks_def)
qed

text \<open>The whole push, for a message that is not broadcast.\<close>

definition quietly :: "Broker \<Rightarrow> Broker \<Rightarrow> bool" where
  "quietly b b1 \<longleftrightarrow> broker_inv b1 \<and> heap b1 = heap b \<and> Topics b1 = Topics b \<and> storage b1 = storage b
     \<and> maxMessages b1 = maxMessages b \<and> (\<forall>c. c \<in># waits b \<longrightarrow> chans b1 ! c = chans b ! c)"

lemma pushFunc_receiver:
  assumes i: "broker_inv b" and r: "\<forall>r \<in> set (jTopic j # jWild j). r < length (heap b)" and nb: "\<not> jBroadcast j"
  shows "\<exists>b1. quietly b b1
     \<and> pushFunc j b = Ret (case receiver (jWild j @ [jTopic j]) b of None \<Rightarrow> b1 | Some (r, c) \<Rightarrow> deliver j r c b1)"
proof -
  let ?w = "push_webhooks j b"
  have rw: "\<forall>r \<in> set (jTopic j # jWild j). r < length (heap ?w)" using r by simp
  obtain x where x: "push_spies j ?w = Ret (?w\<lparr>chans := x\<rparr>)" "broker_inv (?w\<lparr>chans := x\<rparr>)"
    using push_spies_ok [OF push_webhooks_inv [OF i] rw] by blast
  let ?b1 = "?w\<lparr>chans := x\<rparr>"
  obtain y where y: "?b1 = ?w\<lparr>chans := y\<rparr>" "\<forall>c. c \<notin># spied ?w \<longrightarrow> y ! c = chans ?w ! c"
    using spies_frame [OF x(1) [unfolded push_spies_def] rw] by blast
  from arg_cong [OF y(1), of chans] have "x = y" by simp
  then have keep: "c \<in># waits b \<Longrightarrow> chans ?b1 ! c = chans b ! c" for c
    using chan_okD(3) [of b c] i y(2) by (auto simp: broker_inv_def spied_def)
  have "\<forall>r \<in> set (jTopic j # jWild j). r < length (heap ?b1)" using r by simp
  from push_one_receiver [OF x(2) this]
  have "pushFunc j b = Ret (case receiver (jWild j @ [jTopic j]) b of None \<Rightarrow> ?b1 | Some (r, c) \<Rightarrow> deliver j r c ?b1)"
    using x(1) nb receiver_heap [of ?b1 b] by (simp add: pushFunc_def)
  moreover have "quietly b ?b1" using keep x(2) push_webhooks_rest [of j b] by (simp add: quietly_def)
  ultimately show ?thesis by blast
qed

lemma remove_first_middle:
  "\<not> (\<exists>x \<in> set (xs @ ys). P x) \<Longrightarrow> P m \<Longrightarrow> remove_first P (xs @ m # ys) = xs @ ys"
  by (auto simp: remove_first_append)

lemma remove_enqueued:
  assumes "ID m \<notin> ID ` set (queued t)"
  shows "remove_first (\<lambda>x. ID x = ID m) (queued (enqueue p m t)) = queued t"
proof -
  have "\<exists>xs ys. queued (enqueue p m t) = xs @ m # ys \<and> queued t = xs @ ys"
    unfolding enqueue_def queued_def
    by (auto intro: exI [of _ "HighMessages t"] exI [of _ "HighMessages t @ Messages t"]
        exI [of _ "HighMessages t @ Messages t @ LowMessages t"] exI [of _ "LowMessages t"])
  then obtain xs ys where q: "queued (enqueue p m t) = xs @ m # ys" "queued t = xs @ ys" by blast
  have "\<not> (\<exists>x \<in> set (xs @ ys). ID x = ID m)" using assms unfolding q(2) by (metis image_eqI)
  then show ?thesis unfolding q by (rule remove_first_middle) simp
qed

lemma deliver_facts:
  assumes i: "broker_inv b" and r: "r < length (heap b)" "jTopic j < length (heap b)"
    and w: "waitingConsumers (heap b ! r) = c # cs"
  shows "broker_inv (deliver j r c b)" and "buf (chans (deliver j r c b) ! c) = [jMsg j]"
    and "c \<notin># waits (deliver j r c b)"
    and "q < length (heap b) \<Longrightarrow> queued (heap (deliver j r c b) ! q) =
      (if q = jTopic j then remove_first (\<lambda>m. ID m = ID (jMsg j)) (queued (heap b ! q)) else queued (heap b ! q))"
proof -
  note s = send_waiting(1,2) [OF i r(1) w, of "jMsg j"]
  show di: "broker_inv (deliver j r c b)" unfolding deliver_def by (rule remove_inv [OF s(2)])
  show bf: "buf (chans (deliver j r c b) ! c) = [jMsg j]" using send_waiting(3) [OF i r(1) w] by (simp add: deliver_def)
  show "c \<notin># waits (deliver j r c b)"
  proof
    assume "c \<in># waits (deliver j r c b)"
    with di bf show False using chan_okD(2) [of "deliver j r c b" c] by (simp add: broker_inv_def)
  qed
  have "queued (t\<lparr>waitingConsumers := x\<rparr>) = queued t" for t x by (simp add: queued_def)
  then show "q < length (heap b) \<Longrightarrow> queued (heap (deliver j r c b) ! q) =
      (if q = jTopic j then remove_first (\<lambda>m. ID m = ID (jMsg j)) (queued (heap b ! q)) else queued (heap b ! q))"
    using r by (simp add: deliver_def popWaiting_def updTopic_def nth_list_update removeMessageByID_queued)
qed

lemma Publish_unbound:
  "publish_check n = None \<Longrightarrow> boundTopics n b = [] \<Longrightarrow>
   Publish now n req b = publish_local now n (req\<lparr>pReplication := False\<rparr>) b"
proof -
  assume "publish_check n = None" "boundTopics n b = []"
  moreover have "(11 :: nat) = Suc 10" by simp
  ultimately show ?thesis unfolding Publish_def by (simp only: publishCore.simps) simp
qed

text \<open>Publishing to an existing topic, up to the push.\<close>

lemma publish_local_existing:
  assumes "mget (Topics b) n = Some r" and "NewUUID (randOut b (randTick b)) = Some i"
    and "publish_local now n req b = Ret (None, b')"
  shows "\<exists>b1 b2. publish_enqueue now n req r (publish_message now n req (heap b ! r) i) b1 = Ret (None, b2)
    \<and> quiet b b1 \<and> heap b1 = heap b \<and> storage b1 = storage b
    \<and> (let j = \<lparr>jName = n, jTopic = r, jMsg = publish_message now n req (heap b ! r) i,
                 jWild = matchingWildcards n b, jBroadcast = pBroadcast req\<rparr> in
        if delayed now (jMsg j) then b' = b2\<lparr>jobs := jobs b2 @ [DelayedPush (the (pDeliverAt req)) j]\<rparr>
        else pushFunc j b2 = Ret b')"
proof -
  let ?b = "b\<lparr>randTick := Suc (randTick b)\<rparr>" and ?m = "publish_message now n req (heap b ! r) i"
  obtain e b1 where c: "callOnPublish n req ?b = (e, b1)" by (cases "callOnPublish n req ?b")
  have q: "quiet b b1" "heap b1 = heap b"
    using callOnPublish_quiet [OF c] quiet_trans [of b ?b b1] by simp_all
  have st: "storage b1 = storage b" using c by (auto simp: callOnPublish_def split: option.splits if_splits)
  have g: "getOrCreateTopic n b = (Some r, b)" using assms(1) by (simp add: getOrCreateTopic_def)
  from assms(3) have e: "e = None" by (auto simp: publish_local_def g assms(2) Let_def c split: option.splits)
  show ?thesis
  proof (cases "publish_enqueue now n req r ?m b1")
    case (Ret p)
    obtain err b2 where p2: "p = (err, b2)" by (cases p)
    from assms(3) have *: "(case err of Some e \<Rightarrow> Ret (Some e, b2)
      | None \<Rightarrow> (let j = \<lparr>jName = n, jTopic = r, jMsg = ?m, jWild = matchingWildcards n b,
                 jBroadcast = pBroadcast req\<rparr> in
           if delayed now ?m then Ret (None, b2\<lparr>jobs := jobs b2 @ [DelayedPush (the (pDeliverAt req)) j]\<rparr>)
           else bind_run (pushFunc j b2) (\<lambda>b. Ret (None, b)))) = Ret (None, b')"
      by (simp add: publish_local_def g assms(2) Let_def c e Ret p2)
    then have "err = None" by (cases err) auto
    with * Ret p2 q st show ?thesis
      by (intro exI [of _ b1] exI [of _ b2])
        (auto simp: Let_def split: if_splits, cases "pushFunc \<lparr>jName = n, jTopic = r, jMsg = ?m,
           jWild = matchingWildcards n b, jBroadcast = pBroadcast req\<rparr> b2", auto)
  qed (use assms(3) in \<open>auto simp: publish_local_def g assms(2) Let_def c e\<close>)
qed

lemma publish_enqueue_room:
  assumes "publish_enqueue now n req r m b = Ret (None, b')" and "totalActiveMessages (heap b ! r) < maxMessages b"
  shows "b' = updTopic r (enqueue (pPriority req) m) (if pBroadcast req then b else storePut now n m b)"
  using assms by (auto simp: publish_enqueue_def Let_def split: if_splits)

lemma publish_one_place:
  assumes "broker_inv b" and "publish_check n = None" and "boundTopics n b = []"
    and "mget (Topics b) n = Some r" and "totalActiveMessages (heap b ! r) < maxMessages b"
    and "NewUUID (randOut b (randTick b)) = Some i" and "i \<notin> ID ` set (queued (heap b ! r))"
    and "\<not> pBroadcast req" and "pDeliverAt req = None" and "Publish now n req b = Ret (None, b')"
  shows "Topics b' = Topics b" and "case receiver (matchingWildcards n b @ [r]) b of
       None \<Rightarrow> heap b' = (heap b)[r := enqueue (pPriority req) (publish_message now n req (heap b ! r) i) (heap b ! r)]
     | Some (w, c) \<Rightarrow> buf (chans b' ! c) = [publish_message now n req (heap b ! r) i] \<and> c \<notin># waits b'
          \<and> map queued (heap b') = map queued (heap b)"
proof -
  let ?req = "req\<lparr>pReplication := False\<rparr>" and ?m = "publish_message now n req (heap b ! r) i"
  have m: "publish_message now n ?req t i = publish_message now n req t i" for t by (simp add: publish_message_def)
  note inv = assms(1)
  have r: "r < length (heap b)" using inv assms(4) by (simp add: broker_inv_def refs_ok_def)
  have "publish_local now n ?req b = Ret (None, b')" using assms(10) Publish_unbound [OF assms(2,3)] by simp
  from publish_local_existing [OF assms(4,6) this, unfolded m]
  obtain b1 b2 where e: "publish_enqueue now n ?req r ?m b1 = Ret (None, b2)" and q: "quiet b b1" "heap b1 = heap b"
    and p: "pushFunc \<lparr>jName = n, jTopic = r, jMsg = ?m, jWild = matchingWildcards n b, jBroadcast = False\<rparr> b2 = Ret b'"
    using assms(8,9) by (auto simp: Let_def delayed_def publish_message_def)
  let ?j = "\<lparr>jName = n, jTopic = r, jMsg = ?m, jWild = matchingWildcards n b, jBroadcast = False\<rparr>"
  have b2: "heap b2 = (heap b)[r := enqueue (pPriority req) ?m (heap b ! r)]"
    using publish_enqueue_room [OF e] q assms(5,8) by (simp add: quiet_def updTopic_def)
  have i1: "broker_inv b1" using quiet_inv [OF q(1) inv] .
  have i2: "broker_inv b2" using publish_enqueue_ok [OF i1, of r now n ?req ?m] r q(2) e by auto
  have rs: "\<forall>r \<in> set (jTopic ?j # jWild ?j). r < length (heap b2)"
    using r matchingWildcards_refs [OF inv, of n] b2 by simp
  obtain b3 where b3: "quietly b2 b3" "b' = (case receiver (jWild ?j @ [jTopic ?j]) b2 of None \<Rightarrow> b3 | Some (r, c) \<Rightarrow> deliver ?j r c b3)"
    using pushFunc_receiver [OF i2 rs] p by auto
  have "waitingConsumers (heap b2 ! w) = waitingConsumers (heap b ! w)" for w
    using r by (cases "w = r") (simp_all add: b2 queue_simps)
  then have rec: "receiver ws b2 = receiver ws b" for ws by (induction ws) (simp_all split: list.split)
  have "Topics b2 = Topics b" using publish_enqueue_room [OF e] q assms(5,8) by (simp add: quiet_def)
  then show "Topics b' = Topics b"
    using b3 by (auto simp: quietly_def deliver_def popWaiting_def split: option.splits)
  show "case receiver (matchingWildcards n b @ [r]) b of
       None \<Rightarrow> heap b' = (heap b)[r := enqueue (pPriority req) (publish_message now n req (heap b ! r) i) (heap b ! r)]
     | Some (w, c) \<Rightarrow> buf (chans b' ! c) = [publish_message now n req (heap b ! r) i] \<and> c \<notin># waits b'
          \<and> map queued (heap b') = map queued (heap b)"
  proof (cases "receiver (matchingWildcards n b @ [r]) b")
    case None
    with b3 rec b2 show ?thesis by (simp add: quietly_def)
  next
    case (Some wc)
    obtain w c where wc: "wc = (w, c)" by (cases wc)
    with Some rec have "receiver (matchingWildcards n b @ [r]) b2 = Some (w, c)" by simp
    note rc = receiver_Some [OF this]
    have h3: "heap b3 = heap b2" "broker_inv b3" using b3(1) by (simp_all add: quietly_def)
    obtain cs where cs: "waitingConsumers (heap b3 ! w) = c # cs" using rc h3 by auto
    have w: "w < length (heap b3)" "jTopic ?j < length (heap b3)" using rc rs h3 by auto
    note d = deliver_facts [OF h3(2) w cs]
    have b': "b' = deliver ?j w c b3" using b3(2) Some rec wc by simp
    have "map queued (heap b') = map queued (heap b)"
    proof (rule nth_equalityI)
      fix q assume "q < length (map queued (heap b'))"
      then have q: "q < length (heap b3)" by (simp add: b' deliver_def updTopic_def popWaiting_def)
      then have "queued (heap b' ! q) = queued (heap b ! q)"
        using d(4) [OF q] r h3 assms(7) remove_enqueued [of ?m "heap b ! r" "pPriority req"]
        by (cases "q = r") (auto simp: b' b2 publish_message_def)
      then show "map queued (heap b') ! q = map queued (heap b) ! q"
        using q h3 b2 by (simp add: b' deliver_def updTopic_def popWaiting_def)
    qed (use h3 b2 in \<open>simp add: b' deliver_def updTopic_def popWaiting_def\<close>)
    then show ?thesis using Some wc d(2,3) by (simp add: b')
  qed
qed


text \<open>A broker with one topic, and the plain request to publish one byte.\<close>

definition one_topic :: "DiskStorage option \<Rightarrow> Broker" where
  "one_topic store = snd (CreateTopic ''q'' ''reject'' 0 (sample_broker store))"

definition plain_req :: publish_req where
  "plain_req = \<lparr>pPayload = [1], pHeaders = [], pPriority = ''normal'', pExpiresAt = None, pDeliverAt = None,
     pBroadcast = False, pReplication = False\<rparr>"

lemma one_topic_reach: "reach broker_init broker_step (one_topic store)"
  unfolding one_topic_def
  by (rule reach.step [OF reach.init [of broker_init, OF sample_broker_init]], rule broker_step.live,
      rule live_step.create, rule prod.collapse [symmetric])

lemma publish_q_returns: "case Publish 1 ''q'' plain_req (one_topic None) of Ret (e, b) \<Rightarrow> e = None | _ \<Rightarrow> False"
  by code_simp

definition q_published :: Broker where
  "q_published = (case Publish 1 ''q'' plain_req (one_topic None) of Ret (e, b) \<Rightarrow> b | _ \<Rightarrow> one_topic None)"

lemma q_published: "Publish 1 ''q'' plain_req (one_topic None) = Ret (None, q_published)"
  using publish_q_returns by (auto simp: q_published_def split: run.splits prod.splits)

lemma q_published_reach: "reach broker_init broker_step q_published"
  by (rule reach.step [OF one_topic_reach [of None]]) (rule broker_step.live, rule live_step.publish [OF q_published])


end
