(* ===== verification/BrokerLimits.thy ===== *)
theory BrokerLimits
  imports BrokerProps
begin

text \<open>
  The two limits of the broker: \<^verbatim>\<open>maxMessages\<close> on the queues of a topic, which publishing
  keeps, and \<^verbatim>\<open>maxTopics\<close> on the topics, which every operation of a running broker keeps.
\<close>

subsection \<open>The capacity of queues\<close>

text \<open>No queue grows.\<close>

definition shrinks :: "Broker \<Rightarrow> Broker \<Rightarrow> bool" where
  "shrinks b b' \<longleftrightarrow> length (heap b') = length (heap b) \<and> maxMessages b' = maxMessages b
     \<and> (\<forall>q < length (heap b). totalActiveMessages (heap b' ! q) \<le> totalActiveMessages (heap b ! q))"

definition cap_ok :: "Broker \<Rightarrow> bool" where
  "cap_ok b \<longleftrightarrow> 0 < maxMessages b \<and> (\<forall>t \<in> set (heap b). totalActiveMessages t \<le> maxMessages b)"

lemma shrinks_refl [simp]: "shrinks b b" by (simp add: shrinks_def)

lemma shrinks_trans: "shrinks a b \<Longrightarrow> shrinks b c \<Longrightarrow> shrinks a c"
  unfolding shrinks_def by (metis order_trans)

lemma shrinks_cap: "shrinks b b' \<Longrightarrow> cap_ok b \<Longrightarrow> cap_ok b'"
  unfolding shrinks_def cap_ok_def by (metis in_set_conv_nth order_trans)

lemma shrinks_same_heap: "heap b' = heap b \<Longrightarrow> maxMessages b' = maxMessages b \<Longrightarrow> shrinks b b'"
  by (simp add: shrinks_def)

lemma shrinks_updTopic:
  "totalActiveMessages (f (heap b ! r)) \<le> totalActiveMessages (heap b ! r) \<Longrightarrow> shrinks b (updTopic r f b)"
  by (cases "r < length (heap b)") (auto simp: shrinks_def updTopic_def nth_list_update list_update_beyond)

lemma total_removed: "totalActiveMessages (removeMessageByID t i) \<le> totalActiveMessages t"
  by (simp add: total_queued removeMessageByID_queued length_remove_first)

lemma total_waiting: "totalActiveMessages (t\<lparr>waitingConsumers := w\<rparr>) = totalActiveMessages t"
  by (simp add: totalActiveMessages_def)

lemma popWaiting_shrinks: "shrinks b (popWaiting r b)" and takeWaiting_shrinks: "shrinks b (takeWaiting r b)"
  unfolding popWaiting_def takeWaiting_def by (rule shrinks_updTopic, simp add: total_waiting)+

lemma trySend_shrinks: "trySend c m b = Sent b' \<Longrightarrow> shrinks b b'"
  by (drule trySend_frame) (rule shrinks_same_heap; simp)

lemma offers_shrinks: "fold_run (offer m) cs b = Ret b' \<Longrightarrow> shrinks b b'"
  using offers_frame [of m cs b b'] by (auto intro: shrinks_same_heap)

lemma fold_run_rel:
  assumes "\<And>x b b'. x \<in> set xs \<Longrightarrow> f x b = Ret b' \<Longrightarrow> E b b'" and "\<And>b. E b b" and "\<And>a b c. E a b \<Longrightarrow> E b c \<Longrightarrow> E a c"
  shows "fold_run f xs b = Ret b' \<Longrightarrow> E b b'"
  using assms(1)
proof (induction xs arbitrary: b)
  case Nil
  with assms(2) show ?case by simp
next
  case (Cons x xs)
  then obtain b1 where "f x b = Ret b1" "fold_run f xs b1 = Ret b'" by (cases "f x b") auto
  with Cons assms(3) show ?case by (metis list.set_intros(1,2))
qed

lemma push_spies_shrinks: "push_spies j b = Ret b' \<Longrightarrow> shrinks b b'"
  unfolding push_spies_def by (erule fold_run_rel [rotated 3]) (auto intro: offers_shrinks shrinks_trans)

lemma remove_shrinks: "shrinks b (updTopic r (\<lambda>t. removeMessageByID t i) b)"
  by (rule shrinks_updTopic) (rule total_removed)

lemma push_wild_shrinks: "push_wild j rs b = Ret (d, b') \<Longrightarrow> shrinks b b'"
proof (induction rs arbitrary: b)
  case (Cons r rs)
  show ?case
  proof (cases "waitingConsumers (heap b ! r)")
    case Nil
    with Cons show ?thesis by simp
  next
    case c: (Cons c cs)
    with Cons.prems obtain b1 where "trySend c (jMsg j) (popWaiting r b) = Sent b1"
      "b' = updTopic (jTopic j) (\<lambda>t. removeMessageByID t (ID (jMsg j))) b1"
      by (auto split: sent.splits)
    then show ?thesis
      using popWaiting_shrinks trySend_shrinks remove_shrinks shrinks_trans by metis
  qed
qed simp

lemma push_direct_shrinks: "push_direct j b = Ret b' \<Longrightarrow> shrinks b b'"
proof -
  assume p: "push_direct j b = Ret b'"
  show ?thesis
  proof (cases "waitingConsumers (heap b ! jTopic j)")
    case Nil
    with p show ?thesis by (simp add: push_direct_def)
  next
    case (Cons c cs)
    with p show ?thesis
      using popWaiting_shrinks [of b "jTopic j"] trySend_shrinks [of c "jMsg j" "popWaiting (jTopic j) b"]
        remove_shrinks shrinks_trans
      by (auto simp: push_direct_def split: sent.splits)
  qed
qed

lemma push_broadcast_shrinks: "shrinks b (push_broadcast j b)"
proof -
  have "shrinks b (snd (fold (\<lambda>r (cs, b). (cs @ waitingConsumers (heap b ! r), takeWaiting r b)) rs (cs, b)))" for rs cs
    by (induction rs arbitrary: cs b) (auto intro: shrinks_trans [OF takeWaiting_shrinks])
  from this [of "jWild j @ [jTopic j]" "[]"] show ?thesis
    by (auto simp: push_broadcast_def shrinks_def split: prod.splits simp del: fold_append)
qed

lemma pushFunc_shrinks: "pushFunc j b = Ret b' \<Longrightarrow> shrinks b b'"
proof -
  assume p: "pushFunc j b = Ret b'"
  have w: "shrinks b (push_webhooks j b)" using push_webhooks_rest [of j b] by (intro shrinks_same_heap) simp_all
  obtain b1 where s: "push_spies j (push_webhooks j b) = Ret b1"
    using p by (cases "push_spies j (push_webhooks j b)") (auto simp: pushFunc_def)
  have b1: "shrinks b b1" using shrinks_trans [OF w push_spies_shrinks [OF s]] .
  show ?thesis
  proof (cases "jBroadcast j")
    case True
    with p s b1 show ?thesis by (auto simp: pushFunc_def intro: shrinks_trans [OF _ push_broadcast_shrinks])
  next
    case False
    obtain d b2 where d: "push_wild j (jWild j) b1 = Ret (d, b2)"
      using p s False by (cases "push_wild j (jWild j) b1") (auto simp: pushFunc_def)
    with b1 have "shrinks b b2" by (blast intro: shrinks_trans push_wild_shrinks)
    with p s False d show ?thesis
      by (auto simp: pushFunc_def split: if_splits intro: shrinks_trans push_direct_shrinks)
  qed
qed

lemma cap_ok_updTopic:
  "cap_ok b \<Longrightarrow> totalActiveMessages (f (heap b ! r)) \<le> maxMessages b \<Longrightarrow> cap_ok (updTopic r f b)"
  by (auto simp: cap_ok_def updTopic_def dest!: subsetD [OF set_update_subset_insert])

text \<open>The ways through the locked section of a publish.\<close>

lemma publish_enqueue_cases:
  assumes "publish_enqueue now n req r m b = Ret (err, b')"
    and "b0 = (if pBroadcast req then b else storePut now n m b)"
  obtains (deleted) "err \<noteq> None" "b' = b"
    | (full) "err \<noteq> None" "b' = b0" "maxMessages b \<le> totalActiveMessages (heap b ! r)"
    | (room) "err = None" "totalActiveMessages (heap b ! r) < maxMessages b"
        "b' = updTopic r (enqueue (pPriority req) m) b0"
    | (drop) old t where "err = None" "evict (heap b ! r) = Some (old, t)"
        "b' = updTopic r (enqueue (pPriority req) m) (storeAck now n (ID old) (updTopic r (\<lambda>_. t) b0))"
proof -
  have b0: "heap b0 = heap b" "maxMessages b0 = maxMessages b" by (simp_all add: assms(2))
  note e = assms(1) [unfolded publish_enqueue_def Let_def assms(2) [symmetric] b0]
  show thesis
  proof (cases "Deleted (heap b ! r)")
    case True
    with e deleted show thesis by auto
  next
    case nd: False
    show thesis
    proof (cases "maxMessages b \<le> totalActiveMessages (heap b ! r)")
      case False
      with e nd room show thesis by auto
    next
      case True
      show thesis
      proof (cases "Policy (heap b ! r) = ''drop-oldest''")
        case False
        with e nd True full show thesis by auto
      next
        case p: True
        then obtain old t where ev: "evict (heap b ! r) = Some (old, t)"
          using e nd True by (cases "evict (heap b ! r)") auto
        with e nd True p drop show thesis by auto
      qed
    qed
  qed
qed

lemma publish_enqueue_cap:
  assumes "cap_ok b" and e: "publish_enqueue now n req r m b = Ret (err, b')" and "r < length (heap b)"
  shows "cap_ok b'"
proof -
  define b0 where "b0 = (if pBroadcast req then b else storePut now n m b)"
  have cb: "cap_ok b0" "heap b0 = heap b" "maxMessages b0 = maxMessages b"
    using assms(1) by (simp_all add: cap_ok_def b0_def)
  from e b0_def show ?thesis
  proof (cases rule: publish_enqueue_cases)
    case room
    then show ?thesis using cap_ok_updTopic [OF cb(1)] cb(2,3) by (simp add: queue_simps)
  next
    case (drop old t)
    let ?c = "storeAck now n (ID old) (updTopic r (\<lambda>_. t) b0)"
    have t: "totalActiveMessages t = totalActiveMessages (heap b ! r) - 1" using evict_spec(3) [OF drop(2)] .
    have le: "totalActiveMessages (heap b ! r) \<le> maxMessages b" using assms(1,3) by (simp add: cap_ok_def)
    have "cap_ok (updTopic r (\<lambda>_. t) b0)" using cap_ok_updTopic [OF cb(1)] t le cb(3) by simp
    then have "cap_ok ?c" by (simp add: cap_ok_def)
    moreover have "totalActiveMessages (enqueue (pPriority req) m (heap ?c ! r)) \<le> maxMessages ?c"
      using t le cb(2,3) assms(3) by (simp add: queue_simps updTopic_def)
    ultimately show ?thesis unfolding drop(3) by (rule cap_ok_updTopic)
  qed (use assms(1) cb in auto)
qed

lemma getOrCreate_cap:
  assumes "cap_ok b" and "getOrCreateTopic n b = (ro, b')"
  shows "cap_ok b'"
proof -
  have "b' = b \<or> (\<exists>p. b' = addTopic n (newTopic n [] p 0) b)"
    using assms(2) by (auto simp: getOrCreateTopic_def split: option.splits if_splits)
  then show ?thesis using assms(1) by (auto simp: cap_ok_def total_queued)
qed

lemma publish_local_cap:
  assumes i: "broker_inv b" and c: "cap_ok b" and p: "publish_local now n req b = Ret (e, b')"
  shows "cap_ok b'"
proof -
  obtain ro b1 where g: "getOrCreateTopic n b = (ro, b1)" by (cases "getOrCreateTopic n b")
  have c1: "cap_ok b1" using getOrCreate_cap [OF c g] .
  show ?thesis
  proof (cases ro)
    case None
    with p g c1 show ?thesis by (simp add: publish_local_def)
  next
    case (Some r)
    have r: "r < length (heap b1)" using getOrCreateTopic_ok(3) [OF i g Some] by simp
    obtain i' where u: "NewUUID (randOut b1 (randTick b1)) = Some i'"
      using p g Some by (cases "NewUUID (randOut b1 (randTick b1))") (auto simp: publish_local_def)
    let ?b2 = "b1\<lparr>randTick := Suc (randTick b1)\<rparr>" and ?m = "publish_message now n req (heap b1 ! r) i'"
    obtain e3 b3 where o: "callOnPublish n req ?b2 = (e3, b3)" by (cases "callOnPublish n req ?b2")
    have q3: "quiet ?b2 b3" "heap b3 = heap b1" using callOnPublish_quiet [OF o] by simp_all
    have c3: "cap_ok b3" using c1 q3 by (simp add: cap_ok_def quiet_def)
    show ?thesis
    proof (cases "publish_enqueue now n req r ?m b3")
      case (Ret x)
      obtain e4 b4 where x: "x = (e4, b4)" by (cases x)
      have c4: "cap_ok b4" using publish_enqueue_cap [OF c3 Ret [unfolded x]] r q3(2) by simp
      let ?j = "\<lparr>jName = n, jTopic = r, jMsg = ?m, jWild = matchingWildcards n b1, jBroadcast = pBroadcast req\<rparr>"
      have "b' = b3 \<or> b' = b4 \<or> (\<exists>js. b' = b4\<lparr>jobs := js\<rparr>) \<or> pushFunc ?j b4 = Ret b'"
        using p g Some u o Ret x
        by (cases "pushFunc ?j b4") (auto simp: publish_local_def Let_def split: option.splits if_splits)
      then show ?thesis using c3 c4 shrinks_cap [OF pushFunc_shrinks] by (auto simp: cap_ok_def)
    qed (use p g Some u o c3 in \<open>auto simp: publish_local_def Let_def split: option.splits\<close>)
  qed
qed

lemma publishCore_cap:
  "broker_inv b \<Longrightarrow> cap_ok b \<Longrightarrow> publishCore k now n req b = Ret (e, b') \<Longrightarrow> cap_ok b'"
proof (induction k arbitrary: n b e b')
  case (Suc k)
  let ?f = "\<lambda>dest b. bind_run (publishCore k now dest req b) (\<lambda>(_, b). Ret b)"
  have step: "\<exists>b'. ?f x b = Ret b' \<and> (broker_inv b' \<and> cap_ok b') \<and> True" if "broker_inv b \<and> cap_ok b" for x b
    using publishCore_ok [of b k now x req] Suc.IH [of b x] that by auto
  have "\<exists>b'. fold_run ?f (boundTopics n b) b = Ret b' \<and> (broker_inv b' \<and> cap_ok b') \<and> True"
    using step Suc.prems(1,2)
    by (intro fold_run_ok [where I = "\<lambda>b. broker_inv b \<and> cap_ok b" and E = "\<lambda>_ _. True"]) auto
  then obtain b1 where b1: "fold_run ?f (boundTopics n b) b = Ret b1" "broker_inv b1" "cap_ok b1" by blast
  with Suc.prems show ?case
    by (cases "publish_check n") (auto intro: publish_local_cap)
qed simp

text \<open>
  C9: The capacity of queues. In a reachable state in which no topic holds more than
  \<^verbatim>\<open>maxMessages\<close> messages over its three priorities, no publish, with all the consumer groups it
  feeds, makes any topic exceed that number, whether the topic rejects or drops the oldest.
\<close>

theorem publish_keeps_capacity:
  assumes "reach broker_init broker_step b" and "\<forall>t \<in> set (heap b). totalActiveMessages t \<le> maxMessages b"
    and "Publish now n req b = Ret (e, b')"
  shows "\<forall>t \<in> set (heap b'). totalActiveMessages t \<le> maxMessages b'"
proof -
  have i: "broker_inv b" using assms(1) by (rule brk.inv_reach)
  then have "cap_ok b" using assms(2) by (simp add: cap_ok_def broker_inv_def)
  from publishCore_cap [OF i this assms(3) [unfolded Publish_def]] show ?thesis by (simp add: cap_ok_def)
qed

theorem publish_keeps_capacity_witness:
  "\<exists>b'. Publish 1 ''q'' plain_req (one_topic None) = Ret (None, b')
     \<and> (\<forall>t \<in> set (heap b'). totalActiveMessages t \<le> maxMessages b')"
proof -
  obtain b' where p: "Publish 1 ''q'' plain_req (one_topic None) = Ret (None, b')"
    using publish_q_returns by (auto split: run.splits prod.splits)
  have "\<forall>t \<in> set (heap (one_topic None)). totalActiveMessages t \<le> maxMessages (one_topic None)" by code_simp
  from publish_keeps_capacity [OF one_topic_reach this p] p show ?thesis by blast
qed

subsection \<open>The number of topics\<close>

definition lim_ok :: "Broker \<Rightarrow> bool" where
  "lim_ok b \<longleftrightarrow> int (length (Topics b)) \<le> maxTopics b"

lemma lim_same: "Topics b' = Topics b \<Longrightarrow> maxTopics b' = maxTopics b \<Longrightarrow> lim_ok b' = lim_ok b"
  by (simp add: lim_ok_def)

lemma lim_quiet: "quiet b b' \<Longrightarrow> lim_ok b' = lim_ok b"
  by (simp add: lim_ok_def quiet_def)

lemma lim_size: "same_size b b' \<Longrightarrow> lim_ok b' = lim_ok b"
  by (simp add: lim_ok_def same_size_def)

lemma lim_addTopic:
  "int (length (Topics b)) < maxTopics b \<Longrightarrow> lim_ok (addTopic n t b)"
  using length_mput_le [of n "length (heap b)" "Topics b"] by (simp add: lim_ok_def)

lemma lim_getOrCreate: "getOrCreateTopic n b = (ro, b') \<Longrightarrow> lim_ok b \<Longrightarrow> lim_ok b'"
  by (auto simp: getOrCreateTopic_def split: option.splits if_splits intro: lim_addTopic)

lemma lim_publish_local:
  assumes i: "broker_inv b" and l: "lim_ok b" and p: "publish_local now n req b = Ret (e, b')"
  shows "lim_ok b'"
proof -
  obtain ro b1 where g: "getOrCreateTopic n b = (ro, b1)" by (cases "getOrCreateTopic n b")
  note ok1 = getOrCreateTopic_ok [OF i g]
  have l1: "lim_ok b1" using lim_getOrCreate [OF g l] .
  show ?thesis
  proof (cases ro)
    case None
    with p g l1 show ?thesis by (simp add: publish_local_def)
  next
    case (Some r)
    have r: "r < length (heap b1)" using ok1(3) [OF Some] by simp
    obtain i' where u: "NewUUID (randOut b1 (randTick b1)) = Some i'"
      using p g Some by (cases "NewUUID (randOut b1 (randTick b1))") (auto simp: publish_local_def)
    let ?b2 = "b1\<lparr>randTick := Suc (randTick b1)\<rparr>" and ?m = "publish_message now n req (heap b1 ! r) i'"
    obtain e3 b3 where o: "callOnPublish n req ?b2 = (e3, b3)" by (cases "callOnPublish n req ?b2")
    have q3: "quiet b1 b3" "heap b3 = heap b1"
      using callOnPublish_quiet [OF o] quiet_trans [of b1 ?b2 b3] by simp_all
    have l3: "lim_ok b3" "broker_inv b3" using l1 lim_quiet [OF q3(1)] quiet_inv [OF q3(1) ok1(1)] by simp_all
    obtain e4 b4 where x: "publish_enqueue now n req r ?m b3 = Ret (e4, b4)" "broker_inv b4" "same_size b3 b4"
      using publish_enqueue_ok [OF l3(2)] r q3(2) by (metis (no_types, lifting))
    have l4: "lim_ok b4" using l3(1) lim_size [OF x(3)] by simp
    let ?j = "\<lparr>jName = n, jTopic = r, jMsg = ?m, jWild = matchingWildcards n b1, jBroadcast = pBroadcast req\<rparr>"
    have jr: "\<forall>r \<in> set (jTopic ?j # jWild ?j). r < length (heap b4)"
      using r q3(2) x(3) matchingWildcards_refs [OF ok1(1), of n] by (simp add: same_size_def)
    obtain b5 where f: "pushFunc ?j b4 = Ret b5" "same_size b4 b5" using pushFunc_ok [OF x(2) jr] by blast
    have "b' = b3 \<or> b' = b4 \<or> (\<exists>js. b' = b4\<lparr>jobs := js\<rparr>) \<or> b' = b5"
      using p g Some u o x(1) f(1) by (auto simp: publish_local_def Let_def split: option.splits if_splits)
    then show ?thesis using l3 l4 lim_size [OF f(2)] by (auto simp: lim_ok_def)
  qed
qed

lemma lim_publishCore:
  "broker_inv b \<Longrightarrow> lim_ok b \<Longrightarrow> publishCore k now n req b = Ret (e, b') \<Longrightarrow> lim_ok b'"
proof (induction k arbitrary: n b e b')
  case (Suc k)
  let ?f = "\<lambda>dest b. bind_run (publishCore k now dest req b) (\<lambda>(_, b). Ret b)"
  have step: "\<exists>b'. ?f x b = Ret b' \<and> (broker_inv b' \<and> lim_ok b') \<and> True" if "broker_inv b \<and> lim_ok b" for x b
    using publishCore_ok [of b k now x req] Suc.IH [of b x] that by auto
  have "\<exists>b'. fold_run ?f (boundTopics n b) b = Ret b' \<and> (broker_inv b' \<and> lim_ok b') \<and> True"
    using step Suc.prems(1,2)
    by (intro fold_run_ok [where I = "\<lambda>b. broker_inv b \<and> lim_ok b" and E = "\<lambda>_ _. True"]) auto
  then obtain b1 where b1: "fold_run ?f (boundTopics n b) b = Ret b1" "broker_inv b1" "lim_ok b1" by blast
  with Suc.prems show ?case
    by (cases "publish_check n") (auto intro: lim_publish_local)
qed simp

lemma lim_redrive:
  "broker_inv b \<Longrightarrow> lim_ok b \<Longrightarrow> redrive now d n ms j b = Ret (k, b') \<Longrightarrow> lim_ok b'"
proof (induction ms arbitrary: j b)
  case (Cons m ms)
  let ?r = "\<lparr>pPayload = Payload m, pHeaders = Headers m, pPriority = ''normal'', pExpiresAt = ExpiresAt m,
     pDeliverAt = None, pBroadcast = False, pReplication = False\<rparr>"
  have i: "broker_inv (storeAck now d (ID m) b)" using quiet_inv [OF storeAck_quiet Cons.prems(1)] .
  obtain e b1 where p: "publishCore 11 now n ?r (storeAck now d (ID m) b) = Ret (e, b1)" "broker_inv b1"
    using publishCore_ok [OF i] by blast
  have "lim_ok b1" using lim_publishCore [OF i _ p(1)] Cons.prems(2) lim_quiet [OF storeAck_quiet] by blast
  with Cons.IH [OF p(2)] Cons.prems(3) p(1) show ?case by simp
qed simp

lemma lim_Requeue: "lim_ok b \<Longrightarrow> Requeue now m b = Ret b' \<Longrightarrow> lim_ok b'"
proof -
  assume l: "lim_ok b" and q: "Requeue now m b = Ret b'"
  let ?m = "requeued m" let ?n = "Topic (requeued m)"
  obtain ro b1 where g: "getOrCreateTopic ?n b = (ro, b1)" by (cases "getOrCreateTopic ?n b")
  have l1: "lim_ok b1" using lim_getOrCreate [OF g l] .
  show ?thesis
  proof (cases ro)
    case None
    with q g l1 show ?thesis by (simp add: Requeue_def Let_def)
  next
    case (Some r)
    have "Topics b' = Topics b1 \<and> maxTopics b' = maxTopics b1"
      using q g Some
      by (auto simp: Requeue_def Let_def storePut_def dest!: trySend_frame split: list.splits sent.splits option.splits)
    then show ?thesis using l1 lim_same by blast
  qed
qed

lemma lim_Consume:
  assumes l: "lim_ok b" and e: "Consume now n limit c b = (res, b')"
  shows "lim_ok b'"
proof (cases "0 < length n \<and> \<not> IsValidTopicName n")
  case True
  with l e show ?thesis by (simp add: Consume_def)
next
  case False
  obtain ro b1 where g: "getOrCreateTopic n b = (ro, b1)" by (cases "getOrCreateTopic n b")
  have l1: "lim_ok b1" using lim_getOrCreate [OF g l] .
  show ?thesis
  proof (cases ro)
    case None
    with e g l1 False show ?thesis by (auto simp: Consume_def)
  next
    case (Some r)
    obtain rs b2 where x: "extractFirst now limit (matchingTopics n b1) b1 = (rs, b2)"
      by (cases "extractFirst now limit (matchingTopics n b1) b1")
    have l2: "lim_ok b2" using l1 lim_quiet [OF extractFirst_quiet [OF x]] by simp
    obtain rs3 ids t where m: "extractMessages now (heap b2 ! r) limit = (rs3, ids, t)"
      by (cases "extractMessages now (heap b2 ! r) limit")
    have "Topics b' = Topics b2 \<and> maxTopics b' = maxTopics b2"
      using e False g Some x m by (auto simp: Consume_def Let_def split: if_splits)
    then show ?thesis using l2 lim_same by blast
  qed
qed

lemma lim_RedriveDLQ:
  assumes i: "broker_inv b" and l: "lim_ok b" and q: "RedriveDLQ now n b = Ret (res, b')"
  shows "lim_ok b'"
proof -
  let ?d = "if HasSuffix n ''.dlq'' then n else n @ ''.dlq''"
  let ?t = "if HasSuffix n ''.dlq'' then TrimSuffix n ''.dlq'' else n"
  show ?thesis
  proof (cases "\<exists>r. mget (Topics b) ?d = Some r \<and> Messages (heap b ! r) \<noteq> []")
    case False
    then have "b' = b" using q by (auto simp: RedriveDLQ_def Let_def split: option.splits)
    with l show ?thesis by simp
  next
    case True
    then obtain r where r: "mget (Topics b) ?d = Some r" "Messages (heap b ! r) \<noteq> []" by blast
    let ?b = "updTopic r (\<lambda>t. t\<lparr>Messages := []\<rparr>) b"
    have q': "quiet b ?b" by (rule quiet_updTopic) (simp add: tcore_def)
    obtain k b1 where k: "redrive now ?d ?t (Messages (heap b ! r)) 0 ?b = Ret (k, b1)"
      using redrive_ok [OF quiet_inv [OF q' i]] by blast
    have "lim_ok b1" using lim_redrive [OF quiet_inv [OF q' i] _ k] l lim_quiet [OF q'] by simp
    moreover have "b' = b1" using q r k by (simp add: RedriveDLQ_def Let_def del: redrive.simps)
    ultimately show ?thesis by simp
  qed
qed

lemma lim_admin:
  "lim_ok b \<Longrightarrow> CreateTopic n p d b = (e, b') \<Longrightarrow> lim_ok b'"
  "lim_ok b \<Longrightarrow> DeleteTopic n b = (e, b') \<Longrightarrow> lim_ok b'"
  "lim_ok b \<Longrightarrow> AddSpy n b = (r, b') \<Longrightarrow> lim_ok b'"
  "lim_ok b \<Longrightarrow> CreateGroup n g b = (r', b') \<Longrightarrow> lim_ok b'"
proof -
  show "lim_ok b \<Longrightarrow> CreateTopic n p d b = (e, b') \<Longrightarrow> lim_ok b'"
    unfolding CreateTopic_def by (simp split: if_split_asm) (auto intro: lim_addTopic)
  show "lim_ok b \<Longrightarrow> DeleteTopic n b = (e, b') \<Longrightarrow> lim_ok b'"
    using length_mdel_le [of n "Topics b"]
    by (auto simp: DeleteTopic_def Let_def lim_ok_def split: option.splits)
  show "lim_ok b \<Longrightarrow> AddSpy n b = (r, b') \<Longrightarrow> lim_ok b'"
    using lim_getOrCreate [of n b]
    by (auto simp: AddSpy_def newChan_def lim_ok_def split: if_splits option.splits prod.splits)
  show "lim_ok b \<Longrightarrow> CreateGroup n g b = (r', b') \<Longrightarrow> lim_ok b'"
    using lim_getOrCreate [of "n @ ''::'' @ g" "addBinding n (n @ ''::'' @ g) b"] lim_quiet [OF addBinding_quiet, of n "n @ ''::'' @ g" b]
    by (auto simp: CreateGroup_def Let_def lim_ok_def split: if_splits option.splits prod.splits)
qed

lemma lim_runJob: "broker_inv b \<Longrightarrow> lim_ok b \<Longrightarrow> jobs b = xs @ j # ys \<Longrightarrow> runJob j (b\<lparr>jobs := xs @ ys\<rparr>) = Ret b' \<Longrightarrow> lim_ok b'"
proof -
  assume i: "broker_inv b" and l: "lim_ok b" and j: "jobs b = xs @ j # ys" and q: "runJob j (b\<lparr>jobs := xs @ ys\<rparr>) = Ret b'"
  show "lim_ok b'"
  proof (cases j)
    case (DelayedPush t p)
    have "\<forall>r \<in> set (jTopic p # jWild p). r < length (heap (b\<lparr>jobs := xs @ ys\<rparr>))"
      using i j DelayedPush by (auto simp: broker_inv_def refs_ok_def)
    from pushFunc_ok [OF job_removed(2) [OF i j] this] q DelayedPush
    have "same_size (b\<lparr>jobs := xs @ ys\<rparr>) b'" by auto
    with l show ?thesis by (auto simp: lim_ok_def same_size_def)
  next
    case (BroadcastSend cs m)
    with q offers_frame [of m cs "b\<lparr>jobs := xs @ ys\<rparr>" b'] l show ?thesis by (auto simp: lim_ok_def)
  next
    case (WebhookCall w p)
    with q l show ?thesis by (auto simp: lim_ok_def)
  qed
qed

lemma lim_purgeExpired: "lim_ok b \<Longrightarrow> lim_ok (purgeExpiredMessages now b)"
proof -
  have "quiet b (fold (purgeAt now) rs b)" for rs b
    by (induction rs arbitrary: b) (auto intro: quiet_trans [OF purgeAt_quiet])
  then show "lim_ok b \<Longrightarrow> lim_ok (purgeExpiredMessages now b)"
    using lim_quiet unfolding purgeExpiredMessages_def by blast
qed

lemma lim_stops:
  "lim_ok b \<Longrightarrow> lim_ok (RemoveWaitingConsumer n c b)" "lim_ok b \<Longrightarrow> lim_ok (RemoveSpy n c b)"
  "lim_ok b \<Longrightarrow> lim_ok (receive c b)" "lim_ok b \<Longrightarrow> lim_ok (b\<lparr>storage := s\<rparr>)"
  "lim_ok b \<Longrightarrow> reordered b b' \<Longrightarrow> lim_ok b'"
  by (auto simp: lim_ok_def RemoveWaitingConsumer_def RemoveSpy_def closeChan_def receive_def reordered_def
      dest: mset_eq_length split: option.split)

lemma lim_live_step: "live_step b b' \<Longrightarrow> broker_inv b \<Longrightarrow> lim_ok b \<Longrightarrow> lim_ok b'"
proof (induction rule: live_step.induct)
  case (publish now n req b e b')
  then show ?case using lim_publishCore unfolding Publish_def by blast
next
  case (publish_replicated now n payload b e b')
  then show ?case using lim_publishCore unfolding PublishReplicated_def by blast
next
  case (consume k b c b1 now n limit res b')
  then have "lim_ok b1" by (auto simp: newChan_def lim_ok_def)
  with consume show ?case using lim_Consume by blast
next
  case (requeue now m b b')
  then show ?case using lim_Requeue by blast
next
  case (redrive now n b res b')
  then show ?case using lim_RedriveDLQ by blast
next
  case (job b xs j ys b')
  then show ?case using lim_runJob by blast
next
  case (ack now n i b res b')
  then show ?case using lim_quiet [OF Ack_quiet] by blast
next
  case (webhook n u s b e b')
  then show ?case using lim_quiet [OF RegisterWebhook_quiet] by blast
next
  case (purge n b e b')
  then show ?case using lim_quiet [OF Purge_quiet] by blast
next
  case (idempotent now key b x b')
  then show ?case using lim_quiet [OF IsIdempotent_quiet] by blast
qed (blast intro: lim_stops lim_admin lim_purgeExpired)+

interpretation lim: invariant_system broker_init live_step "\<lambda>b. broker_inv b \<and> lim_ok b"
proof
  fix b assume "broker_init b"
  moreover have "0 \<le> env_limit 10000 v" for v using env_limit_pos [of 10000 v] by simp
  ultimately show "broker_inv b \<and> lim_ok b"
    using broker_init_inv [of b] by (auto simp: broker_init_def broker_New_def lim_ok_def)
next
  fix b b' assume "broker_inv b \<and> lim_ok b" "live_step b b'"
  then show "broker_inv b' \<and> lim_ok b'" using live_step_inv lim_live_step by blast
qed

text \<open>
  C13: The number of topics stays within the limit \<^verbatim>\<open>maxTopics\<close> of the configuration through
  every sequence of operations of a running broker: no publish, consume, spy, requeue,
  consumer group or administrative call creates a topic beyond it.
\<close>

theorem topics_within_limit:
  assumes "reach broker_init live_step b"
  shows "int (length (Topics b)) \<le> maxTopics b"
  using lim.inv_reach [OF assms] by (simp add: lim_ok_def)

theorem topics_within_limit_witness:
  "int (length (Topics (snd (AddSpy ''a*'' (sample_broker None))))) \<le> maxTopics (snd (AddSpy ''a*'' (sample_broker None)))"
proof (rule topics_within_limit)
  show "reach broker_init live_step (snd (AddSpy ''a*'' (sample_broker None)))"
    by (rule reach.step [OF reach.init [of broker_init, OF sample_broker_init]], rule live_step.add_spy,
        rule prod.collapse [symmetric])
qed

end
