(* ===== verification/BrokerQueues.thy ===== *)
theory BrokerQueues
  imports BrokerProps
begin

text \<open>
  Consuming, acknowledging, requeueing, inspecting and emptying queues, and the keys that
  make a publish idempotent.
\<close>

subsection \<open>Consuming and acknowledging\<close>

lemma ackExpired_storage:
  "storage (ackExpired now n ids b) = map_option (\<lambda>s. fold (\<lambda>i s. snd (AppendAck now n i s)) ids s) (storage b)"
proof (induction ids arbitrary: b)
  case Nil
  then show ?case by (simp add: ackExpired_def option.map_id [unfolded id_def])
next
  case (Cons i ids)
  have "ackExpired now n (i # ids) b = ackExpired now n ids (storeAck now n i b)" by (simp add: ackExpired_def)
  with Cons [of "storeAck now n i b"] show ?case by (cases "storage b") (simp_all add: storeAck_def)
qed

text \<open>The effect of \<^verbatim>\<open>Consume\<close> on one existing topic that is not a wildcard.\<close>

lemma Consume_plain:
  assumes "\<not> Contains n ''*''" and "n = [] \<or> IsValidTopicName n" and "mget (Topics b) n = Some r"
    and "extractMessages now (heap b ! r) limit = (msgs, ids, t)"
  shows "Consume now n limit c b = ((msgs, msgs \<noteq> []),
     ackExpired now (Name t) ids (updTopic r (\<lambda>_. if msgs = [] then t\<lparr>waitingConsumers := waitingConsumers t @ [c]\<rparr> else t) b))"
proof -
  have "getOrCreateTopic n b = (Some r, b)" using assms(3) by (simp add: getOrCreateTopic_def)
  with assms show ?thesis by (auto simp: Consume_def matchingTopics_def Let_def)
qed

lemma consume_spec:
  assumes "broker_inv b" and "\<not> Contains n ''*''" and "n = [] \<or> IsValidTopicName n"
    and "mget (Topics b) n = Some r" and "Consume now n limit c b = ((msgs, ok), b')"
  shows "msgs = take (nat limit) (filter (deliverable now) (queued (heap b ! r))) \<and> ok = (msgs \<noteq> [])
    \<and> (\<exists>ids. split_off now (queued (heap b ! r)) msgs (queued (heap b' ! r)) ids
         \<and> storage b' = map_option (\<lambda>s. fold (\<lambda>i s. snd (AppendAck now n i s)) ids s) (storage b))
    \<and> waitingConsumers (heap b' ! r) = waitingConsumers (heap b ! r) @ (if msgs = [] then [c] else [])
    \<and> (\<forall>q. q \<noteq> r \<longrightarrow> heap b' ! q = heap b ! q)"
proof -
  note inv = assms(1)
  have r: "r < length (heap b)" "Name (heap b ! r) = n"
    using inv assms(4) by (simp_all add: broker_inv_def refs_ok_def)
  obtain ms ids t where x: "extractMessages now (heap b ! r) limit = (ms, ids, t)"
    by (cases "extractMessages now (heap b ! r) limit")
  let ?t = "if ms = [] then t\<lparr>waitingConsumers := waitingConsumers t @ [c]\<rparr> else t"
  have eq: "msgs = ms" "ok = (ms \<noteq> [])" "b' = ackExpired now (Name t) ids (updTopic r (\<lambda>_. ?t) b)"
    using Consume_plain [OF assms(2-4) x, of c] assms(5) by simp_all
  note sp = extractMessages_spec [OF x]
  have tc: "Name t = n" "waitingConsumers t = waitingConsumers (heap b ! r)"
    using tcore_extract [OF x] r(2) by (simp_all add: tcore_def)
  have h: "heap b' ! r = ?t" "q \<noteq> r \<Longrightarrow> heap b' ! q = heap b ! q" for q
    using r(1) by (simp_all add: eq(3) updTopic_def)
  have "queued ?t = queued t" by (simp add: queued_def)
  moreover have "storage b' = map_option (\<lambda>s. fold (\<lambda>i s. snd (AppendAck now n i s)) ids s) (storage b)"
    by (simp add: eq(3) ackExpired_storage tc(1))
  ultimately show ?thesis
    using sp(1,2) eq(1,2) h tc(2) by auto
qed


lemma consume_q:
  "mget (Topics q_published) ''q'' = Some 0"
  "case Consume 2 ''q'' 1 0 q_published of ((ms, ok), b') \<Rightarrow> map Payload ms = [[1]] \<and> ok"
  by code_simp+


lemma ack_spec:
  assumes "reach broker_init broker_step b" and "mget (Topics b) n = Some r" and "Ack now n i b = (found, b')"
  shows "found = (i \<in> ID ` set (queued (heap b ! r)))
    \<and> queued (heap b' ! r) = remove_first (\<lambda>m. ID m = i) (queued (heap b ! r))
    \<and> (if found then storage b' = map_option (\<lambda>s. snd (AppendAck now n i s)) (storage b) else b' = b)"
proof -
  have r: "r < length (heap b)"
    using brk.inv_reach [OF assms(1)] assms(2) by (simp add: broker_inv_def refs_ok_def)
  obtain f t where a: "ackFrom (heap b ! r) i = (f, t)" by (cases "ackFrom (heap b ! r) i")
  have f: "f = (i \<in> ID ` set (queued (heap b ! r)))" "queued t = remove_first (\<lambda>m. ID m = i) (queued (heap b ! r))"
    using ackFrom_queued [of "heap b ! r" i] a by (simp_all add: hasID_iff)
  show ?thesis
  proof (cases f)
    case True
    then have "found" "b' = storeAck now n i (updTopic r (\<lambda>_. t) b)" using assms(2,3) a by (auto simp: Ack_def)
    with f True r show ?thesis
      by (cases "storage b") (auto simp: storeAck_def updTopic_def)
  next
    case False
    then have "\<not> found" "b' = b" using assms(2,3) a by (auto simp: Ack_def)
    moreover have "remove_first (\<lambda>m. ID m = i) (queued (heap b ! r)) = queued (heap b ! r)"
      using False f(1) by (intro no_ID_remove_first) (simp add: hasID_iff)
    ultimately show ?thesis using f(1) False by simp
  qed
qed

text \<open>
  C19: \<^verbatim>\<open>Ack\<close> answers whether the topic has a queued message with the identifier. If it has,
  the first such message, in the order of service, is removed from the queue and an ACK
  record goes to the log; if not, nothing changes at all.
\<close>

theorem ack_removes_one_message:
  assumes "reach broker_init broker_step b" and "mget (Topics b) n = Some r" and "Ack now n i b = (found, b')"
  shows "found = (i \<in> ID ` set (queued (heap b ! r)))
    \<and> queued (heap b' ! r) = remove_first (\<lambda>m. ID m = i) (queued (heap b ! r))
    \<and> (if found then storage b' = map_option (\<lambda>s. snd (AppendAck now n i s)) (storage b) else b' = b)"
  by (rule ack_spec [OF assms])

theorem ack_removes_one_message_witness:
  "fst (Ack 5 ''q'' ''00000000-0000-4000-8000-000000000000'' q_published)
   \<and> queued (heap (snd (Ack 5 ''q'' ''00000000-0000-4000-8000-000000000000'' q_published)) ! 0) = []"
proof -
  let ?i = "''00000000-0000-4000-8000-000000000000''"
  have "map ID (queued (heap q_published ! 0)) = [?i]" by code_simp
  then obtain m where "queued (heap q_published ! 0) = [m]" "ID m = ?i" by (auto simp: map_eq_Cons_conv)
  moreover note ack_removes_one_message [OF q_published_reach consume_q(1) prod.collapse [symmetric], of 5 ?i]
  ultimately show ?thesis by simp
qed

subsection \<open>Idempotency keys\<close>

lemma length_filter_keys: "length (filter P (xs :: ('a \<times> 'b) list)) \<le> length xs"
  by (rule length_filter_le)



subsection \<open>Requeueing and dead letters\<close>

text \<open>
  C20: Requeueing. A message that comes back for the first or second time goes to the end of
  the normal queue of its own topic, and to the dead letter topic, whose name is the topic's with
  \<^verbatim>\<open>.dlq\<close>, from the third time on; its retry count goes up by one (a negative count starts at
  zero) as long as it is below the largest \<^verbatim>\<open>int\<close>. A waiting consumer of that topic receives it
  instead.
\<close>

theorem requeue_counts_and_dead_letters:
  assumes "reach broker_init broker_step b" and "RetryCount m < 2 ^ 63 - 1"
    and "dest = (if 2 \<le> RetryCount m then Topic m @ ''.dlq'' else Topic m)"
    and "m' = m\<lparr>RetryCount := max 0 (RetryCount m) + 1, Topic := dest\<rparr>"
    and "mget (Topics b) dest = Some r" and "Requeue now m b = Ret b'"
  shows "case waitingConsumers (heap b ! r) of
       [] \<Rightarrow> heap b' = (heap b)[r := (heap b ! r)\<lparr>Messages := Messages (heap b ! r) @ [m']\<rparr>]
     | c # cs \<Rightarrow> buf (chans b' ! c) = [m'] \<and> waitingConsumers (heap b' ! r) = cs \<and> map queued (heap b') = map queued (heap b)"
proof -
  have inv: "broker_inv b" using assms(1) by (rule brk.inv_reach)
  have r: "r < length (heap b)" using inv assms(5) by (simp add: broker_inv_def refs_ok_def)
  have w: "wrap64 (max 0 (RetryCount m) + 1) = max 0 (RetryCount m) + 1"
    using assms(2) by (intro wrap64_id) auto
  have m': "requeued m = m'"
    using w unfolding assms(3,4) by (auto simp: requeued_def Let_def max_def split: if_splits)
  have n: "Topic m' = dest" by (simp add: assms(4))
  have g: "getOrCreateTopic dest b = (Some r, b)" using assms(5) by (simp add: getOrCreateTopic_def)
  have inv': "broker_inv (storePut now dest m' b)" using quiet_inv [OF storePut_quiet inv] .
  show ?thesis
  proof (cases "waitingConsumers (heap b ! r)")
    case Nil
    with assms(6) have "b' = updTopic r (\<lambda>t. t\<lparr>Messages := Messages t @ [m']\<rparr>) (storePut now dest m' b)"
      by (simp add: Requeue_def Let_def m' n g)
    with Nil show ?thesis by (simp add: updTopic_def)
  next
    case (Cons c cs)
    let ?b = "storePut now dest m' b"
    have c: "waitingConsumers (heap ?b ! r) = c # cs" using Cons by simp
    have rb: "r < length (heap ?b)" using r by simp
    note s = send_waiting(1,2) [OF inv' rb c, of m']
    have b': "b' = (popWaiting r ?b)\<lparr>chans := (chans ?b)[c := (chans ?b ! c)\<lparr>buf := [m']\<rparr>]\<rparr>"
      using assms(6) s(1) Cons by (simp add: Requeue_def Let_def m' n g)
    have "map queued (heap b') = map queued (heap b)"
      by (simp add: b' popWaiting_def updTopic_def) (rule map_list_update_same, simp add: queued_def)
    moreover have "buf (chans b' ! c) = [m']" using send_waiting(3) [OF inv' rb c] by (simp add: b')
    moreover have "waitingConsumers (heap b' ! r) = cs" using r Cons by (simp add: b' popWaiting_def updTopic_def)
    ultimately show ?thesis using Cons by simp
  qed
qed

definition dlq_broker :: Broker where
  "dlq_broker = snd (CreateTopic ''q.dlq'' ''reject'' 0 (one_topic None))"

lemma dlq_broker_reach: "reach broker_init broker_step dlq_broker"
  unfolding dlq_broker_def
  by (rule reach.step [OF one_topic_reach [of None]], rule broker_step.live, rule live_step.create,
      rule prod.collapse [symmetric])

theorem requeue_counts_and_dead_letters_witness:
  "\<exists>b'. Requeue 7 ((sample_message ''a'')\<lparr>RetryCount := 2\<rparr>) dlq_broker = Ret b'
     \<and> map queued (heap b') = [[], [(sample_message ''a'')\<lparr>RetryCount := 3, Topic := ''q.dlq''\<rparr>]]"
proof -
  let ?m = "(sample_message ''a'')\<lparr>RetryCount := 2\<rparr>"
  obtain b' where q: "Requeue 7 ?m dlq_broker = Ret b'"
    using Requeue_ok [OF brk.inv_reach [OF dlq_broker_reach]] by blast
  have f: "mget (Topics dlq_broker) ''q.dlq'' = Some 1" "waitingConsumers (heap dlq_broker ! 1) = []"
    "map queued (heap dlq_broker) = [[], []]"
    by code_simp+
  have "RetryCount ?m < 2 ^ 63 - 1" "''q.dlq'' = (if 2 \<le> RetryCount ?m then Topic ?m @ ''.dlq'' else Topic ?m)"
    "(sample_message ''a'')\<lparr>RetryCount := 3, Topic := ''q.dlq''\<rparr>
       = ?m\<lparr>RetryCount := max 0 (RetryCount ?m) + 1, Topic := ''q.dlq''\<rparr>"
    by (simp_all add: sample_message_def)
  from requeue_counts_and_dead_letters [OF dlq_broker_reach this f(1) q] f(2)
  have h: "heap b' = (heap dlq_broker)[1 := (heap dlq_broker ! 1)\<lparr>Messages := Messages (heap dlq_broker ! 1)
      @ [(sample_message ''a'')\<lparr>RetryCount := 3, Topic := ''q.dlq''\<rparr>]\<rparr>]" by simp
  obtain t u where tu: "heap dlq_broker = [t, u]" "queued t = []" "queued u = []" using f(3) by (auto simp: map_eq_Cons_conv)
  with h q show ?thesis by (simp add: queued_def)
qed

end
