(* ===== verification/Bytes.thy ===== *)
theory Bytes
  imports GoStrings
begin

text \<open>
  Bytes on the wire: the conversion between Go strings and byte slices, 16-bit big-endian
  numbers, the bit masks the protocols use, and base64 with the standard alphabet
  (\<^verbatim>\<open>encoding/base64\<close>, \<^verbatim>\<open>StdEncoding\<close>), which carries payloads between cluster nodes.
\<close>

unbundle bit_operations_syntax

subsection \<open>Bytes and strings\<close>

definition str :: "bytes \<Rightarrow> string" where
  "str bs = map (\<lambda>w. char_of (unat w)) bs"

definition bytesOf :: "string \<Rightarrow> bytes" where
  "bytesOf s = map (\<lambda>c. of_nat (of_char c)) s"

lemma length_str [simp]: "length (str bs) = length bs" by (simp add: str_def)

lemma length_bytesOf [simp]: "length (bytesOf s) = length s" by (simp add: bytesOf_def)

lemma unat_byte: "m < 256 \<Longrightarrow> unat (of_nat m :: byte) = m"
  by (simp add: unsigned_of_nat take_bit_eq_mod)

lemma byte_bound: "unat (x :: byte) < 256"
  using unsigned_less [of x] by simp

lemma str_bytesOf [simp]: "str (bytesOf s) = s"
  by (simp add: str_def bytesOf_def comp_def unat_byte)

lemma bytesOf_str [simp]: "bytesOf (str bs) = bs"
proof -
  have "of_nat (of_char (char_of (unat x) :: char)) = x" for x :: byte using byte_bound [of x] by simp
  then show ?thesis by (simp add: str_def bytesOf_def comp_def map_idI)
qed

lemma str_append [simp]: "str (xs @ ys) = str xs @ str ys" by (simp add: str_def)

lemma bytesOf_append [simp]: "bytesOf (xs @ ys) = bytesOf xs @ bytesOf ys" by (simp add: bytesOf_def)

lemma str_Nil [simp]: "str [] = []" by (simp add: str_def)

lemma bytesOf_Nil [simp]: "bytesOf [] = []" by (simp add: bytesOf_def)

lemma bytesOf_inj [simp]: "bytesOf s = bytesOf t \<longleftrightarrow> s = t" by (metis str_bytesOf)

text \<open>\<^verbatim>\<open>binary.BigEndian.Uint16\<close> and \<^verbatim>\<open>PutUint16\<close>.\<close>

definition Uint16 :: "byte \<Rightarrow> byte \<Rightarrow> nat" where
  "Uint16 hi lo = unat hi * 256 + unat lo"

definition PutUint16 :: "nat \<Rightarrow> bytes" where
  "PutUint16 n = [of_nat (n div 256), of_nat n]"

lemma Uint16_Put: "n < 65536 \<Longrightarrow> Uint16 (of_nat (n div 256)) (of_nat n) = n"
  by (simp add: Uint16_def unsigned_of_nat take_bit_eq_mod)

lemma Uint16_bound: "Uint16 hi lo < 65536"
  using byte_bound [of hi] byte_bound [of lo] by (simp add: Uint16_def)

lemma and_7F: "unat (x AND 0x7F :: byte) = unat x mod 128"
proof -
  have "x AND 0x7F = take_bit 7 x" by (simp add: take_bit_eq_mask mask_eq_exp_minus_1)
  then have "unat (x AND 0x7F) = unat (take_bit 7 x)" by (rule arg_cong)
  also have "\<dots> = take_bit 7 (unat x)" by (rule unsigned_take_bit_eq)
  finally show ?thesis by (simp add: take_bit_eq_mod)
qed

lemma and_80: "x AND 0x80 = 0 \<longleftrightarrow> unat (x :: byte) < 128"
proof -
  have "bit x 7 \<longleftrightarrow> odd (unat x div 128)"
    using bit_unsigned_iff [of x 7, where 'a = nat] by (simp add: bit_iff_odd)
  moreover have "unat x div 128 = (if unat x < 128 then 0 else 1)"
    using byte_bound [of x] by (auto simp: div_nat_eqI)
  ultimately show ?thesis using and_exp_eq_0_iff_not_bit [of x 7] by simp
qed

lemma or_80: "m < 128 \<Longrightarrow> unat (of_nat m OR 0x80 :: byte) = m + 128"
proof -
  assume m: "m < 128"
  then have "(of_nat m :: byte) AND 0x80 = 0" by (simp add: and_80 unat_byte)
  with word_plus_and_or [of "of_nat m :: byte" "0x80"] have "of_nat m OR 0x80 = (of_nat (m + 128) :: byte)" by simp
  then show ?thesis using m unat_byte [of "m + 128"] by simp
qed

subsection \<open>Base64\<close>

definition b64char :: "nat \<Rightarrow> char" where
  "b64char n =
     (if n < 26 then char_of (65 + n) else if n < 52 then char_of (71 + n) else if n < 62 then char_of (n - 4)
      else if n = 62 then CHR ''+'' else CHR ''/'')"

definition b64val :: "char \<Rightarrow> nat option" where
  "b64val c =
     (let n = (of_char c :: nat) in
      if 65 \<le> n \<and> n \<le> 90 then Some (n - 65) else if 97 \<le> n \<and> n \<le> 122 then Some (n - 71)
      else if 48 \<le> n \<and> n \<le> 57 then Some (n + 4) else if c = CHR ''+'' then Some 62
      else if c = CHR ''/'' then Some 63 else None)"

text \<open>\<^verbatim>\<open>EncodeToString\<close>: three bytes make four characters, the last group is padded.\<close>

fun b64_encode :: "bytes \<Rightarrow> string" where
  "b64_encode [] = []"
| "b64_encode [a] = [b64char (unat a div 4), b64char (unat a mod 4 * 16), CHR ''='', CHR ''='']"
| "b64_encode [a, b] =
     [b64char (unat a div 4), b64char (unat a mod 4 * 16 + unat b div 16), b64char (unat b mod 16 * 4), CHR ''='']"
| "b64_encode (a # b # c # r) =
     [b64char (unat a div 4), b64char (unat a mod 4 * 16 + unat b div 16),
      b64char (unat b mod 16 * 4 + unat c div 64), b64char (unat c mod 64)] @ b64_encode r"

text \<open>
  \<^verbatim>\<open>DecodeString\<close>: line breaks are skipped, groups of four are complete, and padding ends
  the text; the unused low bits of a padded group are not looked at.
\<close>

fun b64_quanta :: "string \<Rightarrow> bytes option" where
  "b64_quanta [] = Some []"
| "b64_quanta (w # x # y # z # r) =
     (case (b64val w, b64val x, b64val y, b64val z) of
        (Some a, Some b, Some c, Some d) \<Rightarrow>
          map_option (\<lambda>bs. [of_nat (a * 4 + b div 16), of_nat (b mod 16 * 16 + c div 4), of_nat (c mod 4 * 64 + d)] @ bs)
            (b64_quanta r)
      | (Some a, Some b, Some c, None) \<Rightarrow>
          (if z = CHR ''='' \<and> r = [] then Some [of_nat (a * 4 + b div 16), of_nat (b mod 16 * 16 + c div 4)] else None)
      | (Some a, Some b, None, _) \<Rightarrow>
          (if y = CHR ''='' \<and> z = CHR ''='' \<and> r = [] then Some [of_nat (a * 4 + b div 16)] else None)
      | _ \<Rightarrow> None)"
| "b64_quanta _ = None"

definition b64_decode :: "string \<Rightarrow> bytes option" where
  "b64_decode s = b64_quanta (filter (\<lambda>c. of_char c \<noteq> (10 :: nat) \<and> of_char c \<noteq> (13 :: nat)) s)"

lemma b64val_char [simp]: "n < 64 \<Longrightarrow> b64val (b64char n) = Some n"
  by (auto simp: b64val_def b64char_def Let_def)

lemma b64val_pad [simp]: "b64val CHR ''='' = None"
  by (simp add: b64val_def)

lemma b64char_val: "\<exists>n. b64val (b64char m) = Some n"
  by (cases "m < 64") (auto simp: b64char_def b64val_def Let_def)

lemma b64_encode_chars: "c \<in> set (b64_encode p) \<Longrightarrow> b64val c \<noteq> None \<or> c = CHR ''=''"
  using b64char_val by (induction p rule: b64_encode.induct) auto

lemma b64_not_space: "b64val c \<noteq> None \<or> c = CHR ''='' \<Longrightarrow> \<not> is_space c \<and> c \<noteq> CHR '' ''"
  by (auto simp: b64val_def is_space_def Let_def split: if_splits)

lemma b64_encode_no_space: "c \<in> set (b64_encode p) \<Longrightarrow> \<not> is_space c"
  using b64_encode_chars b64_not_space by blast

lemma b64_split:
  fixes b :: byte
  shows "unat b div 16 div 16 = 0" "unat b div 16 mod 16 = unat b div 16" "unat b div 64 div 4 = 0"
    "unat b div 64 mod 4 = unat b div 64"
  using byte_bound [of b] by (simp_all add: div_less_iff_less_mult)

lemma b64_index:
  fixes a b c :: byte
  shows "unat a div 4 < 64" "unat a mod 4 * 16 + unat b div 16 < 64" "unat b mod 16 * 4 + unat c div 64 < 64"
    "unat c mod 64 < 64" "unat a mod 4 * 16 < 64" "unat b mod 16 * 4 < 64"
proof -
  have "unat a mod 4 \<le> 3" "unat b mod 16 \<le> 15" by simp_all
  moreover have "unat b div 16 < 16" "unat c div 64 < 4" "unat a div 4 < 64"
    using byte_bound [of a] byte_bound [of b] byte_bound [of c] by auto
  ultimately show "unat a div 4 < 64" "unat a mod 4 * 16 + unat b div 16 < 64" "unat b mod 16 * 4 + unat c div 64 < 64"
    "unat c mod 64 < 64" "unat a mod 4 * 16 < 64" "unat b mod 16 * 4 < 64" by linarith+
qed

lemma b64_quanta_encode: "b64_quanta (b64_encode p) = Some p"
  by (induction p rule: b64_encode.induct) (simp_all add: b64_index b64_split del: of_nat_add of_nat_mult)

lemma b64_decode_encode [simp]: "b64_decode (b64_encode p) = Some p"
proof -
  have "\<not> (of_char c = (10 :: nat) \<or> of_char c = (13 :: nat))" if "c \<in> set (b64_encode p)" for c
    using b64_encode_no_space [OF that] by (auto simp: is_space_def)
  then have "filter (\<lambda>c. of_char c \<noteq> (10 :: nat) \<and> of_char c \<noteq> (13 :: nat)) (b64_encode p) = b64_encode p"
    by (auto intro: filter_True)
  then show ?thesis by (simp add: b64_decode_def b64_quanta_encode)
qed

end
