(* ===== verification/MqttPackets.thy ===== *)
theory MqttPackets
  imports Bytes
begin

text \<open>
  The wire format of the MQTT gateway (\<^verbatim>\<open>internal/transport/mqtt/packets.go\<close>): the packet
  types, the variable length encoding of the remaining length, and length-prefixed strings.
  A connection is the list of the bytes still to be read from it; a read past its end is the
  error of \<^verbatim>\<open>io.ReadFull\<close>. Integers are natural numbers: the remaining length is below
  \<open>128 ^ 4\<close> and offsets are within a packet, so Go's \<^verbatim>\<open>int\<close> does not wrap.
\<close>

unbundle bit_operations_syntax

subsection \<open>Packet types\<close>

definition PacketConnect :: byte where "PacketConnect = 1"
definition PacketConnAck :: byte where "PacketConnAck = 2"
definition PacketPublish :: byte where "PacketPublish = 3"
definition PacketPubAck :: byte where "PacketPubAck = 4"
definition PacketSubscribe :: byte where "PacketSubscribe = 8"
definition PacketSubAck :: byte where "PacketSubAck = 9"
definition PacketUnsubscribe :: byte where "PacketUnsubscribe = 10"
definition PacketUnsubAck :: byte where "PacketUnsubAck = 11"
definition PacketPingReq :: byte where "PacketPingReq = 12"
definition PacketPingResp :: byte where "PacketPingResp = 13"
definition PacketDisconnect :: byte where "PacketDisconnect = 14"

lemmas packet_types = PacketConnect_def PacketConnAck_def PacketPublish_def PacketPubAck_def
  PacketSubscribe_def PacketSubAck_def PacketUnsubscribe_def PacketUnsubAck_def PacketPingReq_def
  PacketPingResp_def PacketDisconnect_def

subsection \<open>The remaining length\<close>

text \<open>The first argument counts the bytes the loop may still read.\<close>

fun readRemLoop :: "nat \<Rightarrow> nat \<Rightarrow> nat \<Rightarrow> bytes \<Rightarrow> (nat \<times> bytes) result" where
  "readRemLoop 0 multiplier val r = Inl ''malformed remaining length: exceeded 4 bytes''"
| "readRemLoop (Suc i) multiplier val [] = Inl ''EOF''"
| "readRemLoop (Suc i) multiplier val (encodedByte # r) =
     (let val = val + unat (encodedByte AND 0x7F) * multiplier in
      if encodedByte AND 0x80 = 0 then Inr (val, r)
      else readRemLoop i (multiplier * 128) val r)"

definition readRemainingLength :: "bytes \<Rightarrow> (nat \<times> bytes) result" where
  "readRemainingLength r = readRemLoop 4 1 0 r"

function writeRemainingLength :: "nat \<Rightarrow> bytes" where
  "writeRemainingLength val =
     (let encodedByte = of_nat (val mod 128); val = val div 128 in
      if 0 < val then (encodedByte OR 128) # writeRemainingLength val else [encodedByte])"
  by pat_completeness auto

termination by (relation "measure id") (simp_all add: div_greater_zero_iff)

declare writeRemainingLength.simps [simp del]

lemma readRemLoop_write:
  "val < 128 ^ Suc i \<Longrightarrow> readRemLoop (Suc i) m a (writeRemainingLength val @ r) = Inr (a + val * m, r)"
proof (induction i arbitrary: val m a)
  case 0
  then show ?case by (simp add: writeRemainingLength.simps [of val] and_80 and_7F unat_byte)
next
  case (Suc i)
  show ?case
  proof (cases "val < 128")
    case True
    then show ?thesis by (simp add: writeRemainingLength.simps [of val] and_80 and_7F unat_byte)
  next
    case False
    have s: "val div 128 < 128 ^ Suc i" using Suc.prems by (simp add: less_mult_imp_div_less)
    have b: "unat (of_nat (val mod 128) OR 128 :: byte) = val mod 128 + 128" by (rule or_80) simp
    have "a + val mod 128 * m + (val div 128) * (m * 128) = a + (val mod 128 + 128 * (val div 128)) * m"
      unfolding add_mult_distrib by simp
    also have "\<dots> = a + val * m" by simp
    finally have "a + val mod 128 * m + (val div 128) * (m * 128) = a + val * m" .
    with Suc.IH [OF s, of "m * 128" "a + val mod 128 * m"] False show ?thesis
      by (subst writeRemainingLength.simps) (simp add: b and_80 and_7F div_greater_zero_iff)
  qed
qed

lemma readRemLoop_range:
  "readRemLoop i m a s = Inr (v, r) \<Longrightarrow> (\<exists>p. s = p @ r \<and> p \<noteq> [] \<and> length p \<le> i) \<and> v + m \<le> a + m * 128 ^ i"
proof (induction i m a s rule: readRemLoop.induct)
  case (3 i m a x r')
  let ?a = "a + unat (x AND 0x7F) * m"
  have "unat (x AND 0x7F) * m \<le> 127 * m" by (rule mult_le_mono1) (simp add: and_7F)
  then have u: "?a + m \<le> a + m * 128" by simp
  show ?case
  proof (cases "x AND 0x80 = 0")
    case True
    have "m * 128 \<le> m * 128 ^ Suc i" by simp
    with u have "?a + m \<le> a + m * 128 ^ Suc i" by linarith
    with True 3 show ?thesis by (auto simp: Let_def intro!: exI [of _ "[x]"])
  next
    case False
    with 3 obtain p where p: "r' = p @ r" "length p \<le> i" "v + m * 128 \<le> ?a + m * 128 * 128 ^ i"
      by (auto simp: Let_def)
    have "m * 128 * 128 ^ i = m * 128 ^ Suc i" by simp
    with u p(3) have "v + m \<le> a + m * 128 ^ Suc i" by linarith
    with p show ?thesis by (auto intro!: exI [of _ "x # p"])
  qed
qed simp_all

lemma readRemainingLength_consumes:
  assumes "readRemainingLength s = Inr (v, r)"
  shows "v < 128 ^ 4" and "length r < length s" and "\<exists>p. s = p @ r"
  using readRemLoop_range [OF assms [unfolded readRemainingLength_def]] by auto

lemma readRemainingLength_write:
  "v < 128 ^ 4 \<Longrightarrow> readRemainingLength (writeRemainingLength v @ r) = Inr (v, r)"
  using readRemLoop_write [of v 3 1 0 r] by (simp add: readRemainingLength_def)

lemma writeRemainingLength_length: "v < 128 ^ Suc i \<Longrightarrow> length (writeRemainingLength v) \<le> Suc i"
proof (induction i arbitrary: v)
  case 0
  then show ?case by (simp add: writeRemainingLength.simps [of v])
next
  case (Suc i)
  have "v div 128 < 128 ^ Suc i" using Suc.prems by (simp add: less_mult_imp_div_less)
  from Suc.IH [OF this] show ?case by (subst writeRemainingLength.simps) (simp add: Let_def)
qed

text \<open>The remaining length is a prefix code.\<close>

interpretation rem_len: prefix_codec writeRemainingLength
  "\<lambda>s. case readRemainingLength s of Inl e \<Rightarrow> None | Inr x \<Rightarrow> Some x" "\<lambda>v. v < 128 ^ 4"
  by unfold_locales (simp add: readRemainingLength_write)

subsection \<open>Strings\<close>

text \<open>The offset is passed and returned; every caller gives up on an error.\<close>

definition readString :: "bytes \<Rightarrow> nat \<Rightarrow> (string \<times> nat) result" where
  "readString buf offset =
     (if offset + 2 > length buf then Inl ''unexpected EOF''
      else
        (let len = Uint16 (buf ! offset) (buf ! (offset + 1)); offset = offset + 2 in
         if offset + len > length buf then Inl ''unexpected EOF''
         else Inr (str (take len (drop offset buf)), offset + len)))"

lemma readString_bounds:
  "readString buf off = Inr (s, off') \<Longrightarrow>
     off + 2 \<le> off' \<and> off' \<le> length buf \<and> length s = off' - (off + 2) \<and> length s < 65536
     \<and> sublist (bytesOf s) buf"
proof -
  assume r: "readString buf off = Inr (s, off')"
  let ?n = "Uint16 (buf ! off) (buf ! (off + 1))"
  have s: "off + 2 + ?n \<le> length buf" "s = str (take ?n (drop (off + 2) buf))" "off' = off + 2 + ?n"
    using r by (auto simp: readString_def Let_def split: if_splits)
  have "buf = take (off + 2) buf @ take ?n (drop (off + 2) buf) @ drop ?n (drop (off + 2) buf)"
    by (simp only: append_take_drop_id)
  then have "sublist (take ?n (drop (off + 2) buf)) buf" unfolding sublist_def by blast
  with s show ?thesis using Uint16_bound [of "buf ! off" "buf ! (off + 1)"] by simp
qed

text \<open>A string field as the gateway writes it.\<close>

definition string_field :: "string \<Rightarrow> bytes" where
  "string_field s = PutUint16 (length (bytesOf s)) @ bytesOf s"

lemma readString_field:
  "length s < 65536 \<Longrightarrow> readString (xs @ string_field s @ r) (length xs) = Inr (s, length xs + 2 + length s)"
  using Uint16_Put [of "length s"]
  by (simp add: readString_def string_field_def PutUint16_def nth_append Let_def)

text \<open>Strings are a prefix code as well.\<close>

interpretation str_field: prefix_codec string_field
  "\<lambda>s. case readString s 0 of Inl e \<Rightarrow> None | Inr (x, off) \<Rightarrow> Some (x, drop off s)" "\<lambda>s. length s < 65536"
  using readString_field [of _ "[]"] by unfold_locales (simp add: string_field_def PutUint16_def)

text \<open>
  The remaining length of an MQTT packet. Every value below 128 to the fourth is written in at
  most four bytes and read back, with the rest of the stream untouched; whatever the stream
  holds, a successful read takes between one and four bytes off its front and gives a value
  in that range.
\<close>

theorem remaining_length_roundtrip:
  "(v < 128 ^ 4 \<longrightarrow> readRemainingLength (writeRemainingLength v @ r) = Inr (v, r) \<and> length (writeRemainingLength v) \<le> 4)
   \<and> (readRemainingLength s = Inr (w, r) \<longrightarrow> w < 128 ^ 4 \<and> (\<exists>p. s = p @ r \<and> 1 \<le> length p \<and> length p \<le> 4))"
proof -
  have "length (writeRemainingLength v) \<le> 4" if "v < 128 ^ 4"
    using writeRemainingLength_length [of v 3] that by simp
  moreover have "\<exists>p. s = p @ r \<and> 1 \<le> length p \<and> length p \<le> 4" if "readRemainingLength s = Inr (w, r)"
    using readRemLoop_range [of 4 1 0 s w r] that by (auto simp: readRemainingLength_def Suc_le_eq)
  ultimately show ?thesis using readRemainingLength_write readRemainingLength_consumes(1) by blast
qed

theorem remaining_length_roundtrip_witness:
  "readRemainingLength (writeRemainingLength 321 @ [7]) = Inr (321, [7]) \<and> writeRemainingLength 321 = [0xC1, 0x02]"
  using remaining_length_roundtrip [of 321 "[7]"] by (simp add: writeRemainingLength.simps)

end
