(* ===== verification/Gateway.thy ===== *)
theory Gateway
  imports BrokerSteps
begin

text \<open>
  What the gateways share. What a connection or a request does to the broker is a sequence of
  broker operations, so the broker's invariant carries over to any mix of them.
\<close>

text \<open>A publish with nothing but a payload.\<close>

definition plain_request :: "bytes \<Rightarrow> publish_req" where
  "plain_request p = \<lparr>pPayload = p, pHeaders = [], pPriority = ''normal'', pExpiresAt = None, pDeliverAt = None,
     pBroadcast = False, pReplication = False\<rparr>"

abbreviation broker_calls :: "Broker \<Rightarrow> Broker \<Rightarrow> bool" where
  "broker_calls \<equiv> live_step\<^sup>*\<^sup>*"

lemma broker_calls_inv: "broker_calls b b' \<Longrightarrow> broker_inv b \<Longrightarrow> broker_inv b'"
  by (induction rule: rtranclp_induct) (auto intro: live_step_inv)

lemma RemoveSpy_calls: "broker_calls b (RemoveSpy n c b)"
  by (rule r_into_rtranclp, rule live_step.remove_spy)

lemma AddSpy_calls: "AddSpy n b = (r, b') \<Longrightarrow> broker_calls b b'"
  by (rule r_into_rtranclp, rule live_step.add_spy)

lemma Publish_calls: "Publish now n req b = Ret (e, b') \<Longrightarrow> broker_calls b b'"
  by (rule r_into_rtranclp, rule live_step.publish)

lemma Publish_returns:
  assumes "broker_inv b"
  obtains e b' where "Publish now n req b = Ret (e, b')"
  using publishCore_ok [OF assms] unfolding Publish_def by blast

lemma RemoveSpies_calls: "broker_calls b (fold (\<lambda>(t, c). RemoveSpy t c) xs b)"
proof (induction xs arbitrary: b)
  case (Cons x xs)
  then show ?case using RemoveSpy_calls [of b "fst x" "snd x"] by (auto simp: split_beta intro: rtranclp_trans)
qed simp

subsection \<open>Connections\<close>

text \<open>
  Between two turns of a connection the rest of the program runs: \<open>rest k\<close> is what it does to the
  broker before turn \<open>k\<close>, and that is a sequence of broker operations too.
\<close>

locale environment =
  fixes rest :: "nat \<Rightarrow> Broker \<Rightarrow> Broker"
  assumes rest_calls: "broker_calls b (rest k b)"
begin

lemma rest_inv: "broker_inv b \<Longrightarrow> broker_inv (rest k b)"
  using rest_calls by (rule broker_calls_inv)

end

interpretation idle: environment "\<lambda>k b. b"
  by unfold_locales simp

text \<open>
  The loop of a connection. One turn takes a packet, a command or a frame off what is left to
  read, and tells what is left then, or that the connection ends.
\<close>

locale connection_loop =
  fixes loop :: "nat \<Rightarrow> bytes \<Rightarrow> 'c \<Rightarrow> Broker \<Rightarrow> ('c \<times> Broker) run"
    and turn :: "nat \<Rightarrow> bytes \<Rightarrow> 'c \<Rightarrow> Broker \<Rightarrow> ((nat \<times> bytes) option \<times> 'c \<times> Broker) run"
  assumes loop_turn: "loop k s c b = bind_run (turn k s c b)
      (\<lambda>(r, c, b). case r of None \<Rightarrow> Ret (c, b) | Some (k, s) \<Rightarrow> loop k s c b)"
    and turn_reads: "turn k s c b = Ret (Some (k', s'), c', b') \<Longrightarrow> length s' < length s"
    and turn_calls: "broker_inv b \<Longrightarrow> \<exists>r c' b'. turn k s c b = Ret (r, c', b') \<and> broker_calls b b'"
begin

text \<open>The connection ends, and what it did to the broker was a sequence of its operations.\<close>

lemma loop_calls: "broker_inv b \<Longrightarrow> \<exists>c' b'. loop k s c b = Ret (c', b') \<and> broker_calls b b'"
proof (induction "length s" arbitrary: k s c b rule: less_induct)
  case less
  obtain r c' b' where t: "turn k s c b = Ret (r, c', b')" "broker_calls b b'" using turn_calls [OF less.prems] by blast
  show ?case
  proof (cases r)
    case None
    then show ?thesis using t by (simp add: loop_turn [of k s])
  next
    case (Some x)
    obtain k' s' where x: "x = (k', s')" by (rule prod.exhaust)
    have "length s' < length s" using turn_reads t(1) Some x by blast
    moreover have "broker_inv b'" using t(2) less.prems by (rule broker_calls_inv)
    ultimately obtain c2 b2 where "loop k' s' c' b' = Ret (c2, b2)" "broker_calls b' b2" using less.hyps by blast
    then show ?thesis using t Some x by (auto simp: loop_turn [of k s])
  qed
qed

end

end
