(* ===== verification/Mqtt.thy ===== *)
theory Mqtt
  imports MqttPackets Gateway
begin

text \<open>
  The MQTT gateway (\<^verbatim>\<open>internal/transport/mqtt/server.go\<close>): the handlers of the packet types, the
  loop that reads packets off a connection, and the goroutine that forwards spied messages.
  The API key is the value of \<^verbatim>\<open>TINYMQ_API_KEY\<close>; the bytes of the connection end where the
  first read fails, by its end or by the deadline. Between two packets of a connection the
  rest of the program runs: \<open>rest k\<close> is what it does to the broker before packet \<open>k\<close>.
\<close>

subsection \<open>Connections\<close>

text \<open>
  \<open>mWriteOut\<close> gives the outcome of each write on the connection, in order; \<open>mSent\<close> is what was
  written. \<open>mSpies\<close> is the map \<^verbatim>\<open>spies\<close> of \<^verbatim>\<open>handleClient\<close>.
\<close>

record mqttConn =
  connected :: bool
  mSpies :: "(string, nat) gomap"
  mSent :: "bytes list"
  mWrites :: nat
  mWriteOut :: "nat \<Rightarrow> error option"

definition mqtt_write :: "bytes \<Rightarrow> mqttConn \<Rightarrow> error option \<times> mqttConn" where
  "mqtt_write data mc =
     (case mWriteOut mc (mWrites mc) of
        None \<Rightarrow> (None, mc\<lparr>mSent := mSent mc @ [data], mWrites := mWrites mc + 1\<rparr>)
      | Some e \<Rightarrow> (Some e, mc\<lparr>mWrites := mWrites mc + 1\<rparr>))"

lemma mqtt_write_keeps [simp]:
  "connected (snd (mqtt_write d mc)) = connected mc" "mSpies (snd (mqtt_write d mc)) = mSpies mc"
  by (simp_all add: mqtt_write_def split: option.split)

subsection \<open>CONNECT\<close>

text \<open>The credentials after the client identifier, and their comparison with the API key.\<close>

definition mqtt_credentials :: "byte \<Rightarrow> bytes \<Rightarrow> nat \<Rightarrow> (string \<times> string) result" where
  "mqtt_credentials connFlags payload offset =
     (let hasUsername = connFlags AND 0x80 \<noteq> 0; hasPassword = connFlags AND 0x40 \<noteq> 0 in
      case (if hasUsername then readString payload offset else Inr ([], offset)) of
        Inl e \<Rightarrow> Inl e
      | Inr (username, offset) \<Rightarrow>
         (case (if hasPassword then readString payload offset else Inr ([], offset)) of
            Inl e \<Rightarrow> Inl e
          | Inr (password, offset) \<Rightarrow> Inr (username, password)))"

definition mqtt_authorized :: "string \<Rightarrow> byte \<Rightarrow> string \<Rightarrow> string \<Rightarrow> bool" where
  "mqtt_authorized token connFlags username password \<longleftrightarrow>
     token = [] \<or> (connFlags AND 0x40 \<noteq> 0 \<and> password = token) \<or> (connFlags AND 0x80 \<noteq> 0 \<and> username = token)"

definition mqtt_handleConnect :: "string \<Rightarrow> bytes \<Rightarrow> mqttConn \<Rightarrow> error option \<times> mqttConn" where
  "mqtt_handleConnect token payload mc =
     (if length payload < 10 then (Some ''malformed CONNECT packet'', mc)
      else case readString payload 0 of
        Inl e \<Rightarrow> (Some (''failed to read protocol name: '' @ e), mc)
      | Inr (protoName, offset) \<Rightarrow>
         (if protoName \<noteq> ''MQTT'' \<and> protoName \<noteq> ''MQIsdp'' then (Some (''invalid protocol name: '' @ protoName), mc)
          else if offset + 4 > length payload then (Some ''unexpected EOF'', mc)
          else if payload ! offset \<noteq> 4
          then (Some (''unsupported MQTT version: '' @ Itoa (int (unat (payload ! offset)))),
                snd (mqtt_write [push_bit 4 PacketConnAck, 2, 0x00, 0x01] mc))
          else
            (let connFlags = payload ! (offset + 1) in
             case readString payload (offset + 4) of
               Inl e \<Rightarrow> (Some e, mc)
             | Inr (clientID, offset) \<Rightarrow>
                (if connFlags AND 0x40 \<noteq> 0 \<and> connFlags AND 0x80 = 0
                 then (Some (''password flag set without username flag (MQTT 3.1.1 '' @ [CHR 0xC2, CHR 0xA7] @ ''3.1.2.9)''),
                       snd (mqtt_write [push_bit 4 PacketConnAck, 2, 0x00, 0x04] mc))
                 else case mqtt_credentials connFlags payload offset of
                   Inl e \<Rightarrow> (Some e, mc)
                 | Inr (username, password) \<Rightarrow>
                    (if mqtt_authorized token connFlags username password
                     then mqtt_write [push_bit 4 PacketConnAck, 2, 0x00, 0x00] (mc\<lparr>connected := True\<rparr>)
                     else (Some ''authentication failed'',
                           snd (mqtt_write [push_bit 4 PacketConnAck, 2, 0x00, 0x05] mc)))))))"

subsection \<open>PUBLISH\<close>

definition mqtt_handlePublish ::
    "time \<Rightarrow> byte \<Rightarrow> bytes \<Rightarrow> mqttConn \<Rightarrow> Broker \<Rightarrow> (error option \<times> mqttConn \<times> Broker) run" where
  "mqtt_handlePublish now flags payload mc b =
     (case readString payload 0 of
        Inl e \<Rightarrow> Ret (Some e, mc, b)
      | Inr (topic, offset) \<Rightarrow>
         (let qos = drop_bit 1 flags AND 0x03 in
          if 0 < qos \<and> offset + 2 > length payload then Ret (Some ''unexpected EOF'', mc, b)
          else
            (let packetID = (if 0 < qos then Uint16 (payload ! offset) (payload ! (offset + 1)) else 0);
                 offset = (if 0 < qos then offset + 2 else offset) in
             if qos = 2 then Ret (Some ''QoS 2 not supported'', mc, b)
             else
               bind_run (Publish now topic (plain_request (drop offset payload)) b)
                 (\<lambda>(err, b). case err of
                    Some e \<Rightarrow> Ret (Some e, mc, b)
                  | None \<Rightarrow>
                     (if qos = 1
                      then case mqtt_write ([push_bit 4 PacketPubAck, 2] @ PutUint16 packetID) mc of
                             (err, mc) \<Rightarrow> Ret (err, mc, b)
                      else Ret (None, mc, b))))))"

subsection \<open>SUBSCRIBE and UNSUBSCRIBE\<close>

definition translateMQTTWildcard :: "string \<Rightarrow> string" where
  "translateMQTTWildcard topic =
     (if topic = ''#'' then ''*''
      else if HasSuffix topic ''/#'' then ReplaceAll topic ''/#'' ''/*''
      else if Contains topic ''+'' then ReplaceAll topic ''+'' ''*''
      else topic)"

text \<open>The old subscription of a name, if there is one, is removed first.\<close>

definition mqtt_drop_spy :: "string \<Rightarrow> mqttConn \<Rightarrow> Broker \<Rightarrow> mqttConn \<times> Broker" where
  "mqtt_drop_spy topic mc b =
     (case mget (mSpies mc) topic of
        None \<Rightarrow> (mc, b)
      | Some ch \<Rightarrow> (mc\<lparr>mSpies := mdel topic (mSpies mc)\<rparr>, RemoveSpy topic ch b))"

definition mqtt_subscribe :: "string \<Rightarrow> mqttConn \<Rightarrow> Broker \<Rightarrow> byte \<times> mqttConn \<times> Broker" where
  "mqtt_subscribe topic mc b =
     (let cleanTopic = translateMQTTWildcard topic in
      case mqtt_drop_spy cleanTopic mc b of (mc, b) \<Rightarrow>
        (case AddSpy cleanTopic b of
           (Inl e, b) \<Rightarrow> (0x80, mc, b)
         | (Inr spyChan, b) \<Rightarrow> (0x00, mc\<lparr>mSpies := mput cleanTopic spyChan (mSpies mc)\<rparr>, b)))"

text \<open>The loop over the topic filters; it returns the granted codes.\<close>

function mqtt_subscribe_loop ::
    "bytes \<Rightarrow> nat \<Rightarrow> bytes \<Rightarrow> mqttConn \<Rightarrow> Broker \<Rightarrow> bytes result \<times> mqttConn \<times> Broker" where
  "mqtt_subscribe_loop payload offset granted mc b =
     (if offset < length payload
      then
        (case readString payload offset of
           Inl e \<Rightarrow> (Inl e, mc, b)
         | Inr (topic, offset') \<Rightarrow>
            (if length payload \<le> offset' then (Inl ''unexpected EOF'', mc, b)
             else case mqtt_subscribe topic mc b of
               (code, mc, b) \<Rightarrow> mqtt_subscribe_loop payload (offset' + 1) (granted @ [code]) mc b))
      else (Inr granted, mc, b))"
  by pat_completeness auto

termination
  by (relation "measure (\<lambda>(payload, offset, _). length payload - offset)") (auto dest: readString_bounds)

definition mqtt_handleSubscribe :: "bytes \<Rightarrow> mqttConn \<Rightarrow> Broker \<Rightarrow> error option \<times> mqttConn \<times> Broker" where
  "mqtt_handleSubscribe payload mc b =
     (if 2 > length payload then (Some ''unexpected EOF'', mc, b)
      else case mqtt_subscribe_loop payload 2 [] mc b of
        (Inl e, mc, b) \<Rightarrow> (Some e, mc, b)
      | (Inr granted, mc, b) \<Rightarrow>
         (case mqtt_write ([push_bit 4 PacketSubAck] @ writeRemainingLength (2 + length granted)
                           @ PutUint16 (Uint16 (payload ! 0) (payload ! 1)) @ granted) mc of
            (err, mc) \<Rightarrow> (err, mc, b)))"

function mqtt_unsubscribe_loop :: "bytes \<Rightarrow> nat \<Rightarrow> mqttConn \<Rightarrow> Broker \<Rightarrow> mqttConn \<times> Broker" where
  "mqtt_unsubscribe_loop payload offset mc b =
     (if offset < length payload
      then
        (case readString payload offset of
           Inl e \<Rightarrow> (mc, b)
         | Inr (topic, offset') \<Rightarrow>
            (case mqtt_drop_spy (translateMQTTWildcard topic) mc b of
               (mc, b) \<Rightarrow> mqtt_unsubscribe_loop payload offset' mc b))
      else (mc, b))"
  by pat_completeness auto

termination
  by (relation "measure (\<lambda>(payload, offset, _). length payload - offset)") (auto dest: readString_bounds)

declare mqtt_subscribe_loop.simps [simp del] mqtt_unsubscribe_loop.simps [simp del]

definition mqtt_handleUnsubscribe :: "bytes \<Rightarrow> mqttConn \<Rightarrow> Broker \<Rightarrow> error option \<times> mqttConn \<times> Broker" where
  "mqtt_handleUnsubscribe payload mc b =
     (if length payload < 2 then (Some ''unexpected EOF'', mc, b)
      else case mqtt_unsubscribe_loop payload 2 mc b of
        (mc, b) \<Rightarrow>
          (case mqtt_write [push_bit 4 PacketUnsubAck, 2, payload ! 0, payload ! 1] mc of
             (err, mc) \<Rightarrow> (err, mc, b)))"

subsection \<open>The packet loop\<close>

definition mqtt_processPacket ::
    "string \<Rightarrow> time \<Rightarrow> byte \<Rightarrow> byte \<Rightarrow> bytes \<Rightarrow> mqttConn \<Rightarrow> Broker \<Rightarrow> (error option \<times> mqttConn \<times> Broker) run" where
  "mqtt_processPacket token now pType flags payload mc b =
     (if pType \<noteq> PacketConnect \<and> \<not> connected mc
      then Ret (Some ''protocol violation: packet sent before CONNECT'', mc, b)
      else if pType = PacketConnect
      then case mqtt_handleConnect token payload mc of (err, mc) \<Rightarrow> Ret (err, mc, b)
      else if pType = PacketPublish then mqtt_handlePublish now flags payload mc b
      else if pType = PacketSubscribe then Ret (mqtt_handleSubscribe payload mc b)
      else if pType = PacketPingReq
      then case mqtt_write [push_bit 4 PacketPingResp, 0x00] mc of (err, mc) \<Rightarrow> Ret (err, mc, b)
      else if pType = PacketDisconnect then Ret (Some ''client disconnected gracefully'', mc, b)
      else if pType = PacketUnsubscribe then Ret (mqtt_handleUnsubscribe payload mc b)
      else Ret (Some (''unsupported packet type: '' @ Itoa (int (unat pType))), mc, b))"

definition mqtt_maxPacketSize :: nat where
  "mqtt_maxPacketSize = 2 * 2 ^ 20"

text \<open>One packet off the front of the stream: its header, its payload and what follows.\<close>

definition mqtt_readPacket :: "bytes \<Rightarrow> (byte \<times> bytes \<times> bytes) option" where
  "mqtt_readPacket stream =
     (case stream of
        [] \<Rightarrow> None
      | header # stream \<Rightarrow>
         (case readRemainingLength stream of
            Inl e \<Rightarrow> None
          | Inr (remLength, stream) \<Rightarrow>
             (if remLength > mqtt_maxPacketSize \<or> length stream < remLength then None
              else Some (header, take remLength stream, drop remLength stream))))"

lemma mqtt_readPacket_split:
  "mqtt_readPacket stream = Some (h, p, r) \<Longrightarrow> (\<exists>xs. stream = xs @ p @ r) \<and> length r < length stream"
proof -
  assume a: "mqtt_readPacket stream = Some (h, p, r)"
  then obtain s1 n s2 where s: "stream = h # s1" "readRemainingLength s1 = Inr (n, s2)" "n \<le> length s2"
      "p = take n s2" "r = drop n s2"
    by (auto simp: mqtt_readPacket_def split: list.splits sum.splits if_splits)
  obtain q where q: "s1 = q @ s2" using readRemainingLength_consumes(3) [OF s(2)] by blast
  have "stream = (h # q) @ p @ r" using s q by simp
  then show ?thesis using s readRemainingLength_consumes(2) [OF s(2)] by auto
qed

function mqtt_loop ::
    "string \<Rightarrow> (nat \<Rightarrow> time) \<Rightarrow> (nat \<Rightarrow> Broker \<Rightarrow> Broker) \<Rightarrow> nat \<Rightarrow> bytes \<Rightarrow> mqttConn \<Rightarrow> Broker \<Rightarrow> (mqttConn \<times> Broker) run" where
  "mqtt_loop token clock rest k stream mc b =
     (case mqtt_readPacket stream of
        None \<Rightarrow> Ret (mc, b)
      | Some (header, payload, stream') \<Rightarrow>
         (case mqtt_processPacket token (clock k) (drop_bit 4 header) (header AND 0x0F) payload mc (rest k b) of
            Ret (None, mc, b) \<Rightarrow> mqtt_loop token clock rest (Suc k) stream' mc b
          | Ret (Some e, mc, b) \<Rightarrow> Ret (mc, b)
          | Deadlock \<Rightarrow> Deadlock
          | Panic \<Rightarrow> Panic))"
  by pat_completeness auto

termination
  by (relation "measure (\<lambda>(_, _, _, _, stream, _). length stream)") (auto dest: mqtt_readPacket_split)

declare mqtt_loop.simps [simp del]

text \<open>The deferred clean-up removes every spy of the connection.\<close>

definition mqtt_cleanup :: "mqttConn \<Rightarrow> Broker \<Rightarrow> Broker" where
  "mqtt_cleanup mc b = fold (\<lambda>(topic, ch). RemoveSpy topic ch) (mSpies mc) b"

definition mqtt_newConn :: "(nat \<Rightarrow> error option) \<Rightarrow> mqttConn" where
  "mqtt_newConn out = \<lparr>connected = False, mSpies = [], mSent = [], mWrites = 0, mWriteOut = out\<rparr>"

definition mqtt_handleClient ::
    "string \<Rightarrow> (nat \<Rightarrow> time) \<Rightarrow> (nat \<Rightarrow> Broker \<Rightarrow> Broker) \<Rightarrow> (nat \<Rightarrow> error option) \<Rightarrow> bytes \<Rightarrow> Broker \<Rightarrow> (mqttConn \<times> Broker) run" where
  "mqtt_handleClient token clock rest out stream b =
     bind_run (mqtt_loop token clock rest 0 stream (mqtt_newConn out) b) (\<lambda>(mc, b). Ret (mc, mqtt_cleanup mc b))"

subsection \<open>Forwarding\<close>

definition mqtt_publish_body :: "message \<Rightarrow> bytes" where
  "mqtt_publish_body msg = string_field (message.Topic msg) @ Payload msg"

definition mqtt_publish_packet :: "message \<Rightarrow> bytes" where
  "mqtt_publish_packet msg =
     [push_bit 4 PacketPublish] @ writeRemainingLength (length (mqtt_publish_body msg)) @ mqtt_publish_body msg"

text \<open>
  One turn of the forwarding goroutine on the channel \<open>ch\<close> of topic \<open>t\<close>: a closed and drained
  channel or a failed write ends it, and it removes its spy.
\<close>

definition mqtt_forward :: "string \<Rightarrow> nat \<Rightarrow> mqttConn \<Rightarrow> Broker \<Rightarrow> bool \<times> mqttConn \<times> Broker" where
  "mqtt_forward t ch mc b =
     (case buf (chans b ! ch) of
        [] \<Rightarrow> (if chClosed (chans b ! ch) then (False, mc, RemoveSpy t ch b) else (True, mc, b))
      | msg # _ \<Rightarrow>
         (case mqtt_write (mqtt_publish_packet msg) mc of
            (None, mc) \<Rightarrow> (True, mc, receive ch b)
          | (Some e, mc) \<Rightarrow> (False, mc, RemoveSpy t ch (receive ch b))))"

subsection \<open>The gateway and the broker\<close>

lemma mqtt_drop_spy_calls: "mqtt_drop_spy t mc b = (mc', b') \<Longrightarrow> broker_calls b b'"
  using RemoveSpy_calls by (auto simp: mqtt_drop_spy_def split: option.splits)

lemma mqtt_subscribe_calls: "mqtt_subscribe t mc b = (code, mc', b') \<Longrightarrow> broker_calls b b'"
proof -
  assume s: "mqtt_subscribe t mc b = (code, mc', b')"
  obtain mc1 b1 where d: "mqtt_drop_spy (translateMQTTWildcard t) mc b = (mc1, b1)" by (rule prod.exhaust)
  obtain r b2 where a: "AddSpy (translateMQTTWildcard t) b1 = (r, b2)" by (rule prod.exhaust)
  have "b' = b2" using s d a by (cases r) (auto simp: mqtt_subscribe_def)
  with mqtt_drop_spy_calls [OF d] AddSpy_calls [OF a] show ?thesis by simp
qed

lemma mqtt_subscribe_loop_calls:
  "mqtt_subscribe_loop p off g mc b = (r, mc', b') \<Longrightarrow> broker_calls b b'"
proof (induction p off g mc b rule: mqtt_subscribe_loop.induct)
  case (1 p off g mc b)
  show ?case
  proof (cases "readString p off")
    case (Inr x)
    obtain t off' where x: "x = (t, off')" by (rule prod.exhaust)
    obtain code mc1 b1 where m: "mqtt_subscribe t mc b = (code, mc1, b1)" by (rule prod_cases3)
    have "broker_calls b1 b'" if "off < length p" "\<not> length p \<le> off'"
        "mqtt_subscribe_loop p (off' + 1) (g @ [code]) mc1 b1 = (r, mc', b')"
      by (rule 1 (1)) (use that Inr x m in \<open>simp_all add: m [symmetric]\<close>)
    with 1 (2) Inr x m mqtt_subscribe_calls [OF m] show ?thesis
      by (auto simp: mqtt_subscribe_loop.simps [of p off g mc b] split: if_splits)
  qed (use 1 in \<open>auto simp: mqtt_subscribe_loop.simps [of p off g mc b] split: if_splits\<close>)
qed

lemma mqtt_unsubscribe_loop_calls:
  "mqtt_unsubscribe_loop p off mc b = (mc', b') \<Longrightarrow> broker_calls b b'"
proof (induction p off mc b rule: mqtt_unsubscribe_loop.induct)
  case (1 p off mc b)
  show ?case
  proof (cases "readString p off")
    case (Inr x)
    obtain t off' where x: "x = (t, off')" by (rule prod.exhaust)
    obtain mc1 b1 where m: "mqtt_drop_spy (translateMQTTWildcard t) mc b = (mc1, b1)" by (rule prod.exhaust)
    have "broker_calls b1 b'" if "off < length p" "mqtt_unsubscribe_loop p off' mc1 b1 = (mc', b')"
      by (rule 1 (1)) (use that Inr x m in \<open>simp_all add: m [symmetric]\<close>)
    with 1 (2) Inr x m mqtt_drop_spy_calls [OF m] show ?thesis
      by (auto simp: mqtt_unsubscribe_loop.simps [of p off mc b] split: if_splits)
  qed (use 1 in \<open>auto simp: mqtt_unsubscribe_loop.simps [of p off mc b] split: if_splits\<close>)
qed

lemma mqtt_handleSubscribe_calls: "mqtt_handleSubscribe p mc b = (e, mc', b') \<Longrightarrow> broker_calls b b'"
  using mqtt_subscribe_loop_calls [of p 2 "[]" mc b]
  by (auto simp: mqtt_handleSubscribe_def split: if_splits prod.splits sum.splits)

lemma mqtt_handleUnsubscribe_calls: "mqtt_handleUnsubscribe p mc b = (e, mc', b') \<Longrightarrow> broker_calls b b'"
  using mqtt_unsubscribe_loop_calls [of p 2 mc b]
  by (auto simp: mqtt_handleUnsubscribe_def split: if_splits prod.splits)

lemma mqtt_handlePublish_calls:
  assumes "broker_inv b"
  shows "\<exists>e mc' b'. mqtt_handlePublish now f p mc b = Ret (e, mc', b') \<and> broker_calls b b'"
proof (cases "readString p 0")
  case (Inl e)
  then show ?thesis by (simp add: mqtt_handlePublish_def)
next
  case (Inr x)
  obtain t off where x: "x = (t, off)" by (rule prod.exhaust)
  let ?off = "if 0 < drop_bit 1 f AND 0x03 then off + 2 else off"
  obtain e b' where p: "Publish now t (plain_request (drop ?off p)) b = Ret (e, b')" by (rule Publish_returns [OF assms])
  show ?thesis
    using Publish_calls [OF p] p Inr x
    by (cases e) (auto simp: mqtt_handlePublish_def Let_def split: prod.split)
qed

lemma mqtt_processPacket_calls:
  assumes "broker_inv b"
  shows "\<exists>e mc' b'. mqtt_processPacket token now t f p mc b = Ret (e, mc', b') \<and> broker_calls b b'"
proof -
  have s: "\<exists>e mc' b'. mqtt_handleSubscribe p mc b = (e, mc', b') \<and> broker_calls b b'"
    using mqtt_handleSubscribe_calls by (metis prod_cases3)
  have u: "\<exists>e mc' b'. mqtt_handleUnsubscribe p mc b = (e, mc', b') \<and> broker_calls b b'"
    using mqtt_handleUnsubscribe_calls by (metis prod_cases3)
  show ?thesis
    using mqtt_handlePublish_calls [OF assms, of now f p mc] s u
    by (simp add: mqtt_processPacket_def split: prod.split)
qed

text \<open>One turn of the packet loop.\<close>

definition mqtt_turn :: "string \<Rightarrow> (nat \<Rightarrow> time) \<Rightarrow> (nat \<Rightarrow> Broker \<Rightarrow> Broker) \<Rightarrow> nat \<Rightarrow> bytes \<Rightarrow> mqttConn \<Rightarrow> Broker
    \<Rightarrow> ((nat \<times> bytes) option \<times> mqttConn \<times> Broker) run" where
  "mqtt_turn token clock rest k s mc b =
     (case mqtt_readPacket s of
        None \<Rightarrow> Ret (None, mc, b)
      | Some (h, p, s') \<Rightarrow>
          bind_run (mqtt_processPacket token (clock k) (drop_bit 4 h) (h AND 0x0F) p mc (rest k b))
            (\<lambda>(e, mc, b). Ret (if e = None then Some (Suc k, s') else None, mc, b)))"

sublocale environment \<subseteq> mqtt_conn: connection_loop "mqtt_loop token clock rest" "mqtt_turn token clock rest" for token clock
proof unfold_locales
  fix k s c b
  show "mqtt_loop token clock rest k s c b = bind_run (mqtt_turn token clock rest k s c b)
      (\<lambda>(r, c, b). case r of None \<Rightarrow> Ret (c, b) | Some (k, s) \<Rightarrow> mqtt_loop token clock rest k s c b)"
    by (subst mqtt_loop.simps) (auto simp: mqtt_turn_def split: option.splits run.splits)
next
  fix k s c b k' s' c' b'
  assume "mqtt_turn token clock rest k s c b = Ret (Some (k', s'), c', b')"
  then obtain h p where "mqtt_readPacket s = Some (h, p, s')"
    by (auto simp: mqtt_turn_def split: option.splits if_splits elim!: bind_run.elims)
  then show "length s' < length s" using mqtt_readPacket_split by blast
next
  fix k s c and b :: Broker
  assume i: "broker_inv b"
  show "\<exists>r c' b'. mqtt_turn token clock rest k s c b = Ret (r, c', b') \<and> broker_calls b b'"
  proof (cases "mqtt_readPacket s")
    case (Some x)
    obtain h p s' where x: "x = (h, p, s')" by (rule prod_cases3)
    obtain e mc b1 where "mqtt_processPacket token (clock k) (drop_bit 4 h) (h AND 0x0F) p c (rest k b) = Ret (e, mc, b1)"
        "broker_calls (rest k b) b1" using mqtt_processPacket_calls [OF rest_inv [OF i]] by blast
    with rest_calls [of b k] Some x show ?thesis by (simp add: mqtt_turn_def)
  qed (simp add: mqtt_turn_def)
qed

context environment
begin

lemmas mqtt_loop_calls = mqtt_conn.loop_calls

end



subsection \<open>Authentication\<close>

text \<open>What a CONNECT can do: accept a client that presents the key, or refuse and report it.\<close>

definition mqtt_refused :: "mqttConn \<Rightarrow> mqttConn \<Rightarrow> bool" where
  "mqtt_refused mc mc' \<longleftrightarrow> mc' = mc \<or> (\<exists>code \<in> {1, 4, 5}. mc' = snd (mqtt_write [0x20, 2, 0, code] mc))"

lemma mqtt_credentials_present:
  "mqtt_credentials f p off = Inr (u, w) \<Longrightarrow> mqtt_authorized token f u w \<Longrightarrow> token = [] \<or> sublist (bytesOf token) p"
  using readString_bounds
  by (auto simp: mqtt_credentials_def mqtt_authorized_def split: sum.splits if_splits; blast)

lemma mqtt_handleConnect_cases:
  assumes "mqtt_handleConnect token p mc = (e, mc')"
  shows "(token = [] \<or> sublist (bytesOf token) p) \<or> (e \<noteq> None \<and> mqtt_refused mc mc')"
proof (rule disjCI)
  assume n: "\<not> (e \<noteq> None \<and> mqtt_refused mc mc')"
  have c: "push_bit 4 PacketConnAck = 0x20" by (simp add: packet_types push_bit_eq_mult)
  note handleConnect = assms [unfolded mqtt_handleConnect_def Let_def c]
  obtain f off u w where "mqtt_credentials f p off = Inr (u, w)" "mqtt_authorized token f u w"
    using handleConnect n unfolding mqtt_refused_def
    by (auto split: if_split_asm sum.split_asm)
  then show "token = [] \<or> sublist (bytesOf token) p" by (rule mqtt_credentials_present)
qed

lemma mqtt_unconnected_packet:
  assumes "\<not> connected mc" and "token \<noteq> []" and "\<not> sublist (bytesOf token) p"
  shows "\<exists>e mc'. mqtt_processPacket token now t f p mc b = Ret (Some e, mc', b) \<and> mqtt_refused mc mc'"
proof (cases "t = PacketConnect")
  case True
  obtain e mc' where h: "mqtt_handleConnect token p mc = (e, mc')" by (rule prod.exhaust)
  with mqtt_handleConnect_cases [OF h] assms True show ?thesis by (auto simp: mqtt_processPacket_def)
next
  case False
  with assms(1) show ?thesis by (simp add: mqtt_processPacket_def mqtt_refused_def)
qed

lemma mqtt_refused_sent:
  "mqtt_refused mc mc' \<Longrightarrow> mSpies mc' = mSpies mc \<and> (mSent mc' = mSent mc \<or> (\<exists>code \<in> {1, 4, 5}. mSent mc' = mSent mc @ [[0x20, 2, 0, code]]))"
  by (auto simp: mqtt_refused_def mqtt_write_def split: option.splits)

text \<open>
  C10: A client that does not present the API key achieves nothing. When a key is set and the
  bytes of the connection nowhere contain it, serving the connection ends, at the latest after
  its first packet, with the broker as the rest of the program left it; the only thing such
  a client can be sent is one CONNACK that refuses the connection.
\<close>

theorem mqtt_needs_api_key:
  assumes "token \<noteq> []" and "\<not> sublist (bytesOf token) stream"
  shows "\<exists>mc' b'. mqtt_handleClient token clock rest out stream b = Ret (mc', b') \<and> (b' = b \<or> b' = rest 0 b)
     \<and> (mSent mc' = [] \<or> (\<exists>code \<in> {1, 4, 5}. mSent mc' = [[0x20, 2, 0, code]]))"
proof (cases "mqtt_readPacket stream")
  case None
  then show ?thesis
    by (simp add: mqtt_handleClient_def mqtt_loop.simps [of _ _ _ _ stream] mqtt_cleanup_def mqtt_newConn_def)
next
  case (Some x)
  obtain h p s where x: "x = (h, p, s)" by (rule prod_cases3)
  obtain xs where "stream = xs @ p @ s" using mqtt_readPacket_split Some x by blast
  then have "\<not> sublist (bytesOf token) p" using assms(2) sublist_order.order_trans by (metis sublist_appendI)
  moreover have nc: "\<not> connected (mqtt_newConn out)" by (simp add: mqtt_newConn_def)
  ultimately obtain e mc' where m: "mqtt_processPacket token (clock 0) (drop_bit 4 h) (h AND 0x0F) p (mqtt_newConn out) (rest 0 b)
      = Ret (Some e, mc', rest 0 b)" "mqtt_refused (mqtt_newConn out) mc'"
    using mqtt_unconnected_packet [OF nc assms(1)] by blast
  have "mSpies mc' = []" "mSent mc' = [] \<or> (\<exists>code \<in> {1, 4, 5}. mSent mc' = [[0x20, 2, 0, code]])"
    using mqtt_refused_sent [OF m(2)] by (auto simp: mqtt_newConn_def)
  with m(1) Some x show ?thesis
    by (simp add: mqtt_handleClient_def mqtt_loop.simps [of _ _ _ _ stream] mqtt_cleanup_def)
qed

theorem mqtt_needs_api_key_witness:
  "\<exists>mc' b'. mqtt_handleClient ''key'' (\<lambda>_. 0) (\<lambda>_ b. b) (\<lambda>_. None) [0x30, 3, 0, 1, 116] (sample_broker None) = Ret (mc', b')
     \<and> b' = sample_broker None"
proof -
  have "\<not> sublist (bytesOf ''key'') [0x30, 3, 0, 1, 116]" by (simp add: bytesOf_def sublist_code)
  with mqtt_needs_api_key [of "''key''" "[0x30, 3, 0, 1, 116]" "\<lambda>_. 0" "\<lambda>_ b. b" "\<lambda>_. None" "sample_broker None"]
  show ?thesis by auto
qed

subsection \<open>Relaying\<close>

lemma mqtt_publish_body_read:
  assumes "length (message.Topic m) < 65536"
  shows "readString (mqtt_publish_body m) 0 = Inr (message.Topic m, 2 + length (message.Topic m))"
    and "drop (2 + length (message.Topic m)) (mqtt_publish_body m) = Payload m"
  using readString_field [OF assms, of "[]" "Payload m"]
  by (simp_all add: mqtt_publish_body_def string_field_def PutUint16_def)

text \<open>
  What a subscriber is sent is the message. The packet the gateway writes for a spied
  message, followed by anything, is read back by the gateway's own reader as one packet with
  nothing lost and the following bytes untouched; and processing that packet on a connected
  client publishes the message's payload under the message's topic, nothing else.
\<close>

theorem mqtt_forward_roundtrip:
  assumes "length (message.Topic m) < 65536" and "length (Payload m) + length (message.Topic m) + 2 \<le> mqtt_maxPacketSize"
    and "connected mc"
  shows "mqtt_readPacket (mqtt_publish_packet m @ r) = Some (0x30, mqtt_publish_body m, r)
    \<and> mqtt_processPacket token now (drop_bit 4 0x30) (0x30 AND 0x0F) (mqtt_publish_body m) mc b
       = bind_run (Publish now (message.Topic m) (plain_request (Payload m)) b) (\<lambda>(e, b). Ret (e, mc, b))"
proof -
  let ?n = "length (mqtt_publish_body m)"
  have n: "?n \<le> mqtt_maxPacketSize" using assms(2) by (simp add: mqtt_publish_body_def string_field_def PutUint16_def)
  have "readRemainingLength (writeRemainingLength ?n @ mqtt_publish_body m @ r) = Inr (?n, mqtt_publish_body m @ r)"
    using n by (intro readRemainingLength_write) (simp add: mqtt_maxPacketSize_def)
  then have rd: "mqtt_readPacket (mqtt_publish_packet m @ r) = Some (0x30, mqtt_publish_body m, r)"
    using n by (simp add: mqtt_readPacket_def mqtt_publish_packet_def packet_types push_bit_eq_mult)
  have f: "drop_bit 4 (0x30 :: byte) = 3" "(0x30 :: byte) AND 0x0F = 0" by simp_all
  have "mqtt_processPacket token now 3 0 (mqtt_publish_body m) mc b = mqtt_handlePublish now 0 (mqtt_publish_body m) mc b"
    using assms(3) by (simp add: mqtt_processPacket_def packet_types)
  also have "\<dots> = bind_run (Publish now (message.Topic m) (plain_request (Payload m)) b) (\<lambda>(e, b). Ret (e, mc, b))"
    using mqtt_publish_body_read [OF assms(1)]
    by (simp add: mqtt_handlePublish_def) (rule arg_cong [where f = "bind_run _"], auto split: option.split)
  finally show ?thesis using rd f by simp
qed

definition mqtt_sample :: message where
  "mqtt_sample = \<lparr>ID = ''1'', Topic = ''a/b'', Payload = [1, 2], Timestamp = 0, ExpiresAt = None, DeliverAt = None,
     RetryCount = 0, Headers = []\<rparr>"

theorem mqtt_forward_roundtrip_witness:
  "mqtt_readPacket (mqtt_publish_packet mqtt_sample @ [0xC0, 0]) = Some (0x30, mqtt_publish_body mqtt_sample, [0xC0, 0])"
  using mqtt_forward_roundtrip [of mqtt_sample "(mqtt_newConn (\<lambda>_. None))\<lparr>connected := True\<rparr>" "[0xC0, 0]"]
  by (simp add: mqtt_sample_def mqtt_maxPacketSize_def mqtt_newConn_def)

end
