(* ===== verification/Nats.thy ===== *)
theory Nats
  imports Mqtt
begin

text \<open>
  The NATS gateway (\<^verbatim>\<open>internal/transport/nats/server.go\<close>): a line protocol in which \<^verbatim>\<open>PUB\<close> is
  followed by a payload of the announced size. The connection is the list of bytes still to be
  read, its writes are recorded; \<open>parse\<close> is \<^verbatim>\<open>json.Unmarshal\<close> into the options of \<^verbatim>\<open>CONNECT\<close>
  (token, user, password), and \<open>rest k\<close> what the rest of the program does to the broker before
  command \<open>k\<close>. Verbs are upper-cased as ASCII.
\<close>

record natsConn =
  authenticated :: bool
  subs :: "(string, string \<times> nat) gomap"
  nSent :: "bytes list"

definition writeString :: "string \<Rightarrow> natsConn \<Rightarrow> natsConn" where
  "writeString s nc = nc\<lparr>nSent := nSent nc @ [bytesOf s]\<rparr>"

definition crlf :: string where
  "crlf = [CHR 0x0D, CHR 0x0A]"

definition natsErr :: "string \<Rightarrow> string" where
  "natsErr reason = ''-ERR '' @ [CHR 0x27] @ reason @ [CHR 0x27] @ crlf"

definition translateSubject :: "string \<Rightarrow> string" where
  "translateSubject subject =
     (if HasSuffix subject ''.>'' then take (length subject - 2) subject @ ''.*''
      else if subject = ''>'' then ''*'' else subject)"

text \<open>\<^verbatim>\<open>ReadString\<close> up to a line break, and \<^verbatim>\<open>TrimRight\<close> of the line.\<close>

definition readLine :: "bytes \<Rightarrow> (string \<times> bytes) option" where
  "readLine r =
     (if 10 \<in> set r then Some (str (takeWhile (\<lambda>x. x \<noteq> 10) r), tl (dropWhile (\<lambda>x. x \<noteq> 10) r)) else None)"

definition trimLine :: "string \<Rightarrow> string" where
  "trimLine s = rev (dropWhile (\<lambda>c. c = CHR 0x0D \<or> c = CHR 0x0A) (rev s))"

lemma readLine_split:
  "readLine r = Some (l, r') \<Longrightarrow> (\<exists>x. r = bytesOf l @ x # r') \<and> length r' < length r"
proof -
  assume a: "readLine r = Some (l, r')"
  then have i: "10 \<in> set r" and l: "l = str (takeWhile (\<lambda>x. x \<noteq> 10) r)" "r' = tl (dropWhile (\<lambda>x. x \<noteq> 10) r)"
    by (auto simp: readLine_def split: if_splits)
  have "dropWhile (\<lambda>x. x \<noteq> 10) r \<noteq> []" using i by (auto simp: dropWhile_eq_Nil_conv)
  then obtain x where "dropWhile (\<lambda>x. x \<noteq> 10) r = x # r'" using l(2) by (cases "dropWhile (\<lambda>x. x \<noteq> 10) r") auto
  then have "r = bytesOf l @ x # r'" using takeWhile_dropWhile_id [of "\<lambda>x. x \<noteq> 10" r] by (simp add: l(1))
  then show ?thesis using arg_cong [of r _ length] by auto
qed

subsection \<open>Commands\<close>

definition nats_handleConnect ::
    "(string \<Rightarrow> (string \<times> string \<times> string) option) \<Rightarrow> string \<Rightarrow> string list \<Rightarrow> natsConn \<Rightarrow> error option \<times> natsConn" where
  "nats_handleConnect parse token flds nc =
     (if length flds < 2 then (Some ''CONNECT requires a JSON argument'', nc)
      else
        (case parse (Join (tl flds) '' '') of
           None \<Rightarrow> (Some ''CONNECT payload is not valid JSON'', nc)
         | Some (authToken, user, pass) \<Rightarrow>
            (if token = [] then (None, nc\<lparr>authenticated := True\<rparr>)
             else if list_ex (\<lambda>c. c \<noteq> [] \<and> c = token) [authToken, pass, user]
             then (None, nc\<lparr>authenticated := True\<rparr>)
             else (Some ''Authorization Violation'', nc))))"

text \<open>\<open>PUB\<close> reads its payload and the rest of its line off the stream, unless it fails before.\<close>

definition nats_maxPayload :: int where
  "nats_maxPayload = 2 * 2 ^ 20"

definition skipLine :: "bytes \<Rightarrow> bytes" where
  "skipLine r = (case readLine r of Some (_, r) \<Rightarrow> r | None \<Rightarrow> [])"

definition nats_handlePub :: "time \<Rightarrow> string list \<Rightarrow> bytes \<Rightarrow> Broker \<Rightarrow> (error option \<times> bytes \<times> Broker) run" where
  "nats_handlePub now flds reader b =
     (if length flds < 3 then Ret (Some ''PUB requires subject and byte count'', reader, b)
      else
        (let subject = flds ! 1; sizeStr = TrimSpace (flds ! 2) in
         case Atoi sizeStr of
           None \<Rightarrow> Ret (Some (''PUB invalid byte count: '' @ sizeStr), reader, b)
         | Some sz \<Rightarrow>
            (if sz < 0 then Ret (Some (''PUB invalid byte count: '' @ sizeStr), reader, b)
             else if sz > nats_maxPayload
             then Ret (Some (''PUB payload exceeds maximum size ('' @ Itoa nats_maxPayload @ '' bytes)''), reader, b)
             else
               (let topic = translateSubject subject in
                if \<not> IsValidTopicName topic then Ret (Some (''PUB invalid subject: '' @ subject), reader, b)
                else if length reader < nat sz
                then Ret (Some (''PUB failed to read payload: '' @ (if reader = [] then ''EOF'' else ''unexpected EOF'')), [], b)
                else
                  bind_run (Publish now topic (plain_request (take (nat sz) reader)) b)
                    (\<lambda>(err, b). Ret (err, skipLine (drop (nat sz) reader), b))))))"

definition nats_handleSub :: "string list \<Rightarrow> natsConn \<Rightarrow> Broker \<Rightarrow> error option \<times> natsConn \<times> Broker" where
  "nats_handleSub flds nc b =
     (if length flds < 3 then (Some ''SUB requires subject and sid'', nc, b)
      else
        (let subject = TrimSpace (flds ! 1); sid = TrimSpace (flds ! 2) in
         if sid = [] then (Some ''SUB sid cannot be empty'', nc, b)
         else if mget (subs nc) sid \<noteq> None
         then (Some (''SUB sid '' @ [CHR 0x27] @ sid @ [CHR 0x27] @ '' already in use''), nc, b)
         else
           (let topic = translateSubject subject in
            if \<not> IsValidTopicName topic then (Some (''SUB invalid subject: '' @ subject), nc, b)
            else case AddSpy topic b of
              (Inl e, b) \<Rightarrow> (Some (''SUB broker error: '' @ e), nc, b)
            | (Inr ch, b) \<Rightarrow> (None, nc\<lparr>subs := mput sid (topic, ch) (subs nc)\<rparr>, b))))"

definition nats_handleUnsub :: "string list \<Rightarrow> natsConn \<Rightarrow> Broker \<Rightarrow> natsConn \<times> Broker" where
  "nats_handleUnsub flds nc b =
     (if length flds < 2 then (nc, b)
      else case mget (subs nc) (TrimSpace (flds ! 1)) of
        None \<Rightarrow> (nc, b)
      | Some (subject, ch) \<Rightarrow>
         (nc\<lparr>subs := mdel (TrimSpace (flds ! 1)) (subs nc)\<rparr>, RemoveSpy subject ch b))"

text \<open>
  One command with its fields, the stream after its line; the first result tells whether the
  connection goes on.
\<close>

definition replyErr :: "error option \<Rightarrow> natsConn \<Rightarrow> natsConn" where
  "replyErr err nc = (case err of None \<Rightarrow> nc | Some e \<Rightarrow> writeString (natsErr e) nc)"

definition nats_command ::
    "(string \<Rightarrow> (string \<times> string \<times> string) option) \<Rightarrow> string \<Rightarrow> time \<Rightarrow> string list \<Rightarrow> bytes \<Rightarrow> natsConn \<Rightarrow> Broker
       \<Rightarrow> (bool \<times> bytes \<times> natsConn \<times> Broker) run" where
  "nats_command parse token now flds reader nc b =
     (let verb = ToUpper (TrimSpace (hd flds)) in
      if verb = ''CONNECT''
      then case nats_handleConnect parse token flds nc of
             (None, nc) \<Rightarrow> Ret (True, reader, writeString (''+OK'' @ crlf) nc, b)
           | (Some e, nc) \<Rightarrow> Ret (False, reader, writeString (natsErr e) nc, b)
      else if (verb = ''PUB'' \<or> verb = ''SUB'' \<or> verb = ''UNSUB'') \<and> \<not> authenticated nc
      then Ret (False, reader, writeString (natsErr ''Authorization Violation'') nc, b)
      else if verb = ''PUB''
      then bind_run (nats_handlePub now flds reader b) (\<lambda>(err, reader, b). Ret (True, reader, replyErr err nc, b))
      else if verb = ''SUB''
      then case nats_handleSub flds nc b of (err, nc, b) \<Rightarrow> Ret (True, reader, replyErr err nc, b)
      else if verb = ''UNSUB'' then case nats_handleUnsub flds nc b of (nc, b) \<Rightarrow> Ret (True, reader, nc, b)
      else if verb = ''PING'' then Ret (True, reader, writeString (''PONG'' @ crlf) nc, b)
      else if verb = ''PONG'' then Ret (True, reader, writeString (''PING'' @ crlf) nc, b)
      else Ret (True, reader, writeString (natsErr ''Unknown Protocol Operation'') nc, b))"

lemma skipLine_length: "length (skipLine r) \<le> length r"
  by (auto simp: skipLine_def dest: readLine_split split: option.split)

lemma nats_handlePub_length: "nats_handlePub now flds r b = Ret (e, r', b') \<Longrightarrow> length r' \<le> length r"
proof -
  assume a: "nats_handlePub now flds r b = Ret (e, r', b')"
  have d: "length (skipLine (drop k r)) \<le> length r" for k
    using skipLine_length [of "drop k r"] by simp
  have "bind_run x (\<lambda>(err, b). Ret (err, rr, b)) = Ret (e, r', b') \<Longrightarrow> r' = rr" for rr and x :: "(error option \<times> Broker) run"
    by (cases x) auto
  with a d show ?thesis
    unfolding nats_handlePub_def Let_def by (auto split: if_split_asm option.split_asm)
qed

lemma nats_command_length: "nats_command parse token now flds r nc b = Ret (go, r', nc', b') \<Longrightarrow> length r' \<le> length r"
proof -
  assume a: "nats_command parse token now flds r nc b = Ret (go, r', nc', b')"
  have p: "bind_run (nats_handlePub now flds r b) (\<lambda>(err, reader, b). Ret (True, reader, replyErr err nc, b)) = Ret (go, r', nc', b')
      \<Longrightarrow> length r' \<le> length r"
    using nats_handlePub_length by (cases "nats_handlePub now flds r b") auto
  show ?thesis using a p unfolding nats_command_def Let_def by (auto split: if_split_asm option.split_asm prod.split_asm)
qed

function nats_loop ::
    "(string \<Rightarrow> (string \<times> string \<times> string) option) \<Rightarrow> string \<Rightarrow> (nat \<Rightarrow> time) \<Rightarrow> (nat \<Rightarrow> Broker \<Rightarrow> Broker) \<Rightarrow> nat \<Rightarrow> bytes
       \<Rightarrow> natsConn \<Rightarrow> Broker \<Rightarrow> (natsConn \<times> Broker) run" where
  "nats_loop parse token clock rest k reader nc b =
     (case readLine reader of
        None \<Rightarrow> Ret (nc, b)
      | Some (line, reader') \<Rightarrow>
         (if trimLine line = [] then nats_loop parse token clock rest k reader' nc b
          else
            (case nats_command parse token (clock k) (SplitN (trimLine line) '' '' 4) reader' nc (rest k b) of
               Ret (True, reader'', nc, b) \<Rightarrow> nats_loop parse token clock rest (Suc k) reader'' nc b
             | Ret (False, reader'', nc, b) \<Rightarrow> Ret (nc, b)
             | Deadlock \<Rightarrow> Deadlock
             | Panic \<Rightarrow> Panic)))"
  by pat_completeness auto

termination
  apply (relation "measure (\<lambda>(_, _, _, _, _, reader, _). length reader)")
    apply simp
   apply (clarsimp, drule readLine_split, simp)
  apply (clarsimp, drule readLine_split, drule nats_command_length, simp)
  done

declare nats_loop.simps [simp del]

definition sendInfo :: "string \<Rightarrow> string \<Rightarrow> natsConn \<Rightarrow> natsConn" where
  "sendInfo infoJson token nc = writeString (''INFO '' @ infoJson @ crlf) nc"

definition nats_cleanup :: "natsConn \<Rightarrow> Broker \<Rightarrow> Broker" where
  "nats_cleanup nc b = fold (\<lambda>(_, subject, ch). RemoveSpy subject ch) (subs nc) b"

definition nats_handleClient ::
    "(string \<Rightarrow> (string \<times> string \<times> string) option) \<Rightarrow> string \<Rightarrow> string \<Rightarrow> (nat \<Rightarrow> time) \<Rightarrow> (nat \<Rightarrow> Broker \<Rightarrow> Broker) \<Rightarrow> bytes
       \<Rightarrow> Broker \<Rightarrow> (natsConn \<times> Broker) run" where
  "nats_handleClient parse infoJson token clock rest reader b =
     bind_run (nats_loop parse token clock rest 0 reader
                 (sendInfo infoJson token \<lparr>authenticated = (token = []), subs = [], nSent = []\<rparr>) b)
       (\<lambda>(nc, b). Ret (nc, nats_cleanup nc b))"

text \<open>What the push loop writes for a message.\<close>

definition sendMSG :: "string \<Rightarrow> message \<Rightarrow> bytes" where
  "sendMSG sid msg =
     bytesOf (''MSG '' @ message.Topic msg @ '' '' @ sid @ '' '' @ Itoa (int (length (Payload msg))) @ crlf)
     @ Payload msg @ bytesOf crlf"

text \<open>
  One turn of \<^verbatim>\<open>pushLoop\<close>: a closed and drained channel, the end of the server or a failed write ends it.
\<close>

definition nats_push :: "bool \<Rightarrow> bool \<Rightarrow> string \<Rightarrow> nat \<Rightarrow> natsConn \<Rightarrow> Broker \<Rightarrow> bool \<times> natsConn \<times> Broker" where
  "nats_push quit writeOk sid ch nc b =
     (if quit then (False, nc, b)
      else case buf (chans b ! ch) of
        [] \<Rightarrow> (\<not> chClosed (chans b ! ch), nc, b)
      | msg # _ \<Rightarrow> (writeOk, if writeOk then nc\<lparr>nSent := nSent nc @ [sendMSG sid msg]\<rparr> else nc, receive ch b))"


subsection \<open>Authentication\<close>

lemma SplitN_not_Nil: "SplitN s sep (Suc n) \<noteq> []"
  by (cases n) (simp_all split: option.split prod.split)

lemma Join_SplitN: "Join (SplitN s sep (Suc n)) sep = s"
proof (induction s sep "Suc n" arbitrary: n rule: SplitN.induct)
  case (3 s sep n)
  show ?case
  proof (cases "Cut s sep")
    case (Some p)
    obtain a b where p: "p = (a, b)" by (rule prod.exhaust)
    obtain x xs where x: "SplitN b sep (Suc n) = x # xs" using SplitN_not_Nil [of b sep n] by (cases "SplitN b sep (Suc n)") auto
    have "Join (SplitN b sep (Suc n)) sep = b" using 3 Some p by simp
    with x Some p Cut_Some [of s sep a b] show ?thesis by simp
  qed simp
qed simp

lemma sublist_bytesOf: "sublist x y \<Longrightarrow> sublist (bytesOf x) (bytesOf y)"
  by (auto simp: sublist_def) blast

lemma argument_sublist:
  assumes "readLine r = Some (l, r')" and "2 \<le> length (SplitN (trimLine l) '' '' 4)"
  shows "sublist (bytesOf (Join (tl (SplitN (trimLine l) '' '' 4)) '' '')) r"
proof -
  let ?f = "SplitN (trimLine l) '' '' 4"
  have four: "(4 :: nat) = Suc 3" by simp
  obtain x y ys where f: "?f = x # y # ys" using assms(2) by (cases ?f rule: list.exhaust; cases "tl ?f") auto
  have "trimLine l = x @ '' '' @ Join (y # ys) '' ''" using Join_SplitN [of "trimLine l" "'' ''" 3] f unfolding four by simp
  then have "sublist (Join (tl ?f) '' '') (trimLine l)" using f by (simp add: sublist_def) (metis append.right_neutral append_Cons append_Nil append_assoc)
  moreover have "\<exists>z. l = trimLine l @ z"
  proof -
    have "rev (rev l) = rev (takeWhile (\<lambda>c. c = CHR 0x0D \<or> c = CHR 0x0A) (rev l) @ dropWhile (\<lambda>c. c = CHR 0x0D \<or> c = CHR 0x0A) (rev l))"
      by (simp only: takeWhile_dropWhile_id)
    then show ?thesis unfolding trimLine_def by (metis rev_append rev_rev_ident)
  qed
  then have "sublist (trimLine l) l" by (metis sublist_appendI append_Nil)
  moreover have "sublist (bytesOf l) r" using readLine_split [OF assms(1)] by (metis sublist_appendI append_Nil)
  ultimately show ?thesis using sublist_bytesOf sublist_order.order_trans by metis
qed

text \<open>The JSON texts a connection can present are the parts of its bytes.\<close>

definition never_presents :: "(string \<Rightarrow> (string \<times> string \<times> string) option) \<Rightarrow> string \<Rightarrow> bytes \<Rightarrow> bool" where
  "never_presents parse token r \<longleftrightarrow> (\<forall>j a u p. sublist (bytesOf j) r \<longrightarrow> parse j = Some (a, u, p) \<longrightarrow> token \<notin> {a, u, p})"

lemma nats_unauthenticated_command:
  assumes "\<not> authenticated nc" and "token \<noteq> []"
    and "2 \<le> length flds \<Longrightarrow> \<forall>a u p. parse (Join (tl flds) '' '') = Some (a, u, p) \<longrightarrow> token \<notin> {a, u, p}"
  shows "\<exists>go nc'. nats_command parse token now flds r nc b = Ret (go, r, nc', b) \<and> \<not> authenticated nc' \<and> subs nc' = subs nc"
proof -
  have c: "\<exists>e. nats_handleConnect parse token flds nc = (Some e, nc)"
  proof (cases "parse (Join (tl flds) '' '')")
    case None
    then show ?thesis by (simp add: nats_handleConnect_def)
  next
    case (Some x)
    obtain a u p where x: "x = (a, u, p)" by (rule prod_cases3)
    show ?thesis
    proof (cases "2 \<le> length flds")
      case True
      with assms(3) Some x have "token \<notin> {a, u, p}" by simp
      with Some x assms(2) True show ?thesis by (auto simp: nats_handleConnect_def)
    qed (simp add: nats_handleConnect_def)
  qed
  then obtain e where "nats_handleConnect parse token flds nc = (Some e, nc)" by blast
  with assms(1) show ?thesis by (simp add: nats_command_def Let_def writeString_def ex_bool_eq)
qed

lemma sublist_suffix: "sublist x r' \<Longrightarrow> \<exists>y. r = y @ r' \<Longrightarrow> sublist x r"
  using sublist_order.order_trans by (metis append.right_neutral sublist_appendI)

lemma nats_unauthenticated_loop:
  assumes "token \<noteq> []"
  shows "never_presents parse token r \<Longrightarrow> \<not> authenticated nc \<Longrightarrow> subs nc = [] \<Longrightarrow>
    \<exists>nc' n. k \<le> n \<and> nats_loop parse token clock rest k r nc b = Ret (nc', fold rest [k..<n] b) \<and> \<not> authenticated nc' \<and> subs nc' = []"
proof (induction "length r" arbitrary: r k nc b rule: less_induct)
  case less
  show ?case
  proof (cases "readLine r")
    case None
    then show ?thesis using less.prems by (auto simp: nats_loop.simps [of _ _ _ _ _ r] intro: exI [of _ k])
  next
    case (Some x)
    obtain l r' where x: "x = (l, r')" by (rule prod.exhaust)
    note rl = Some [unfolded x]
    have len: "length r' < length r" using readLine_split [OF rl] by blast
    have "\<exists>y. r = y @ r'" using readLine_split [OF rl] by (metis append_Cons append_Nil append_assoc)
    then have np: "never_presents parse token r'"
      using less.prems(1) sublist_suffix unfolding never_presents_def by meson
    show ?thesis
    proof (cases "trimLine l = []")
      case True
      with less.hyps [OF len np less.prems(2,3), of k b] rl show ?thesis by (simp add: nats_loop.simps [of _ _ _ _ _ r])
    next
      case False
      let ?f = "SplitN (trimLine l) '' '' 4"
      have "2 \<le> length ?f \<Longrightarrow> \<forall>a u p. parse (Join (tl ?f) '' '') = Some (a, u, p) \<longrightarrow> token \<notin> {a, u, p}"
        using argument_sublist [OF rl] less.prems(1) unfolding never_presents_def by meson
      then obtain go nc' where c: "nats_command parse token (clock k) ?f r' nc (rest k b) = Ret (go, r', nc', rest k b)"
          "\<not> authenticated nc'" "subs nc' = []"
        using nats_unauthenticated_command [OF less.prems(2) assms, of ?f parse "clock k" r' "rest k b"] less.prems(3) by auto
      show ?thesis
      proof (cases go)
        case True
        obtain nc'' n where "Suc k \<le> n" "nats_loop parse token clock rest (Suc k) r' nc' (rest k b) = Ret (nc'', fold rest [Suc k..<n] (rest k b))"
            "\<not> authenticated nc''" "subs nc'' = []"
          using less.hyps [OF len np c(2,3), of "Suc k" "rest k b"] by blast
        moreover have "[k..<n] = k # [Suc k..<n]" using \<open>Suc k \<le> n\<close> by (simp add: upt_conv_Cons)
        ultimately show ?thesis
          using True False rl c(1) by (auto simp: nats_loop.simps [of _ _ _ _ _ r] intro!: exI [of _ n])
      next
        case False
        with \<open>trimLine l \<noteq> []\<close> rl c show ?thesis
          by (auto simp: nats_loop.simps [of _ _ _ _ _ r] intro!: exI [of _ "Suc k"])
      qed
    qed
  qed
qed

text \<open>
  C17: A NATS client that does not present the API key achieves nothing. When a key is set and no
  part of the connection's bytes is a JSON text that carries it as token, user or password, then
  serving the connection ends with the broker as the rest of the program left it, and the client is
  neither authenticated nor subscribed to anything.
\<close>

theorem nats_needs_api_key:
  assumes "token \<noteq> []" and "never_presents parse token r"
  shows "\<exists>nc' n. nats_handleClient parse infoJson token clock rest r b = Ret (nc', fold rest [0..<n] b)
     \<and> \<not> authenticated nc' \<and> subs nc' = []"
proof -
  let ?nc = "sendInfo infoJson token \<lparr>authenticated = (token = []), subs = [], nSent = []\<rparr>"
  have "\<not> authenticated ?nc" "subs ?nc = []" using assms(1) by (simp_all add: sendInfo_def writeString_def)
  then obtain nc' n where "nats_loop parse token clock rest 0 r ?nc b = Ret (nc', fold rest [0..<n] b)" "\<not> authenticated nc'" "subs nc' = []"
    using nats_unauthenticated_loop [OF assms, of ?nc 0] by blast
  then show ?thesis by (auto simp: nats_handleClient_def nats_cleanup_def)
qed

theorem nats_needs_api_key_witness:
  "\<exists>nc'. nats_handleClient (\<lambda>_. Some (''guess'', [], [])) [] ''key'' (\<lambda>_. 0) (\<lambda>_ b. b) (bytesOf (''CONNECT {}'' @ crlf @ ''PUB q 1'' @ crlf)) (sample_broker None)
     = Ret (nc', sample_broker None) \<and> \<not> authenticated nc'"
proof -
  have np: "never_presents (\<lambda>_. Some (''guess'', [], [])) ''key'' r" for r by (simp add: never_presents_def)
  have "fold (\<lambda>_ b. b) ns c = c" for ns :: "nat list" and c :: Broker by (induction ns) simp_all
  with nats_needs_api_key [OF _ np, of "[]" "\<lambda>_. 0" "\<lambda>_ b. b" "bytesOf (''CONNECT {}'' @ crlf @ ''PUB q 1'' @ crlf)" "sample_broker None"]
  show ?thesis by auto
qed

subsection \<open>Rejected publishes\<close>

lemma ten_bytesOf: "10 \<in> set (bytesOf s) \<longleftrightarrow> CHR 0x0A \<in> set s"
proof -
  have "(of_nat (of_char c) :: byte) = 10 \<longleftrightarrow> c = CHR 0x0A" for c :: char
  proof
    assume "(of_nat (of_char c) :: byte) = 10"
    from arg_cong [OF this, of unat] have "of_char c = (10 :: nat)" by (simp add: unat_byte)
    then have "char_of (of_char c :: nat) = (char_of (10 :: nat) :: char)" by simp
    moreover have "char_of (10 :: nat) = CHR 0x0A" by code_simp
    ultimately show "c = CHR 0x0A" by simp
  qed simp
  then show ?thesis by (auto simp: bytesOf_def image_iff)
qed

lemma readLine_bytes: "10 \<notin> set (bytesOf l) \<Longrightarrow> readLine (bytesOf l @ 10 # r) = Some (l, r)"
proof -
  assume "10 \<notin> set (bytesOf l)"
  then have a: "\<And>x. x \<in> set (bytesOf l) \<Longrightarrow> x \<noteq> 10" by blast
  have "takeWhile (\<lambda>x. x \<noteq> 10) (bytesOf l @ 10 # r) = bytesOf l" using a by (subst takeWhile_append2) auto
  moreover have "dropWhile (\<lambda>x. x \<noteq> 10) (bytesOf l @ 10 # r) = 10 # r" using a by (subst dropWhile_append2) auto
  ultimately show ?thesis by (simp add: readLine_def)
qed

text \<open>
  C39: The payload of a rejected publish is run as commands. When an authenticated client publishes
  to a subject that is not a valid topic, the gateway answers with an error and goes on with the
  bytes of the payload as if they were the next lines of the protocol.
\<close>

theorem rejected_payload_is_executed:
  assumes "authenticated nc" and "list_all (\<lambda>c. \<not> is_space c) subject" and "\<not> IsValidTopicName (translateSubject subject)"
    and "sz \<le> 2 * 2 ^ 20"
  shows "nats_loop parse token clock rest k (bytesOf (''PUB '' @ subject @ '' '' @ Itoa (int sz) @ crlf) @ payload) nc b
     = nats_loop parse token clock rest (Suc k) payload (writeString (natsErr (''PUB invalid subject: '' @ subject)) nc) (rest k b)"
proof -
  let ?line = "''PUB '' @ subject @ '' '' @ Itoa (int sz)"
  have it: "\<not> is_space c" if "c \<in> set (Itoa (int sz))" for c
    using that nat_digits_digit [of c sz] by (auto simp: Itoa_def is_space_def digit_char_def)
  have su: "\<not> is_space c" if "c \<in> set subject" for c using that assms(2) by (simp add: list_all_iff)
  have sc: "is_space (CHR 0x0A)" "is_space (CHR 0x0D)" "is_space (CHR '' '')" by (simp_all add: is_space_def)
  have "CHR 0x0A \<notin> set (?line @ [CHR 0x0D])" using it su sc(1) by auto
  then have "10 \<notin> set (bytesOf (?line @ [CHR 0x0D]))" by (simp only: ten_bytesOf) simp
  then have "readLine (bytesOf (?line @ [CHR 0x0D]) @ 10 # payload) = Some (?line @ [CHR 0x0D], payload)" by (rule readLine_bytes)
  then have rl: "readLine (bytesOf (?line @ crlf) @ payload) = Some (?line @ [CHR 0x0D], payload)" by (simp add: crlf_def bytesOf_def)
  have ne: "Itoa (int sz) \<noteq> []" by (simp add: Itoa_def)
  have lst: "last ?line = last (Itoa (int sz))" using ne by simp
  have "last (Itoa (int sz)) \<noteq> CHR 0x0D \<and> last (Itoa (int sz)) \<noteq> CHR 0x0A"
    using it [OF last_in_set [OF ne]] sc by auto
  then have tl: "trimLine (?line @ [CHR 0x0D]) = ?line"
    using ne by (auto simp: trimLine_def dropWhile_eq_self_iff hd_rev)
  have sp: "CHR '' '' \<notin> set subject" "CHR '' '' \<notin> set (Itoa (int sz))" using su it sc(3) by auto
  have four: "(4 :: nat) = Suc (Suc (Suc (Suc 0)))" by simp
  have cut: "Cut ?line '' '' = Some (''PUB'', subject @ '' '' @ Itoa (int sz))" by (simp add: Cut_char)
  have fl: "SplitN ?line '' '' 4 = [''PUB'', subject, Itoa (int sz)]"
    using Cut_char [OF sp(1), of "Itoa (int sz)"] Cut_char_None [OF sp(2)] unfolding four by (simp add: cut)
  have tz: "TrimSpace (Itoa (int sz)) = Itoa (int sz)"
    using it ne by (intro TrimSpace_id) auto
  have at: "Atoi (Itoa (int sz)) = Some (int sz)" using assms(4) by (intro Atoi_Itoa) auto
  have verb: "ToUpper (TrimSpace ''PUB'') = ''PUB''" by code_simp
  have "nats_handlePub (clock k) [''PUB'', subject, Itoa (int sz)] payload (rest k b) =
      Ret (Some (''PUB invalid subject: '' @ subject), payload, rest k b)"
    using assms(3,4) by (simp add: nats_handlePub_def tz at nats_maxPayload_def)
  then have "nats_command parse token (clock k) (SplitN ?line '' '' 4) payload nc (rest k b) =
      Ret (True, payload, writeString (natsErr (''PUB invalid subject: '' @ subject)) nc, rest k b)"
    unfolding fl using assms(1) by (simp add: nats_command_def verb replyErr_def)
  with rl tl show ?thesis by (subst nats_loop.simps) simp
qed

theorem rejected_payload_is_executed_witness:
  "\<exists>nc' b'. nats_loop (\<lambda>_. None) [] (\<lambda>_. 0) (\<lambda>_ b. b) 0 (bytesOf (''PUB a..b 9'' @ crlf) @ bytesOf (''PUB q 1'' @ crlf @ ''x'' @ crlf))
       \<lparr>authenticated = True, subs = [], nSent = []\<rparr> (sample_broker None) = Ret (nc', b')
     \<and> map Payload (GetStateSnapshot b') = [bytesOf ''x'']"
proof -
  let ?nc = "\<lparr>authenticated = True, subs = [], nSent = []\<rparr>" let ?p = "bytesOf (''PUB q 1'' @ crlf @ ''x'' @ crlf)"
  have h: "list_all (\<lambda>c. \<not> is_space c) ''a..b''" "\<not> IsValidTopicName (translateSubject ''a..b'')" "Itoa (int 9) = ''9''"
    by (code_simp, code_simp, code_simp)
  have "nats_loop (\<lambda>_. None) [] (\<lambda>_. 0) (\<lambda>_ b. b) 0 (bytesOf (''PUB a..b 9'' @ crlf) @ ?p) ?nc (sample_broker None)
      = nats_loop (\<lambda>_. None) [] (\<lambda>_. 0) (\<lambda>_ b. b) (Suc 0) ?p (writeString (natsErr (''PUB invalid subject: '' @ ''a..b'')) ?nc) (sample_broker None)"
    using rejected_payload_is_executed [of ?nc "''a..b''" 9 "\<lambda>_. None" "[]" "\<lambda>_. 0" "\<lambda>_ b. b" 0 ?p "sample_broker None"] h by simp
  moreover have "case nats_loop (\<lambda>_. None) [] (\<lambda>_. 0) (\<lambda>_ b. b) (Suc 0) ?p (writeString (natsErr (''PUB invalid subject: '' @ ''a..b'')) ?nc) (sample_broker None)
      of Ret (nc', b') \<Rightarrow> map Payload (GetStateSnapshot b') = [bytesOf ''x''] | _ \<Rightarrow> False" by code_simp
  ultimately show ?thesis by (auto split: run.splits)
qed

text \<open>Subjects with a wildcard in the middle pass the translation and fail the validation.\<close>

lemma middle_wildcard_refused:
  "translateSubject ''sensors.*.temp'' = ''sensors.*.temp'' \<and> \<not> IsValidTopicName ''sensors.*.temp''"
  by code_simp

subsection \<open>The gateway and the broker\<close>

lemma nats_handlePub_calls:
  assumes "broker_inv b"
  shows "\<exists>e r' b'. nats_handlePub now flds r b = Ret (e, r', b') \<and> broker_calls b b'"
proof -
  have "\<exists>e r' b'. bind_run (Publish now t req b) (\<lambda>(err, b). Ret (err, s, b)) = Ret (e, r', b') \<and> broker_calls b b'" for t req s
  proof -
    obtain e b' where p: "Publish now t req b = Ret (e, b')" by (rule Publish_returns [OF assms])
    then show ?thesis using Publish_calls [OF p] by simp
  qed
  then show ?thesis by (auto simp: nats_handlePub_def Let_def split: option.split)
qed

lemma nats_handleSub_calls: "nats_handleSub flds nc b = (e, nc', b') \<Longrightarrow> broker_calls b b'"
  by (auto simp: nats_handleSub_def Let_def split: if_splits prod.splits sum.splits intro: AddSpy_calls)

lemma nats_handleUnsub_calls: "nats_handleUnsub flds nc b = (nc', b') \<Longrightarrow> broker_calls b b'"
  using RemoveSpy_calls by (auto simp: nats_handleUnsub_def split: if_splits option.splits)

lemma nats_command_calls:
  assumes "broker_inv b"
  shows "\<exists>go r' nc' b'. nats_command parse token now flds r nc b = Ret (go, r', nc', b') \<and> broker_calls b b'"
proof -
  obtain e r1 b1 where p: "nats_handlePub now flds r b = Ret (e, r1, b1)" "broker_calls b b1"
    using nats_handlePub_calls [OF assms] by blast
  obtain e2 nc2 b2 where s: "nats_handleSub flds nc b = (e2, nc2, b2)" by (rule prod_cases3)
  obtain nc3 b3 where u: "nats_handleUnsub flds nc b = (nc3, b3)" by (rule prod.exhaust)
  obtain e4 nc4 where c: "nats_handleConnect parse token flds nc = (e4, nc4)" by (rule prod.exhaust)
  show ?thesis
    using p s u c nats_handleSub_calls [OF s] nats_handleUnsub_calls [OF u]
    by (cases e4) (simp_all add: nats_command_def Let_def ex_bool_eq)
qed

definition nats_turn ::
    "(string \<Rightarrow> (string \<times> string \<times> string) option) \<Rightarrow> string \<Rightarrow> (nat \<Rightarrow> time) \<Rightarrow> (nat \<Rightarrow> Broker \<Rightarrow> Broker) \<Rightarrow> nat \<Rightarrow> bytes
       \<Rightarrow> natsConn \<Rightarrow> Broker \<Rightarrow> ((nat \<times> bytes) option \<times> natsConn \<times> Broker) run" where
  "nats_turn parse token clock rest k r nc b =
     (case readLine r of
        None \<Rightarrow> Ret (None, nc, b)
      | Some (line, r') \<Rightarrow>
         (if trimLine line = [] then Ret (Some (k, r'), nc, b)
          else bind_run (nats_command parse token (clock k) (SplitN (trimLine line) '' '' 4) r' nc (rest k b))
                 (\<lambda>(go, r'', nc, b). Ret (if go then Some (Suc k, r'') else None, nc, b))))"

sublocale environment \<subseteq> nats_conn: connection_loop "nats_loop parse token clock rest" "nats_turn parse token clock rest" for parse token clock
proof unfold_locales
  fix k s c b
  show "nats_loop parse token clock rest k s c b = bind_run (nats_turn parse token clock rest k s c b)
      (\<lambda>(r, c, b). case r of None \<Rightarrow> Ret (c, b) | Some (k, s) \<Rightarrow> nats_loop parse token clock rest k s c b)"
    by (subst nats_loop.simps) (auto simp: nats_turn_def split: option.splits run.splits bool.splits)
next
  fix k s c b k' s' c' b'
  assume t: "nats_turn parse token clock rest k s c b = Ret (Some (k', s'), c', b')"
  then obtain line r' where l: "readLine s = Some (line, r')" by (auto simp: nats_turn_def split: option.splits)
  have "length s' \<le> length r'"
  proof (cases "trimLine line = []")
    case False
    with t l obtain b1 where "nats_command parse token (clock k) (SplitN (trimLine line) '' '' 4) r' c (rest k b) = Ret (True, s', c', b1)"
      by (auto simp: nats_turn_def split: if_splits elim!: bind_run.elims)
    then show ?thesis by (rule nats_command_length)
  qed (use t l in \<open>simp add: nats_turn_def\<close>)
  then show "length s' < length s" using readLine_split [OF l] by linarith
next
  fix k s c and b :: Broker
  assume i: "broker_inv b"
  show "\<exists>r c' b'. nats_turn parse token clock rest k s c b = Ret (r, c', b') \<and> broker_calls b b'"
  proof (cases "readLine s")
    case (Some x)
    obtain line r' where x: "x = (line, r')" by (rule prod.exhaust)
    obtain go r2 nc b1 where "nats_command parse token (clock k) (SplitN (trimLine line) '' '' 4) r' c (rest k b) = Ret (go, r2, nc, b1)"
        "broker_calls (rest k b) b1" using nats_command_calls [OF rest_inv [OF i]] by blast
    with rest_calls [of b k] Some x show ?thesis by (auto simp: nats_turn_def intro: rtranclp_trans)
  qed (simp add: nats_turn_def)
qed

context environment
begin

lemmas nats_loop_calls = nats_conn.loop_calls

end

lemma nats_cleanup_calls: "broker_calls b (nats_cleanup nc b)"
proof -
  have "nats_cleanup nc b = fold (\<lambda>(t, c). RemoveSpy t c) (map snd (subs nc)) b"
    by (simp add: nats_cleanup_def fold_map comp_def split_def)
  then show ?thesis using RemoveSpies_calls by simp
qed

text \<open>
  The NATS gateway keeps the broker alive. Whatever a client sends, and whatever the rest of
  the program does to the broker between two commands by broker operations, serving the
  connection returns, and its effect on the broker is a sequence of broker operations.
\<close>

theorem nats_connection_is_broker_calls:
  assumes "broker_inv b" and "\<And>k b. broker_calls b (rest k b)"
  shows "\<exists>nc' b'. nats_handleClient parse info token clock rest r b = Ret (nc', b') \<and> broker_calls b b' \<and> broker_inv b'"
proof -
  have "environment rest" using assms(2) by unfold_locales
  from environment.nats_loop_calls [OF this assms(1)]
  obtain nc' b' where l: "nats_loop parse token clock rest 0 r
      (sendInfo info token \<lparr>authenticated = (token = []), subs = [], nSent = []\<rparr>) b = Ret (nc', b')" "broker_calls b b'" by blast
  then have "broker_calls b (nats_cleanup nc' b')" using nats_cleanup_calls [of b' nc'] by (rule_tac rtranclp_trans)
  with l assms(1) show ?thesis by (auto simp: nats_handleClient_def intro: broker_calls_inv)
qed

theorem nats_connection_is_broker_calls_witness:
  "\<exists>nc' b'. nats_handleClient (\<lambda>_. None) [] [] (\<lambda>_. 0) (\<lambda>_ b. RemoveSpy ''t'' 0 b) (bytesOf ''PING'') (sample_broker None) = Ret (nc', b')
     \<and> broker_inv b'"
  using nats_connection_is_broker_calls [of "sample_broker None" "\<lambda>_ b. RemoveSpy ''t'' 0 b" "\<lambda>_. None" "[]" "[]" "\<lambda>_. 0" "bytesOf ''PING''"]
    broker_init_inv [OF sample_broker_init] RemoveSpy_calls by blast

end
