(* ===== verification/Cluster.thy ===== *)
theory Cluster
  imports Bytes BrokerSteps
begin

text \<open>
  A cluster node (\<^verbatim>\<open>internal/cluster/node.go\<close>): its state, the messages it sends, what it does
  with each line a peer sends it, elections, heartbeats, replication and synchronisation.
  The environment variables, the host name and the hex text of HMAC-SHA256 are the record
  \<open>cluster_env\<close>. Sections under the node's mutex are atomic; network answers are arguments.
\<close>

subsection \<open>Text routines\<close>

text \<open>
  \<^verbatim>\<open>fmt.Sscanf\<close> with \<^verbatim>\<open>%d\<close> into a variable that holds 0: a sign and the leading digits;
  the variable keeps 0 when there are none or the number does not fit.
\<close>

definition Sscanf_d :: "string \<Rightarrow> int" where
  "Sscanf_d s =
     (let s = dropWhile is_space s;
          neg = (s \<noteq> [] \<and> hd s = CHR ''-'');
          s = (if s \<noteq> [] \<and> (hd s = CHR ''-'' \<or> hd s = CHR ''+'') then tl s else s);
          ds = takeWhile (\<lambda>c. char_digit c \<noteq> None) s in
      case ParseUint ds of
        None \<Rightarrow> 0
      | Some v \<Rightarrow>
         (let v = (if neg then - int v else int v) in
          if - (2 ^ 63) \<le> v \<and> v < 2 ^ 63 then v else 0))"

subsection \<open>State\<close>

datatype Role = Follower | Candidate | Leader

record Peer =
  pAddress :: string
  IsAlive :: bool
  LastSeen :: time

record cluster_env =
  envLeader :: string \<comment> \<open>\<^verbatim>\<open>TINYMQ_CLUSTER_LEADER\<close>\<close>
  envSecret :: string \<comment> \<open>\<^verbatim>\<open>TINYMQ_CLUSTER_SECRET\<close>\<close>
  envInsecure :: string \<comment> \<open>\<^verbatim>\<open>TINYMQ_CLUSTER_ALLOW_INSECURE\<close>\<close>
  envNodes :: string \<comment> \<open>\<^verbatim>\<open>TINYMQ_CLUSTER_NODES\<close>\<close>
  envSelf :: string \<comment> \<open>\<^verbatim>\<open>TINYMQ_CLUSTER_SELF\<close>\<close>
  envAdvertise :: string \<comment> \<open>\<^verbatim>\<open>TINYMQ_CLUSTER_HTTP_ADVERTISE\<close>\<close>
  envTimeout :: string \<comment> \<open>the replication timeout as \<^verbatim>\<open>%v\<close> prints it\<close>
  hostname :: string
  hmacHex :: "string \<Rightarrow> string \<Rightarrow> string" \<comment> \<open>key and message\<close>

record Node =
  Address :: string
  HttpPort :: string
  LeaderHttp :: string
  role :: Role
  Peers :: "(string, Peer) gomap"
  CurrentTerm :: int
  VotedFor :: string
  votesReceived :: int
  lastHeartbeatSeen :: time
  clusterSecret :: string
  isSynced :: bool
  quorumSize :: int

definition selfAddr :: "cluster_env \<Rightarrow> Node \<Rightarrow> string" where
  "selfAddr env n = (if envSelf env \<noteq> [] then envSelf env else Address n)"

definition loadPeer :: "cluster_env \<Rightarrow> string \<Rightarrow> Node \<Rightarrow> Node" where
  "loadPeer env addr n =
     (let addr = TrimSpace addr in
      if addr = [] \<or> addr = selfAddr env n then n
      else
        (let host = hostOf addr in
         if host = hostname env \<or> HasPrefix host (hostname env @ ''.'') then n
         else n\<lparr>Peers := mput addr \<lparr>pAddress = addr, IsAlive = False, LastSeen = 0\<rparr> (Peers n)\<rparr>))"

definition loadPeersFromEnv :: "cluster_env \<Rightarrow> Node \<Rightarrow> Node" where
  "loadPeersFromEnv env n = (if envNodes env = [] then n else fold (loadPeer env) (Split (envNodes env) '','') n)"

text \<open>\<^const>\<open>None\<close> is the fatal exit without a secret; the node installs the broker's callbacks.\<close>

definition NewNode ::
    "cluster_env \<Rightarrow> time \<Rightarrow> string \<Rightarrow> string \<Rightarrow> (nat \<Rightarrow> error option) \<Rightarrow> Broker \<Rightarrow> (Node \<times> Broker) option" where
  "NewNode env now bindAddr httpPort results b =
     (if envSecret env = [] \<and> envInsecure env \<noteq> ''true'' then None
      else Some (loadPeersFromEnv env
             \<lparr>Address = bindAddr, HttpPort = httpPort, LeaderHttp = [],
              role = (if envLeader env = ''true'' then Leader else Follower), Peers = [], CurrentTerm = 0,
              VotedFor = [], votesReceived = 0, lastHeartbeatSeen = now, clusterSecret = envSecret env,
              isSynced = False, quorumSize = 0\<rparr>,
            b\<lparr>OnPublish := Some results, OnGroupCreate := True\<rparr>))"

subsection \<open>Signatures\<close>

definition signMessage :: "cluster_env \<Rightarrow> Node \<Rightarrow> string \<Rightarrow> string" where
  "signMessage env n message =
     (if clusterSecret n = [] then ''NO_MAC'' else hmacHex env (clusterSecret n) message)"

definition verifyMessage :: "cluster_env \<Rightarrow> Node \<Rightarrow> string \<Rightarrow> string \<Rightarrow> bool" where
  "verifyMessage env n message receivedMac =
     (if clusterSecret n = [] then True else signMessage env n message = receivedMac)"

text \<open>A signed line, without the line break at its end.\<close>

definition signed :: "cluster_env \<Rightarrow> Node \<Rightarrow> string \<Rightarrow> string" where
  "signed env n body = body @ '' '' @ signMessage env n body"

subsection \<open>Peers\<close>

definition markPeerAlive :: "time \<Rightarrow> string \<Rightarrow> Node \<Rightarrow> Node" where
  "markPeerAlive now addr n =
     (case mget (Peers n) addr of
        Some p \<Rightarrow> n\<lparr>Peers := mput addr (p\<lparr>IsAlive := True, LastSeen := now\<rparr>) (Peers n)\<rparr>
      | None \<Rightarrow> n)"

definition markPeerDead :: "string \<Rightarrow> Node \<Rightarrow> Node" where
  "markPeerDead addr n =
     (case mget (Peers n) addr of
        Some p \<Rightarrow> n\<lparr>Peers := mput addr (p\<lparr>IsAlive := False\<rparr>) (Peers n)\<rparr>
      | None \<Rightarrow> n)"

definition alivePeers :: "Node \<Rightarrow> string list" where
  "alivePeers n = map fst (filter (\<lambda>(addr, p). IsAlive p) (Peers n))"

definition GetPeersSnapshot :: "Node \<Rightarrow> (string \<times> bool \<times> time) list" where
  "GetPeersSnapshot n = map (\<lambda>(_, p). (pAddress p, IsAlive p, LastSeen p)) (Peers n)"

subsection \<open>Elections\<close>

definition evaluateVote :: "cluster_env \<Rightarrow> time \<Rightarrow> int \<Rightarrow> string \<Rightarrow> Node \<Rightarrow> bool \<times> Node" where
  "evaluateVote env now term candidate n =
     (if envLeader env = ''true'' then (False, n)
      else if term < CurrentTerm n then (False, n)
      else
        (let n = (if term > CurrentTerm n then n\<lparr>CurrentTerm := term, role := Follower, VotedFor := []\<rparr> else n) in
         if VotedFor n = [] \<or> VotedFor n = candidate
         then (True, n\<lparr>VotedFor := candidate, lastHeartbeatSeen := now\<rparr>)
         else (False, n)))"

text \<open>The second result are the calls of \<^verbatim>\<open>requestVoteFromPeer\<close> it starts.\<close>

definition startElection :: "cluster_env \<Rightarrow> time \<Rightarrow> Node \<Rightarrow> Node \<times> (string \<times> int) list" where
  "startElection env now n =
     (let term = wrap64 (CurrentTerm n + 1);
          n = n\<lparr>role := Candidate, CurrentTerm := term, VotedFor := selfAddr env n, votesReceived := 1,
                lastHeartbeatSeen := now\<rparr> in
      (n, map (\<lambda>(addr, _). (addr, term)) (Peers n)))"

text \<open>The timeout from eight random bytes, in nanoseconds, and what happens when it fires.\<close>

definition electionTimeout :: "bytes option \<Rightarrow> time" where
  "electionTimeout random =
     (let b = (case random of Some b \<Rightarrow> b | None \<Rightarrow> [5, 0, 0, 0, 0, 0, 0, 0]);
          u = foldr (\<lambda>x acc. unat x + 256 * acc) b 0 in
      (3000 + int (u mod 3000)) * 1000000)"

definition electionTick :: "cluster_env \<Rightarrow> time \<Rightarrow> time \<Rightarrow> Node \<Rightarrow> Node \<times> (string \<times> int) list" where
  "electionTick env now timeout n =
     (if role n \<noteq> Leader \<and> now - lastHeartbeatSeen n > timeout \<and> envLeader env \<noteq> ''true''
      then startElection env now n else (n, []))"

definition calculateQuorum :: "cluster_env \<Rightarrow> Node \<Rightarrow> int \<times> Node" where
  "calculateQuorum env n =
     (if quorumSize n > 0 then (quorumSize n, n)
      else
        (let q = (if envNodes env = [] then 1
                  else int ((length (Split (envNodes env) '','') + 1) div 2 + 1)) in
         (q, n\<lparr>quorumSize := q\<rparr>)))"

definition voteRequest :: "cluster_env \<Rightarrow> Node \<Rightarrow> int \<Rightarrow> string" where
  "voteRequest env n term = signed env n (''REQUEST_VOTE '' @ Itoa term @ '' '' @ selfAddr env n)"

text \<open>The answer of a peer to a vote request made for \<open>term\<close>.\<close>

definition voteResponse :: "cluster_env \<Rightarrow> int \<Rightarrow> string \<Rightarrow> Node \<Rightarrow> Node" where
  "voteResponse env term resp n =
     (if HasPrefix (TrimSpace resp) ''VOTE_GRANTED''
      then case calculateQuorum env n of (quorum, n) \<Rightarrow>
        (if role n = Candidate \<and> CurrentTerm n = term
         then (let n = n\<lparr>votesReceived := votesReceived n + 1\<rparr> in
               if votesReceived n \<ge> quorum then n\<lparr>role := Leader\<rparr> else n)
         else n)
      else n)"

subsection \<open>Heartbeats\<close>

text \<open>The first result is the leader a synchronisation is started with, if any.\<close>

definition handleHeartbeat :: "time \<Rightarrow> int \<Rightarrow> string \<Rightarrow> string \<Rightarrow> Node \<Rightarrow> string option \<times> Node" where
  "handleHeartbeat now term leader leaderHttp n =
     (let acceptsHeartbeat = term > CurrentTerm n \<or> (term = CurrentTerm n \<and> (VotedFor n = leader \<or> VotedFor n = []));
          n = (if VotedFor n \<noteq> leader then n\<lparr>isSynced := False\<rparr> else n);
          n = (if acceptsHeartbeat
               then n\<lparr>lastHeartbeatSeen := now, role := Follower, CurrentTerm := term, VotedFor := leader,
                      LeaderHttp := leaderHttp\<rparr>
               else n) in
      if \<not> isSynced n \<and> role n = Follower then (Some leader, n\<lparr>isSynced := True\<rparr>) else (None, n))"

definition advertised :: "cluster_env \<Rightarrow> Node \<Rightarrow> string \<Rightarrow> string" where
  "advertised env n host =
     (if envAdvertise env = [] then host @ '':'' @ HttpPort n
      else if \<not> Contains (envAdvertise env) '':'' then envAdvertise env @ '':'' @ HttpPort n
      else envAdvertise env)"

definition heartbeatMessage :: "cluster_env \<Rightarrow> Node \<Rightarrow> string" where
  "heartbeatMessage env n =
     signed env n (''HEARTBEAT '' @ Itoa (CurrentTerm n) @ '' '' @ selfAddr env n @ '' '' @ advertised env n (hostOf (Address n)))"

definition pingMessage :: "cluster_env \<Rightarrow> Node \<Rightarrow> string" where
  "pingMessage env n = signed env n (''PING '' @ selfAddr env n @ '' '' @ HttpPort n)"

text \<open>\<^verbatim>\<open>pingPeer\<close> and \<^verbatim>\<open>sendHeartbeat\<close> after the answer, \<^const>\<open>None\<close> when there is none.\<close>

definition peerAnswered :: "string \<Rightarrow> time \<Rightarrow> string \<Rightarrow> string option \<Rightarrow> Node \<Rightarrow> Node" where
  "peerAnswered expected now target resp n =
     (case resp of
        Some r \<Rightarrow> (if TrimSpace r = expected then markPeerAlive now target n else markPeerDead target n)
      | None \<Rightarrow> markPeerDead target n)"

definition sendHeartbeat :: "time \<Rightarrow> string \<Rightarrow> string option \<Rightarrow> Node \<Rightarrow> Node" where
  "sendHeartbeat = peerAnswered ''PONG_HEARTBEAT''"

definition pingPeer :: "time \<Rightarrow> string \<Rightarrow> string option \<Rightarrow> Node \<Rightarrow> Node" where
  "pingPeer = peerAnswered ''PONG''"

text \<open>One tick: the peers contacted, as many as the semaphore has room for.\<close>

definition dispatchGossip :: "nat \<Rightarrow> Node \<Rightarrow> string list" where
  "dispatchGossip free n = take free (map fst (Peers n))"

definition gossipTick :: "bool \<Rightarrow> nat \<Rightarrow> Node \<Rightarrow> string list" where
  "gossipTick leaderTicker free n = (if leaderTicker = (role n = Leader) then dispatchGossip free n else [])"

definition IsLeader :: "Node \<Rightarrow> bool" where
  "IsLeader n \<longleftrightarrow> role n = Leader"

definition GetLeaderHTTP :: "cluster_env \<Rightarrow> Node \<Rightarrow> string" where
  "GetLeaderHTTP env n = (if role n = Leader then advertised env n ''127.0.0.1'' else LeaderHttp n)"

fun RoleString :: "Node \<Rightarrow> string" where
  "RoleString n = (case role n of Leader \<Rightarrow> ''leader'' | Candidate \<Rightarrow> ''candidate'' | Follower \<Rightarrow> ''follower'')"

subsection \<open>Replication\<close>

definition replicateBody :: "cluster_env \<Rightarrow> Node \<Rightarrow> int \<Rightarrow> string \<Rightarrow> bytes \<Rightarrow> string" where
  "replicateBody env n term topic payload =
     ''REPLICATE '' @ Itoa term @ '' '' @ selfAddr env n @ '' '' @ topic @ '' '' @ b64_encode payload"

definition replicateMessage :: "cluster_env \<Rightarrow> Node \<Rightarrow> string \<Rightarrow> bytes \<Rightarrow> string" where
  "replicateMessage env n topic payload = signed env n (replicateBody env n (CurrentTerm n) topic payload)"

definition bindingMessage :: "cluster_env \<Rightarrow> Node \<Rightarrow> string \<Rightarrow> string \<Rightarrow> string" where
  "bindingMessage env n topic grp = signed env n (''BIND_GROUP '' @ Itoa (CurrentTerm n) @ '' '' @ topic @ '' '' @ grp)"

text \<open>
  The wait for a quorum: \<open>answers\<close> gives what each peer answered before the timer fired. The
  answer is counted when it is the expected one; the leader counts for itself.
\<close>

definition successCount :: "string \<Rightarrow> (string \<Rightarrow> string option) \<Rightarrow> Node \<Rightarrow> int" where
  "successCount expected answers n =
     1 + int (length (filter (\<lambda>a. case answers a of Some r \<Rightarrow> TrimSpace r = expected | None \<Rightarrow> False) (alivePeers n)))"

definition awaitQuorum ::
    "string \<Rightarrow> string \<Rightarrow> cluster_env \<Rightarrow> (string \<Rightarrow> string option) \<Rightarrow> Node \<Rightarrow> error option \<times> Node" where
  "awaitQuorum expected what env answers n =
     (if role n \<noteq> Leader then (Some ''HTTP_PROXY_REQUIRED'', n)
      else if alivePeers n = [] then (None, n)
      else case calculateQuorum env n of (quorum, n) \<Rightarrow>
        (if successCount expected answers n < quorum
         then (Some (what @ '' quorum timeout: '' @ Itoa (successCount expected answers n) @ ''/''
                     @ Itoa (int (length (Peers n)) + 1) @ '' ACKs received within '' @ envTimeout env), n)
         else (None, n)))"

definition Replicate :: "cluster_env \<Rightarrow> (string \<Rightarrow> string option) \<Rightarrow> Node \<Rightarrow> error option \<times> Node" where
  "Replicate = awaitQuorum ''REPLICATE_ACK'' ''replication''"

definition ReplicateBinding :: "cluster_env \<Rightarrow> (string \<Rightarrow> string option) \<Rightarrow> Node \<Rightarrow> error option \<times> Node" where
  "ReplicateBinding = awaitQuorum ''BIND_GROUP_ACK'' ''binding''"

subsection \<open>Incoming lines\<close>

text \<open>What one line makes a node write and start, and whether the connection stays open.\<close>

record peer_out =
  written :: "string list"
  stays :: bool
  syncWith :: "string option"

definition reply :: "string list \<Rightarrow> peer_out" where
  "reply ws = \<lparr>written = ws, stays = True, syncWith = None\<rparr>"

definition trustedLeader :: "int \<Rightarrow> string \<Rightarrow> Node \<Rightarrow> bool" where
  "trustedLeader term leaderAddr n \<longleftrightarrow>
     term > CurrentTerm n \<or> (term = CurrentTerm n \<and> (VotedFor n = [] \<or> VotedFor n = leaderAddr))"

definition on_heartbeat :: "time \<Rightarrow> string list \<Rightarrow> Node \<Rightarrow> peer_out \<times> Node" where
  "on_heartbeat now parts n =
     (if length parts < 3 then (reply [], n)
      else
        (let leaderAddr = parts ! 2; leaderHttp = (if length parts > 3 then parts ! 3 else []) in
         case handleHeartbeat now (Sscanf_d (parts ! 1)) leaderAddr leaderHttp n of
           (sync, n) \<Rightarrow> ((reply [''PONG_HEARTBEAT''])\<lparr>syncWith := sync\<rparr>, markPeerAlive now leaderAddr n)))"

definition on_replicate :: "time \<Rightarrow> string list \<Rightarrow> Node \<Rightarrow> Broker \<Rightarrow> (peer_out \<times> Node \<times> Broker) run" where
  "on_replicate now parts n b =
     (if length parts < 5 then Ret (reply [], n, b)
      else
        (let term = Sscanf_d (parts ! 1); leaderAddr = parts ! 2; topic = parts ! 3 in
         if trustedLeader term leaderAddr n
         then
           (let n = n\<lparr>CurrentTerm := term, role := Follower, VotedFor := leaderAddr, lastHeartbeatSeen := now\<rparr> in
            case b64_decode (parts ! 4) of
              None \<Rightarrow> Ret (reply [''REPLICATE_ERR''], n, b)
            | Some payload \<Rightarrow>
               bind_run (PublishReplicated now topic payload b) (\<lambda>(_, b). Ret (reply [''REPLICATE_ACK''], n, b)))
         else Ret (reply [''REPLICATE_DENIED''], n, b)))"

definition on_sync :: "cluster_env \<Rightarrow> string list \<Rightarrow> Node \<Rightarrow> Broker \<Rightarrow> peer_out" where
  "on_sync env parts n b =
     (if length parts < 2 then reply []
      else if role n = Leader
      then reply (map (\<lambda>m. signed env n (replicateBody env n (CurrentTerm n) (message.Topic m) (Payload m))) (GetStateSnapshot b)
                  @ [signed env n ''SYNC_COMPLETE''])
      else reply [])"

definition on_vote :: "cluster_env \<Rightarrow> time \<Rightarrow> string list \<Rightarrow> Node \<Rightarrow> peer_out \<times> Node" where
  "on_vote env now parts n =
     (if length parts < 3 then (reply [], n)
      else
        (case evaluateVote env now (Sscanf_d (parts ! 1)) (parts ! 2) n of
           (allowed, n) \<Rightarrow>
             (reply [if allowed then signed env n (''VOTE_GRANTED '' @ Itoa (CurrentTerm n))
                     else ''VOTE_DENIED '' @ Itoa (CurrentTerm n)], n)))"

definition on_bind :: "string list \<Rightarrow> Node \<Rightarrow> Broker \<Rightarrow> peer_out \<times> Broker" where
  "on_bind parts n b =
     (if length parts < 5 then (reply [], b)
      else if trustedLeader (Sscanf_d (parts ! 1)) (parts ! 2) n
      then (case CreateGroup (parts ! 3) (parts ! 4) b of
              (Inr _, b) \<Rightarrow> (reply [''BIND_GROUP_ACK''], b)
            | (Inl _, b) \<Rightarrow> (reply [''BIND_GROUP_ERR''], b))
      else (reply [''BIND_GROUP_DENIED''], b))"

definition peer_command ::
    "cluster_env \<Rightarrow> time \<Rightarrow> string \<Rightarrow> string list \<Rightarrow> Node \<Rightarrow> Broker \<Rightarrow> (peer_out \<times> Node \<times> Broker) run" where
  "peer_command env now cmd parts n b =
     (if cmd = ''PING''
      then Ret (if length parts < 3 then (reply [], n, b) else (reply [''PONG''], markPeerAlive now (parts ! 1) n, b))
      else if cmd = ''HEARTBEAT'' then case on_heartbeat now parts n of (out, n) \<Rightarrow> Ret (out, n, b)
      else if cmd = ''REPLICATE'' then on_replicate now parts n b
      else if cmd = ''SYNC_REQ'' then Ret (on_sync env parts n b, n, b)
      else if cmd = ''REQUEST_VOTE'' then case on_vote env now parts n of (out, n) \<Rightarrow> Ret (out, n, b)
      else if cmd = ''BIND_GROUP'' then case on_bind parts n b of (out, b) \<Rightarrow> Ret (out, n, b)
      else Ret (reply [], n, b))"

definition handlePeer_line ::
    "cluster_env \<Rightarrow> time \<Rightarrow> string \<Rightarrow> Node \<Rightarrow> Broker \<Rightarrow> (peer_out \<times> Node \<times> Broker) run" where
  "handlePeer_line env now msg n b =
     (let parts = Split (TrimSpace msg) '' '' in
      if hd parts = [] then Ret (reply [], n, b)
      else if length parts > 1
      then (if verifyMessage env n (Join (butlast parts) '' '') (last parts)
            then peer_command env now (hd parts) (butlast parts) n b
            else Ret (\<lparr>written = [''ERR_UNAUTHORIZED''], stays = False, syncWith = None\<rparr>, n, b))
      else peer_command env now (hd parts) parts n b)"

text \<open>The lines of one connection; \<open>rest k\<close> is what the rest of the program does before line \<open>k\<close>.\<close>

fun handlePeer ::
    "cluster_env \<Rightarrow> (nat \<Rightarrow> time) \<Rightarrow> (nat \<Rightarrow> Node \<times> Broker \<Rightarrow> Node \<times> Broker) \<Rightarrow> nat \<Rightarrow> string list \<Rightarrow> Node \<Rightarrow> Broker
       \<Rightarrow> (peer_out list \<times> Node \<times> Broker) run" where
  "handlePeer env clock rest k [] n b = Ret ([], n, b)"
| "handlePeer env clock rest k (line # lines) n b =
     (case rest k (n, b) of (n, b) \<Rightarrow>
        bind_run (handlePeer_line env (clock k) line n b)
          (\<lambda>(out, n, b).
             if stays out
             then bind_run (handlePeer env clock rest (Suc k) lines n b) (\<lambda>(outs, n, b). Ret (out # outs, n, b))
             else Ret ([out], n, b)))"

subsection \<open>Synchronisation\<close>

definition syncRequest :: "cluster_env \<Rightarrow> Node \<Rightarrow> string" where
  "syncRequest env n = signed env n (''SYNC_REQ '' @ selfAddr env n)"

text \<open>One line of the snapshot; the result tells whether to read on. A one-word line that verifies has no command: index out of range.\<close>

definition sync_line :: "cluster_env \<Rightarrow> time \<Rightarrow> string \<Rightarrow> Node \<Rightarrow> Broker \<Rightarrow> (bool \<times> Broker) run" where
  "sync_line env now line n b =
     (let parts = Split (TrimSpace line) '' '' in
      if hd parts = [] then Ret (True, b)
      else if \<not> verifyMessage env n (Join (butlast parts) '' '') (last parts) then Ret (True, b)
      else if butlast parts = [] then Panic
      else
        (let parts = butlast parts in
         if hd parts = ''SYNC_COMPLETE'' then Ret (False, b)
         else if 5 \<le> length parts \<and> hd parts = ''REPLICATE''
         then (case b64_decode (parts ! 4) of
                 Some payload \<Rightarrow> bind_run (PublishReplicated now (parts ! 3) payload b) (\<lambda>(_, b). Ret (True, b))
               | None \<Rightarrow> Ret (True, b))
         else Ret (True, b)))"

fun sync_lines :: "cluster_env \<Rightarrow> time \<Rightarrow> string list \<Rightarrow> Node \<Rightarrow> Broker \<Rightarrow> Broker run" where
  "sync_lines env now [] n b = Ret b"
| "sync_lines env now (line # lines) n b =
     bind_run (sync_line env now line n b) (\<lambda>(more, b). if more then sync_lines env now lines n b else Ret b)"

text \<open>\<^verbatim>\<open>requestSync\<close>: \<^const>\<open>None\<close> when the leader cannot be reached.\<close>

definition requestSync :: "cluster_env \<Rightarrow> time \<Rightarrow> string list option \<Rightarrow> Node \<Rightarrow> Broker \<Rightarrow> (Node \<times> Broker) run" where
  "requestSync env now lines n b =
     (case lines of
        None \<Rightarrow> Ret (n\<lparr>isSynced := False\<rparr>, b)
      | Some ls \<Rightarrow> bind_run (sync_lines env now ls n b) (\<lambda>b. Ret (n, b)))"

end
