(* ===== verification/ClusterProps.thy ===== *)
theory ClusterProps
  imports Cluster
begin

text \<open>
  One node: what a line from a peer can change, and the messages of one node as another
  node reads them.
\<close>

subsection \<open>What any line can change\<close>

text \<open>
  The term never decreases, a vote cast in a term is not changed in that term, and a node
  that is not a follower afterwards is where it was.
\<close>

definition advances :: "Node \<Rightarrow> Node \<Rightarrow> bool" where
  "advances n n' \<longleftrightarrow> Address n' = Address n \<and> clusterSecret n' = clusterSecret n \<and> map fst (Peers n') = map fst (Peers n)
     \<and> votesReceived n' = votesReceived n \<and> quorumSize n' = quorumSize n \<and> CurrentTerm n \<le> CurrentTerm n'
     \<and> (CurrentTerm n' = CurrentTerm n \<longrightarrow> VotedFor n' = VotedFor n \<or> VotedFor n = [])
     \<and> (role n' \<noteq> Follower \<longrightarrow> role n' = role n \<and> CurrentTerm n' = CurrentTerm n)"

lemma advances_refl [simp]: "advances n n" by (simp add: advances_def)

lemma advances_trans: "advances a b \<Longrightarrow> advances b c \<Longrightarrow> advances a c"
  by (auto simp: advances_def)

lemma mput_keys: "mget m k = Some v \<Longrightarrow> map fst (mput k w m) = map fst m"
  by (induction m) (auto simp: mget_def mput_def split: if_splits)

lemma mark_advances: "advances n (markPeerAlive now a n)" "advances n (markPeerDead a n)"
  by (auto simp: markPeerAlive_def markPeerDead_def advances_def mput_keys split: option.split)

lemma evaluateVote_advances: "evaluateVote env now t c n = (g, n') \<Longrightarrow> advances n n'"
  by (auto simp: evaluateVote_def advances_def Let_def split: if_splits)

lemma handleHeartbeat_advances: "handleHeartbeat now t l h n = (s, n') \<Longrightarrow> advances n n'"
  by (auto simp: handleHeartbeat_def advances_def Let_def split: if_splits)

lemma on_replicate_advances: "on_replicate now parts n b = Ret (out, n', b') \<Longrightarrow> advances n n'"
proof -
  assume r: "on_replicate now parts n b = Ret (out, n', b')"
  let ?m = "n\<lparr>CurrentTerm := Sscanf_d (parts ! 1), role := Follower, VotedFor := parts ! 2, lastHeartbeatSeen := now\<rparr>"
  have m: "trustedLeader (Sscanf_d (parts ! 1)) (parts ! 2) n \<Longrightarrow> advances n ?m"
    by (auto simp: trustedLeader_def advances_def)
  show ?thesis
  proof (cases "5 \<le> length parts \<and> trustedLeader (Sscanf_d (parts ! 1)) (parts ! 2) n")
    case True
    then have "n' = ?m"
      using r by (cases "PublishReplicated now (parts ! 3) (the (b64_decode (parts ! 4))) b")
        (auto simp: on_replicate_def Let_def not_less split: option.splits)
    with m True show ?thesis by simp
  next
    case False
    then show ?thesis using r by (auto simp: on_replicate_def Let_def not_less split: if_splits)
  qed
qed

lemma peer_command_advances: "peer_command env now cmd parts n b = Ret (out, n', b') \<Longrightarrow> advances n n'"
proof -
  assume p: "peer_command env now cmd parts n b = Ret (out, n', b')"
  have h: "on_heartbeat now parts n = (o', m) \<Longrightarrow> advances n m" for o' m
    by (auto simp: on_heartbeat_def Let_def split: if_splits prod.splits
        intro: advances_trans [OF handleHeartbeat_advances mark_advances(1)])
  have v: "on_vote env now parts n = (o', m) \<Longrightarrow> advances n m" for o' m
    using evaluateVote_advances by (auto simp: on_vote_def split: if_splits prod.splits)
  show ?thesis
    using p h v on_replicate_advances [of now parts n b out n' b'] mark_advances(1)
    unfolding peer_command_def by (auto split: if_split_asm prod.splits)
qed

lemma handlePeer_line_advances: "handlePeer_line env now msg n b = Ret (out, n', b') \<Longrightarrow> advances n n'"
  unfolding handlePeer_line_def Let_def
  by (auto intro: peer_command_advances split: if_split_asm)

subsection \<open>Signatures\<close>

lemma Join_snoc: "fs \<noteq> [] \<Longrightarrow> Join (fs @ [x]) sep = Join fs sep @ sep @ x"
proof (induction fs)
  case (Cons f fs)
  then show ?case by (cases fs) simp_all
qed simp

lemma unsigned_line:
  assumes k: "clusterSecret n \<noteq> []" and u: "\<forall>body. TrimSpace msg \<noteq> signed env n body"
  shows "\<exists>out. handlePeer_line env now msg n b = Ret (out, n, b) \<and> written out \<in> {[], [''ERR_UNAUTHORIZED'']} \<and> syncWith out = None"
proof -
  let ?p = "Split (TrimSpace msg) '' ''"
  have j: "Join ?p '' '' = TrimSpace msg" by (rule Join_Split_char)
  have nv: "\<not> verifyMessage env n (Join (butlast ?p) '' '') (last ?p)" if l: "length ?p > 1"
  proof -
    have "Join ?p '' '' = Join (butlast ?p) '' '' @ '' '' @ last ?p"
      using Join_snoc [of "butlast ?p" "last ?p" "'' ''"] l by (cases ?p) auto
    with j have "TrimSpace msg = Join (butlast ?p) '' '' @ '' '' @ last ?p" by simp
    with u k show ?thesis unfolding verifyMessage_def signed_def by metis
  qed
  show ?thesis
  proof (cases "length ?p > 1")
    case True
    with nv show ?thesis by (cases "hd ?p = []") (simp_all add: handlePeer_line_def Let_def reply_def)
  next
    case False
    then have "length ?p < 2" by simp
    then have "peer_command env now (hd ?p) ?p n b = Ret (reply [], n, b)"
      by (simp add: peer_command_def on_heartbeat_def on_replicate_def on_sync_def on_vote_def on_bind_def)
    with False show ?thesis by (simp add: handlePeer_line_def Let_def reply_def)
  qed
qed

text \<open>
  C16: A node with a secret obeys signed lines only. If no line of a connection carries the
  HMAC of its text under the node's secret, then serving the whole connection leaves the
  node (its term, vote, role and peers) and the broker unchanged, starts no synchronisation,
  and answers nothing but \<^verbatim>\<open>ERR_UNAUTHORIZED\<close>.
\<close>

theorem cluster_requires_signature:
  assumes "clusterSecret n \<noteq> []" and "\<forall>line \<in> set lines. \<forall>body. TrimSpace line \<noteq> signed env n body"
  shows "\<exists>outs. handlePeer env clock (\<lambda>_ s. s) k lines n b = Ret (outs, n, b)
     \<and> (\<forall>out \<in> set outs. written out \<in> {[], [''ERR_UNAUTHORIZED'']} \<and> syncWith out = None)"
  using assms
proof (induction lines arbitrary: k)
  case (Cons line lines)
  obtain out where o: "handlePeer_line env (clock k) line n b = Ret (out, n, b)"
      "written out \<in> {[], [''ERR_UNAUTHORIZED'']} \<and> syncWith out = None"
    using unsigned_line [OF Cons.prems(1)] Cons.prems(2) by (metis list.set_intros(1))
  from Cons.IH [OF Cons.prems(1), of "Suc k"] Cons.prems(2) obtain outs where
    "handlePeer env clock (\<lambda>_ s. s) (Suc k) lines n b = Ret (outs, n, b)"
    "\<forall>out \<in> set outs. written out \<in> {[], [''ERR_UNAUTHORIZED'']} \<and> syncWith out = None" by auto
  with o show ?case by auto
qed simp

definition sample_env :: "string \<Rightarrow> string \<Rightarrow> cluster_env" where
  "sample_env self nodes =
     \<lparr>envLeader = [], envSecret = ''s'', envInsecure = [], envNodes = nodes, envSelf = self, envAdvertise = [],
      envTimeout = ''500ms'', hostname = ''h'', hmacHex = (\<lambda>k m. ''ff'' @ nat_digits (length m))\<rparr>"

definition sample_node :: "string \<Rightarrow> string \<Rightarrow> Node" where
  "sample_node self nodes = fst (the (NewNode (sample_env self nodes) 0 self ''80'' (\<lambda>_. None) (sample_broker None)))"

lemma sample_node_fields [simp]:
  "clusterSecret (sample_node self nodes) = ''s''"
proof -
  have "clusterSecret (fold (loadPeer env) as n) = clusterSecret n" for env as n
    by (induction as arbitrary: n) (simp_all add: loadPeer_def Let_def)
  then show ?thesis by (simp add: sample_node_def NewNode_def sample_env_def loadPeersFromEnv_def)
qed

theorem cluster_requires_signature_witness:
  "\<exists>outs. handlePeer (sample_env ''a:1'' []) (\<lambda>_. 0) (\<lambda>_ s. s) 0 [''HEARTBEAT 7 evil:1 x''] (sample_node ''a:1'' []) (sample_broker None)
     = Ret (outs, sample_node ''a:1'' [], sample_broker None)"
proof -
  have "last (TrimSpace ''HEARTBEAT 7 evil:1 x'') = CHR ''x''" by code_simp
  moreover have "last (signed (sample_env ''a:1'' []) (sample_node ''a:1'' []) body) \<noteq> CHR ''x''" for body
  proof -
    have "last (nat_digits n) \<noteq> CHR ''x''" for n
      using digit_not [OF last_in_set [OF nat_digits_nonempty [of n]], of "CHR ''x''"] by (simp add: char_digit_def)
    then show ?thesis by (simp add: signed_def signMessage_def sample_env_def)
  qed
  ultimately have "TrimSpace ''HEARTBEAT 7 evil:1 x'' \<noteq> signed (sample_env ''a:1'' []) (sample_node ''a:1'' []) body" for body
    by metis
  with cluster_requires_signature [of "sample_node ''a:1'' []" "[''HEARTBEAT 7 evil:1 x'']" "sample_env ''a:1'' []" "\<lambda>_. 0" 0 "sample_broker None"]
  show ?thesis by auto
qed

subsection \<open>Messages between nodes\<close>

definition no_space :: "string \<Rightarrow> bool" where
  "no_space s \<longleftrightarrow> list_all (\<lambda>c. \<not> is_space c) s"

text \<open>\<^verbatim>\<open>hex.EncodeToString\<close> gives hexadecimal digits.\<close>

definition hex_mac :: "cluster_env \<Rightarrow> bool" where
  "hex_mac env \<longleftrightarrow> (\<forall>k m. hmacHex env k m \<noteq> [] \<and> no_space (hmacHex env k m))"

lemma no_space_sep: "no_space s \<Longrightarrow> CHR '' '' \<notin> set s"
  by (auto simp: no_space_def list_all_iff is_space_def)

lemma no_space_Itoa: "no_space (Itoa t)"
proof -
  have "\<not> is_space c" if "c \<in> set (nat_digits m)" for c m
    using nat_digits_digit [OF that] by (auto simp: is_space_def digit_char_def)
  then show ?thesis by (auto simp: no_space_def list_all_iff Itoa_def is_space_def)
qed

lemma no_space_b64: "no_space (b64_encode p)"
  using b64_encode_no_space by (auto simp: no_space_def list_all_iff)

lemma no_space_valid: "IsValidTopicName t \<Longrightarrow> no_space t"
proof -
  assume "IsValidTopicName t"
  then have "validTopicRegex t \<or> t = ''*'' \<or> (t \<noteq> [] \<and> last t = CHR ''*'' \<and> validTopicRegex (butlast t))"
    by (auto simp: IsValidTopicName_def validWildcardRegex_def split: if_splits)
  moreover have "no_space s" if "validTopicRegex s" for s
    using that by (auto simp: no_space_def list_all_iff validTopicRegex_def valid_topic_char_def is_space_def Let_def)
  moreover have "no_space t" if "t \<noteq> []" "last t = CHR ''*''" "no_space (butlast t)"
  proof -
    have "t = butlast t @ [CHR ''*'']" using that append_butlast_last_id by metis
    moreover have "no_space (butlast t @ [CHR ''*''])" using that(3) by (simp add: no_space_def is_space_def)
    ultimately show ?thesis by simp
  qed
  ultimately show ?thesis by (auto simp: no_space_def is_space_def)
qed

text \<open>A signed line of fields without spaces, as the receiver splits it.\<close>

lemma signed_fields:
  assumes h: "hex_mac env" and f: "fs \<noteq> []" "hd fs \<noteq> []" "list_all no_space fs"
  shows "Split (TrimSpace (signed env n (Join fs '' ''))) '' '' = fs @ [signMessage env n (Join fs '' '')]"
proof -
  let ?m = "signMessage env n (Join fs '' '')"
  have m: "?m \<noteq> []" "no_space ?m"
    using h by (auto simp: signMessage_def hex_mac_def no_space_def is_space_def)
  have j: "signed env n (Join fs '' '') = Join (fs @ [?m]) '' ''"
    using Join_snoc [OF f(1)] by (simp add: signed_def)
  obtain c cs gs where c: "fs = (c # cs) # gs" using f(1,2) by (metis list.collapse)
  have "hd (Join (fs @ [?m]) '' '') = c" using c by (cases gs) simp_all
  moreover have "last (Join (fs @ [?m]) '' '') = last ?m" using m Join_snoc [OF f(1)] by simp
  moreover have "\<not> is_space c" using c f(3) by (simp add: no_space_def)
  moreover have "\<not> is_space (last ?m)" using m by (simp add: no_space_def list_all_iff)
  ultimately have "TrimSpace (Join (fs @ [?m]) '' '') = Join (fs @ [?m]) '' ''" by (intro TrimSpace_id) auto
  moreover have "Split (Join (fs @ [?m]) '' '') '' '' = fs @ [?m]"
    using f m no_space_sep by (intro Split_Join_char) (auto simp: list_all_iff)
  ultimately show ?thesis using j by simp
qed

text \<open>Nodes with one secret and one HMAC understand each other.\<close>

lemma signed_command:
  assumes "hex_mac env" and "fs \<noteq> []" "hd fs \<noteq> []" "list_all no_space fs"
    and "clusterSecret n' = clusterSecret n" "hmacHex env' = hmacHex env"
  shows "handlePeer_line env' now (signed env n (Join fs '' '')) n' b = peer_command env' now (hd fs) fs n' b"
proof -
  have "signMessage env' n' = signMessage env n" using assms(5,6) by (simp add: signMessage_def fun_eq_iff)
  then have "verifyMessage env' n' (Join fs '' '') (signMessage env n (Join fs '' ''))" by (simp add: verifyMessage_def)
  with assms(2,3) show ?thesis
    unfolding handlePeer_line_def signed_fields [OF assms(1-4)] Let_def by simp
qed

lemma Sscanf_Itoa: "- (2 ^ 63) \<le> t \<Longrightarrow> t < 2 ^ 63 \<Longrightarrow> Sscanf_d (Itoa t) = t"
proof -
  assume t: "- (2 ^ 63) \<le> t" "t < 2 ^ 63"
  have sp: "\<not> is_space (digit_char e)" if "e < 10" for e using that by (auto simp: is_space_def digit_char_def)
  have d: "char_digit c \<noteq> None \<and> \<not> is_space c \<and> c \<noteq> CHR ''-'' \<and> c \<noteq> CHR ''+''" if "c \<in> set (nat_digits m)" for c m
    using nat_digits_digit [OF that] digit_not [OF that, of "CHR ''-''"] digit_not [OF that, of "CHR ''+''"]
    by (auto simp: sp char_digit_def [of "CHR ''-''"] char_digit_def [of "CHR ''+''"])
  have tw: "takeWhile (\<lambda>c. char_digit c \<noteq> None) (nat_digits m) = nat_digits m" for m
    using d by (simp add: takeWhile_eq_all_conv)
  have hd: "hd (nat_digits m) \<in> set (nat_digits m)" for m by simp
  have dw: "dropWhile is_space (nat_digits m) = nat_digits m" for m
    using d [OF hd] by (intro dropWhile_id) simp
  have m: "\<not> is_space (CHR ''-'')" by (simp add: is_space_def)
  show ?thesis
    using t d [OF hd]
    by (cases "t < 0") (simp_all add: Sscanf_d_def Itoa_def Let_def tw dw m ParseUint_def digits_value_nat del: not_None_eq)
qed

lemma replication_delivered:
  assumes "hex_mac env" and "no_space (selfAddr env l)" and "IsValidTopicName topic"
    and "- (2 ^ 63) \<le> CurrentTerm l" and "CurrentTerm l < 2 ^ 63"
    and "clusterSecret f = clusterSecret l" and "hmacHex env' = hmacHex env"
  shows "handlePeer_line env' now (replicateMessage env l topic payload) f b =
     (if trustedLeader (CurrentTerm l) (selfAddr env l) f
      then bind_run (PublishReplicated now topic payload b)
             (\<lambda>(_, b'). Ret (reply [''REPLICATE_ACK''],
                f\<lparr>CurrentTerm := CurrentTerm l, role := Follower, VotedFor := selfAddr env l, lastHeartbeatSeen := now\<rparr>, b'))
      else Ret (reply [''REPLICATE_DENIED''], f, b))"
proof -
  let ?fs = "[''REPLICATE'', Itoa (CurrentTerm l), selfAddr env l, topic, b64_encode payload]"
  have m: "replicateMessage env l topic payload = signed env l (Join ?fs '' '')"
    by (simp add: replicateMessage_def replicateBody_def)
  have "list_all no_space ?fs"
    using assms(2,3) by (simp add: no_space_Itoa no_space_b64 no_space_valid) (simp add: no_space_def is_space_def)
  then have "handlePeer_line env' now (replicateMessage env l topic payload) f b = peer_command env' now ''REPLICATE'' ?fs f b"
    using signed_command [OF assms(1), of ?fs f l env'] assms(6,7) unfolding m by simp
  also have "\<dots> = on_replicate now ?fs f b" by (simp add: peer_command_def)
  finally show ?thesis by (simp add: on_replicate_def Let_def Sscanf_Itoa [OF assms(4,5)])
qed

text \<open>
  C27: A replicated message arrives as it was sent. When a leader's replication line reaches
  a node with the same secret that trusts the leader (its term is newer, or the same with the
  vote free or given to that leader), the node becomes its follower in the leader's term and
  publishes exactly the leader's topic and payload, and answers \<^verbatim>\<open>REPLICATE_ACK\<close>; any other
  node answers \<^verbatim>\<open>REPLICATE_DENIED\<close> and changes nothing. The acknowledgement does not depend
  on what the publish returned.
\<close>

theorem replication_delivers:
  assumes "hex_mac env" and "no_space (selfAddr env l)" and "IsValidTopicName topic"
    and "- (2 ^ 63) \<le> CurrentTerm l" and "CurrentTerm l < 2 ^ 63"
    and "clusterSecret f = clusterSecret l" and "hmacHex env' = hmacHex env"
  shows "handlePeer_line env' now (replicateMessage env l topic payload) f b =
     (if trustedLeader (CurrentTerm l) (selfAddr env l) f
      then bind_run (PublishReplicated now topic payload b)
             (\<lambda>(_, b'). Ret (reply [''REPLICATE_ACK''],
                f\<lparr>CurrentTerm := CurrentTerm l, role := Follower, VotedFor := selfAddr env l, lastHeartbeatSeen := now\<rparr>, b'))
      else Ret (reply [''REPLICATE_DENIED''], f, b))"
  by (rule replication_delivered [OF assms])

lemma sample_hex: "hex_mac (sample_env self nodes)"
proof -
  have "\<not> is_space c" if "c \<in> set (nat_digits k)" for c k
    using nat_digits_digit [OF that] by (auto simp: is_space_def digit_char_def)
  then show ?thesis by (auto simp: hex_mac_def sample_env_def no_space_def list_all_iff is_space_def)
qed

theorem replication_delivers_witness:
  "handlePeer_line (sample_env ''b:1'' ''a:1'') 5 (replicateMessage (sample_env ''a:1'' ''b:1'') ((sample_node ''a:1'' ''b:1'')\<lparr>CurrentTerm := 3\<rparr>) ''q'' [1])
      (sample_node ''b:1'' ''a:1'') (sample_broker None)
   = bind_run (PublishReplicated 5 ''q'' [1] (sample_broker None))
       (\<lambda>(_, b'). Ret (reply [''REPLICATE_ACK''], (sample_node ''b:1'' ''a:1'')\<lparr>CurrentTerm := 3, role := Follower, VotedFor := ''a:1'', lastHeartbeatSeen := 5\<rparr>, b'))"
proof -
  let ?l = "(sample_node ''a:1'' ''b:1'')\<lparr>CurrentTerm := 3\<rparr>"
  have a: "selfAddr (sample_env ''a:1'' ''b:1'') ?l = ''a:1''" by (simp add: selfAddr_def sample_env_def)
  have "trustedLeader 3 ''a:1'' (sample_node ''b:1'' ''a:1'')" by code_simp
  moreover have "IsValidTopicName ''q''" by code_simp
  moreover have "no_space ''a:1''" by code_simp
  ultimately show ?thesis
    using replication_delivers [OF sample_hex, of "''a:1''" "''b:1''" ?l "''q''" "sample_node ''b:1'' ''a:1''" "sample_env ''b:1'' ''a:1''" 5 "[1]" "sample_broker None"]
    unfolding a by (simp add: sample_env_def)
qed

definition full_follower :: Broker where
  "full_follower = (case PublishReplicated 1 ''q'' [1] ((sample_broker None)\<lparr>maxMessages := 1\<rparr>) of Ret (_, b) \<Rightarrow> b)"

text \<open>
  A follower acknowledges a replicated message it did not keep. A follower whose topic is
  at capacity and rejects new messages answers \<^verbatim>\<open>REPLICATE_ACK\<close> all the same, its queues
  unchanged, so the leader counts a copy that does not exist.
\<close>

theorem replicate_ack_without_copy:
  "\<exists>n' b'. handlePeer_line (sample_env ''b:1'' ''a:1'') 5 (replicateMessage (sample_env ''a:1'' ''b:1'') (sample_node ''a:1'' ''b:1'') ''q'' [2])
      (sample_node ''b:1'' ''a:1'') full_follower = Ret (reply [''REPLICATE_ACK''], n', b')
    \<and> map Payload (GetStateSnapshot full_follower) = [[1]] \<and> map Payload (GetStateSnapshot b') = [[1]]"
proof -
  let ?l = "sample_node ''a:1'' ''b:1''" and ?f = "sample_node ''b:1'' ''a:1''"
  have l: "selfAddr (sample_env ''a:1'' ''b:1'') ?l = ''a:1''" by code_simp
  have t: "CurrentTerm ?l = 0" by code_simp
  have p: "case PublishReplicated 5 ''q'' [2] full_follower of Ret (_, b) \<Rightarrow> map Payload (GetStateSnapshot b) = [[1]] | _ \<Rightarrow> False"
    by code_simp
  then obtain e b' where b: "PublishReplicated 5 ''q'' [2] full_follower = Ret (e, b')" "map Payload (GetStateSnapshot b') = [[1]]"
    by (auto split: run.splits)
  have "trustedLeader 0 ''a:1'' ?f" by code_simp
  moreover have "IsValidTopicName ''q''" by code_simp
  moreover have "no_space ''a:1''" by code_simp
  moreover have "hmacHex (sample_env ''b:1'' ''a:1'') = hmacHex (sample_env ''a:1'' ''b:1'')" by (simp add: sample_env_def)
  moreover have "map Payload (GetStateSnapshot full_follower) = [[1]]" by code_simp
  ultimately show ?thesis
    using replication_delivered [OF sample_hex, of "''a:1''" "''b:1''" ?l "''q''" ?f "sample_env ''b:1'' ''a:1''" 5 "[2]" full_follower] b
    by (simp add: l t)
qed

text \<open>
  The replication of a consumer group never takes effect. The line a leader sends for a
  new group has four fields where the receiver wants five, so every node that reads it keeps
  its groups and answers nothing, and the leader runs into its timeout whenever its quorum
  needs another node.
\<close>

theorem group_binding_is_ignored:
  assumes "hex_mac env" and "no_space topic" and "no_space grp"
    and "clusterSecret f = clusterSecret l" and "hmacHex env' = hmacHex env"
  shows "handlePeer_line env' now (bindingMessage env l topic grp) f b = Ret (reply [], f, b)
    \<and> (role l = Leader \<and> alivePeers l \<noteq> [] \<and> 1 < fst (calculateQuorum env l) \<longrightarrow>
        fst (ReplicateBinding env (\<lambda>_. None) l) \<noteq> None)"
proof -
  let ?fs = "[''BIND_GROUP'', Itoa (CurrentTerm l), topic, grp]"
  have m: "bindingMessage env l topic grp = signed env l (Join ?fs '' '')"
    by (simp add: bindingMessage_def)
  have "list_all no_space ?fs"
    using assms(2,3) by (simp add: no_space_Itoa) (simp add: no_space_def is_space_def)
  then have "handlePeer_line env' now (bindingMessage env l topic grp) f b = peer_command env' now ''BIND_GROUP'' ?fs f b"
    using signed_command [OF assms(1), of ?fs f l env'] assms(4,5) unfolding m by simp
  also have "\<dots> = Ret (reply [], f, b)" by (simp add: peer_command_def on_bind_def)
  finally show ?thesis
    by (auto simp: ReplicateBinding_def awaitQuorum_def successCount_def split: prod.split)
qed

theorem group_binding_is_ignored_witness:
  "handlePeer_line (sample_env ''b:1'' ''a:1'') 5 (bindingMessage (sample_env ''a:1'' ''b:1'') (sample_node ''a:1'' ''b:1'') ''q'' ''g'')
      (sample_node ''b:1'' ''a:1'') (sample_broker None) = Ret (reply [], sample_node ''b:1'' ''a:1'', sample_broker None)"
proof -
  have "no_space ''q''" "no_space ''g''" by (code_simp, code_simp)
  with group_binding_is_ignored [OF sample_hex, of "''q''" "''g''" "sample_node ''b:1'' ''a:1''" "sample_node ''a:1'' ''b:1''" "sample_env ''b:1'' ''a:1''" "''a:1''" "''b:1''"]
  show ?thesis by (simp add: sample_env_def)
qed

subsection \<open>Synchronisation\<close>

text \<open>
  A heartbeat that is refused still starts a synchronisation. A follower that gets a
  heartbeat of an older term from a node it did not vote for keeps its term and its vote, and
  yet starts a synchronisation with that node.
\<close>

lemma stale_heartbeat_starts_sync:
  assumes "role n = Follower" and "term < CurrentTerm n" and "VotedFor n \<noteq> leader"
  shows "\<exists>n'. handleHeartbeat now term leader http n = (Some leader, n') \<and> CurrentTerm n' = CurrentTerm n
    \<and> VotedFor n' = VotedFor n"
  using assms by (simp add: handleHeartbeat_def Let_def)

lemma sync_line_signed:
  assumes "hex_mac env" and "fs \<noteq> []" "hd fs \<noteq> []" "list_all no_space fs"
    and "clusterSecret f = clusterSecret l" "hmacHex env' = hmacHex env"
  shows "sync_line env' now (signed env l (Join fs '' '')) f b =
     (if hd fs = ''SYNC_COMPLETE'' then Ret (False, b)
      else if 5 \<le> length fs \<and> hd fs = ''REPLICATE''
      then case b64_decode (fs ! 4) of
             Some payload \<Rightarrow> bind_run (PublishReplicated now (fs ! 3) payload b) (\<lambda>(_, b). Ret (True, b))
           | None \<Rightarrow> Ret (True, b)
      else Ret (True, b))"
proof -
  have "signMessage env' f = signMessage env l" using assms(5,6) by (simp add: signMessage_def fun_eq_iff)
  then have "verifyMessage env' f (Join fs '' '') (signMessage env l (Join fs '' ''))" by (simp add: verifyMessage_def)
  with assms(2,3) show ?thesis
    unfolding sync_line_def signed_fields [OF assms(1-4)] Let_def butlast_snoc last_snoc by simp
qed

text \<open>A message of a snapshot as the follower publishes it.\<close>

definition republish :: "time \<Rightarrow> message \<Rightarrow> Broker \<Rightarrow> Broker run" where
  "republish now m b = bind_run (PublishReplicated now (message.Topic m) (Payload m) b) (\<lambda>(_, b). Ret b)"

lemma bind_run_assoc: "bind_run (bind_run r f) g = bind_run r (\<lambda>x. bind_run (f x) g)"
  by (cases r) simp_all

text \<open>
  C28: Synchronisation republishes the leader's whole state. A node that reads the answer of
  a leader to its request publishes every message of the leader's queues, in the order of the
  snapshot, on top of what it already holds, and keeps its own term, vote and role.
\<close>

theorem snapshot_is_republished:
  assumes "hex_mac env" and "no_space (selfAddr env l)" and "role l = Leader" and "2 \<le> length parts"
    and "clusterSecret f = clusterSecret l" and "hmacHex env' = hmacHex env"
    and "\<forall>m \<in> set (GetStateSnapshot bl). no_space (message.Topic m)"
  shows "requestSync env' now (Some (written (on_sync env parts l bl))) f b =
     bind_run (fold_run (republish now) (GetStateSnapshot bl) b) (\<lambda>b'. Ret (f, b'))"
proof -
  let ?line = "\<lambda>m. signed env l (replicateBody env l (CurrentTerm l) (message.Topic m) (Payload m))"
  have line: "sync_line env' now (?line m) f b = bind_run (republish now m b) (\<lambda>b. Ret (True, b))"
    if "no_space (message.Topic m)" for m b
  proof -
    let ?fs = "[''REPLICATE'', Itoa (CurrentTerm l), selfAddr env l, message.Topic m, b64_encode (Payload m)]"
    have j: "replicateBody env l (CurrentTerm l) (message.Topic m) (Payload m) = Join ?fs '' ''"
      by (simp add: replicateBody_def)
    have "list_all no_space ?fs"
      using assms(2) that by (simp add: no_space_Itoa no_space_b64) (simp add: no_space_def is_space_def)
    from sync_line_signed [OF assms(1) _ _ this assms(5,6)] show ?thesis
      unfolding j by (simp add: republish_def bind_run_assoc split_def)
  qed
  have fin: "sync_lines env' now [signed env l ''SYNC_COMPLETE''] f b = Ret b" for b
  proof -
    have "list_all no_space [''SYNC_COMPLETE'']" by (simp add: no_space_def is_space_def)
    from sync_line_signed [OF assms(1) _ _ this assms(5,6)] show ?thesis by simp
  qed
  have "sync_lines env' now (map ?line ms @ [signed env l ''SYNC_COMPLETE'']) f b = fold_run (republish now) ms b"
    if "\<forall>m \<in> set ms. no_space (message.Topic m)" for ms
    using that
  proof (induction ms arbitrary: b)
    case (Cons m ms)
    then show ?case using line [of m b] by (simp add: bind_run_assoc)
  qed (use fin in simp)
  with assms(3,4,7) show ?thesis by (simp add: requestSync_def on_sync_def reply_def)
qed

theorem snapshot_is_republished_witness:
  "\<exists>b'. requestSync (sample_env ''b:1'' ''a:1'') 7
     (Some (written (on_sync (sample_env ''a:1'' ''b:1'') [''SYNC_REQ'', ''b:1''] ((sample_node ''a:1'' ''b:1'')\<lparr>role := Leader\<rparr>) full_follower)))
     (sample_node ''b:1'' ''a:1'') (full_follower\<lparr>maxMessages := 9\<rparr>) = Ret (sample_node ''b:1'' ''a:1'', b')
     \<and> map Payload (GetStateSnapshot b') = [[1], [1]]"
proof -
  let ?l = "(sample_node ''a:1'' ''b:1'')\<lparr>role := Leader\<rparr>"
  have a: "selfAddr (sample_env ''a:1'' ''b:1'') ?l = ''a:1''" by (simp add: selfAddr_def sample_env_def)
  have ns: "no_space ''a:1''" by code_simp
  have t: "list_all (\<lambda>m. no_space (message.Topic m)) (GetStateSnapshot full_follower)" by code_simp
  have "case fold_run (republish 7) (GetStateSnapshot full_follower) (full_follower\<lparr>maxMessages := 9\<rparr>) of
      Ret b \<Rightarrow> map Payload (GetStateSnapshot b) = [[1], [1]] | _ \<Rightarrow> False" by code_simp
  then obtain b' where b: "fold_run (republish 7) (GetStateSnapshot full_follower) (full_follower\<lparr>maxMessages := 9\<rparr>) = Ret b'"
      "map Payload (GetStateSnapshot b') = [[1], [1]]" by (auto split: run.splits)
  show ?thesis
    using snapshot_is_republished [OF sample_hex, of "''a:1''" "''b:1''" ?l "[''SYNC_REQ'', ''b:1'']" "sample_node ''b:1'' ''a:1''"
        "sample_env ''b:1'' ''a:1''" full_follower 7 "full_follower\<lparr>maxMessages := 9\<rparr>"] t b ns
    unfolding a by (simp add: list_all_iff sample_env_def)
qed

end
