(* ===== verification/ClusterElection.thy ===== *)
theory ClusterElection
  imports ClusterProps
begin

text \<open>
  Elections of a whole cluster. The state is the state of every node, the vote requests under
  way (each the connection of one \<^verbatim>\<open>requestVoteFromPeer\<close>), and the history of the votes given to
  them. Nodes receive arbitrary lines at any time; requests and answers may be lost. The
  invariant counts the votes of a candidate, and majorities overlap.
\<close>

subsection \<open>Quorums\<close>

locale vote_quorums =
  fixes quorum :: "'v set \<Rightarrow> bool"
  assumes overlap: "quorum A \<Longrightarrow> quorum B \<Longrightarrow> A \<inter> B \<noteq> {}"
begin

lemma one_winner:
  assumes "\<And>v c d. R v c \<Longrightarrow> R v d \<Longrightarrow> c = d"
    and "quorum A" "quorum B" "\<And>v. v \<in> A \<Longrightarrow> R v c" "\<And>v. v \<in> B \<Longrightarrow> R v d"
  shows "c = d"
proof -
  obtain v where "v \<in> A" "v \<in> B" using overlap assms(2,3) by blast
  with assms show ?thesis by blast
qed

end

definition majority :: "'v set \<Rightarrow> 'v set \<Rightarrow> bool" where
  "majority S A \<longleftrightarrow> finite S \<and> A \<subseteq> S \<and> card S < 2 * card A"

interpretation maj: vote_quorums "majority S" for S
proof
  fix A B :: "'a set"
  assume "majority S A" "majority S B"
  then have f: "finite S" "A \<subseteq> S" "B \<subseteq> S" and c: "card S < 2 * card A" "card S < 2 * card B"
    by (auto simp: majority_def)
  show "A \<inter> B \<noteq> {}"
  proof
    assume "A \<inter> B = {}"
    then have "card A + card B = card (A \<union> B)" using f finite_subset by (metis card_Un_disjoint)
    also have "\<dots> \<le> card S" using f by (intro card_mono) auto
    finally show False using c by linarith
  qed
qed

subsection \<open>The cluster\<close>

text \<open>A vote request of a candidate to a voter for a term: sent, or answered with a vote.\<close>

datatype vote_call = Asked string string int | Granted string string int

fun call_key :: "vote_call \<Rightarrow> string \<times> string \<times> int" where
  "call_key (Asked c v t) = (c, v, t)"
| "call_key (Granted c v t) = (c, v, t)"

record cluster =
  nodes :: "string \<Rightarrow> Node"
  vcalls :: "vote_call list"
  votes :: "(string \<times> int \<times> string) list" \<comment> \<open>voter, term, candidate\<close>

definition setNode :: "string \<Rightarrow> Node \<Rightarrow> cluster \<Rightarrow> cluster" where
  "setNode i n s = s\<lparr>nodes := (nodes s)(i := n)\<rparr>"

definition grants :: "peer_out \<Rightarrow> bool" where
  "grants out \<longleftrightarrow> list_ex (\<lambda>r. HasPrefix (TrimSpace r) ''VOTE_GRANTED'') (written out)"

inductive cluster_step :: "(string \<Rightarrow> cluster_env) \<Rightarrow> string set \<Rightarrow> cluster \<Rightarrow> cluster \<Rightarrow> bool" for env S where
  elect: "i \<in> S \<Longrightarrow> CurrentTerm (nodes s i) < 2 ^ 63 - 1 \<Longrightarrow> electionTick (env i) now timeout (nodes s i) = (n', cs) \<Longrightarrow>
     cluster_step env S s ((setNode i n' s)\<lparr>vcalls := vcalls s @ map (\<lambda>(a, t). Asked i a t) cs,
       votes := (if CurrentTerm n' = CurrentTerm (nodes s i) then [] else [(i, CurrentTerm n', i)]) @ votes s\<rparr>)"
| asked: "vcalls s = xs @ Asked c v t # ys \<Longrightarrow>
     handlePeer_line (env v) now (voteRequest (env c) (nodes s c) t) (nodes s v) b = Ret (out, n', b') \<Longrightarrow>
     cluster_step env S s ((setNode v n' s)\<lparr>vcalls := xs @ (if grants out then [Granted c v t] else []) @ ys,
       votes := (if grants out then [(v, t, c)] else []) @ votes s\<rparr>)"
| answered: "vcalls s = xs @ Granted c v t # ys \<Longrightarrow>
     cluster_step env S s ((setNode c (voteResponse (env c) t resp (nodes s c)) s)\<lparr>vcalls := xs @ ys\<rparr>)"
| lost: "vcalls s = xs @ k # ys \<Longrightarrow> cluster_step env S s (s\<lparr>vcalls := xs @ ys\<rparr>)"
| line: "i \<in> S \<Longrightarrow> handlePeer_line (env i) now msg (nodes s i) b = Ret (out, n', b') \<Longrightarrow> cluster_step env S s (setNode i n' s)"
| heartbeat: "i \<in> S \<Longrightarrow> cluster_step env S s (setNode i (sendHeartbeat now target resp (nodes s i)) s)"
| ping: "i \<in> S \<Longrightarrow> cluster_step env S s (setNode i (pingPeer now target resp (nodes s i)) s)"
| replicate: "i \<in> S \<Longrightarrow> cluster_step env S s (setNode i (snd (Replicate (env i) answers (nodes s i))) s)"
| bind_group: "i \<in> S \<Longrightarrow> cluster_step env S s (setNode i (snd (ReplicateBinding (env i) answers (nodes s i))) s)"
| sync: "i \<in> S \<Longrightarrow> requestSync (env i) now lines (nodes s i) b = Ret (n', b') \<Longrightarrow> cluster_step env S s (setNode i n' s)"

text \<open>
  A deployment: the nodes of \<open>S\<close> by their addresses, one secret, and in each node's list of
  nodes only members, at least as many as there are other members.
\<close>

definition listed :: "cluster_env \<Rightarrow> string list" where
  "listed e = map TrimSpace (Split (envNodes e) '','')"

definition deployment :: "(string \<Rightarrow> cluster_env) \<Rightarrow> string set \<Rightarrow> bool" where
  "deployment env S \<longleftrightarrow> finite S \<and> (\<forall>i \<in> S. i \<noteq> [] \<and> no_space i \<and> hex_mac (env i)
     \<and> set (listed (env i)) \<subseteq> insert [] S \<and> card S \<le> length (listed (env i)) + 1 \<and> (envNodes (env i) = [] \<longrightarrow> card S \<le> 1)
     \<and> (\<forall>j \<in> S. envSecret (env j) = envSecret (env i) \<and> hmacHex (env j) = hmacHex (env i)))"

definition cluster_init :: "(string \<Rightarrow> cluster_env) \<Rightarrow> string set \<Rightarrow> cluster \<Rightarrow> bool" where
  "cluster_init env S s \<longleftrightarrow> deployment env S \<and> vcalls s = [] \<and> votes s = []
     \<and> (\<forall>i \<in> S. selfAddr (env i) (nodes s i) = i \<and>
          (\<exists>now addr http results b b'. NewNode (env i) now addr http results b = Some (nodes s i, b')))"

definition quorumOf :: "cluster_env \<Rightarrow> int" where
  "quorumOf e = (if envNodes e = [] then 1 else int ((length (Split (envNodes e) '','') + 1) div 2 + 1))"

lemma quorum_majority: "deployment env S \<Longrightarrow> i \<in> S \<Longrightarrow> int (card S) < 2 * quorumOf (env i)"
  by (auto simp: deployment_def quorumOf_def listed_def)

subsection \<open>The invariant\<close>

definition node_ok :: "cluster_env \<Rightarrow> string set \<Rightarrow> string \<Rightarrow> Node \<Rightarrow> bool" where
  "node_ok e S i n \<longleftrightarrow> selfAddr e n = i \<and> clusterSecret n = envSecret e \<and> wf_map (Peers n) \<and> fst ` set (Peers n) \<subseteq> S - {i}
     \<and> (quorumSize n = 0 \<or> quorumSize n = quorumOf e) \<and> 0 \<le> CurrentTerm n \<and> (role n = Leader \<longrightarrow> CurrentTerm n = 0 \<or> quorumOf e \<le> votesReceived n)"

definition vote_ok :: "cluster \<Rightarrow> string \<times> int \<times> string \<Rightarrow> bool" where
  "vote_ok s = (\<lambda>(v, t, c). c \<noteq> [] \<and> t \<le> CurrentTerm (nodes s v) \<and> (t = CurrentTerm (nodes s v) \<longrightarrow> VotedFor (nodes s v) = c))"

definition call_ok :: "string set \<Rightarrow> cluster \<Rightarrow> vote_call \<Rightarrow> bool" where
  "call_ok S s k = (case call_key k of (c, v, t) \<Rightarrow> c \<in> S \<and> v \<in> S \<and> 0 \<le> t \<and> t < 2 ^ 63 \<and> t \<le> CurrentTerm (nodes s c)
     \<and> (k = Granted c v t \<longrightarrow> (v, t, c) \<in> set (votes s)))"

text \<open>The votes a candidate or leader has counted, with no answer of these voters still to come.\<close>

definition counted :: "string set \<Rightarrow> cluster \<Rightarrow> string \<Rightarrow> string set \<Rightarrow> bool" where
  "counted S s c K \<longleftrightarrow> K \<subseteq> S \<and> int (card K) = votesReceived (nodes s c)
     \<and> (\<forall>v \<in> K. (v, CurrentTerm (nodes s c), c) \<in> set (votes s) \<and> (c, v, CurrentTerm (nodes s c)) \<notin> call_key ` set (vcalls s))"

definition election_inv :: "(string \<Rightarrow> cluster_env) \<Rightarrow> string set \<Rightarrow> cluster \<Rightarrow> bool" where
  "election_inv env S s \<longleftrightarrow> deployment env S
     \<and> (\<forall>i \<in> S. node_ok (env i) S i (nodes s i))
     \<and> (\<forall>x \<in> set (votes s). vote_ok s x)
     \<and> (\<forall>v t c d. (v, t, c) \<in> set (votes s) \<longrightarrow> (v, t, d) \<in> set (votes s) \<longrightarrow> c = d)
     \<and> (\<forall>k \<in> set (vcalls s). call_ok S s k) \<and> distinct (map call_key (vcalls s))
     \<and> (\<forall>c \<in> S. role (nodes s c) \<noteq> Follower \<longrightarrow> (\<exists>K. counted S s c K))"

lemma election_invD:
  assumes "election_inv env S s"
  shows "deployment env S" and "i \<in> S \<Longrightarrow> node_ok (env i) S i (nodes s i)" and "x \<in> set (votes s) \<Longrightarrow> vote_ok s x"
    and "(v, t, c) \<in> set (votes s) \<Longrightarrow> (v, t, d) \<in> set (votes s) \<Longrightarrow> c = d"
    and "k \<in> set (vcalls s) \<Longrightarrow> call_ok S s k" and "distinct (map call_key (vcalls s))"
    and "c' \<in> S \<Longrightarrow> role (nodes s c') \<noteq> Follower \<Longrightarrow> \<exists>K. counted S s c' K"
  using assms unfolding election_inv_def by blast+

text \<open>A change of one node by a line, a heartbeat or a ping.\<close>

lemma node_ok_advances: "node_ok e S i n \<Longrightarrow> advances n n' \<Longrightarrow> node_ok e S i n'"
  unfolding node_ok_def advances_def selfAddr_def
  by (metis (no_types, lifting) Role.distinct(3) image_set order_trans)

lemma inv_advances:
  assumes i: "election_inv env S s" and a: "advances (nodes s i) n'"
  shows "election_inv env S (setNode i n' s)"
proof -
  let ?s = "setNode i n' s"
  have adv: "advances (nodes s j) (nodes ?s j)" for j using a by (simp add: setNode_def)
  have "vote_ok ?s x" if "x \<in> set (votes s)" for x
    using election_invD(3) [OF i that] adv [of "fst x"]
    by (auto simp: vote_ok_def advances_def split_beta)
  moreover have "call_ok S ?s k" if "k \<in> set (vcalls s)" for k
    using election_invD(5) [OF i that] adv [of "fst (call_key k)"]
    by (auto simp: call_ok_def advances_def setNode_def split: prod.splits)
  moreover have "\<exists>K. counted S ?s c K" if c: "c \<in> S" "role (nodes ?s c) \<noteq> Follower" for c
  proof -
    have e: "role (nodes s c) \<noteq> Follower" "CurrentTerm (nodes ?s c) = CurrentTerm (nodes s c)"
        "votesReceived (nodes ?s c) = votesReceived (nodes s c)"
      using adv [of c] c(2) by (auto simp: advances_def)
    then show ?thesis using election_invD(7) [OF i c(1)] by (simp add: counted_def) (simp add: setNode_def)
  qed
  moreover have "\<forall>j \<in> S. node_ok (env j) S j (nodes ?s j)"
    using election_invD(2) [OF i] node_ok_advances adv by blast
  ultimately show ?thesis using i unfolding election_inv_def by (simp add: setNode_def)
qed

text \<open>Losing calls.\<close>

lemma inv_lose: "election_inv env S s \<Longrightarrow> vcalls s = xs @ ks @ ys \<Longrightarrow> election_inv env S (s\<lparr>vcalls := xs @ ys\<rparr>)"
proof -
  assume i: "election_inv env S s" and v: "vcalls s = xs @ ks @ ys"
  have "\<exists>K. counted S (s\<lparr>vcalls := xs @ ys\<rparr>) c K" if c: "c \<in> S" "role (nodes s c) \<noteq> Follower" for c
  proof -
    obtain K where "counted S s c K" using election_invD(7) [OF i c] by blast
    then have "counted S (s\<lparr>vcalls := xs @ ys\<rparr>) c K" using v by (simp add: counted_def image_Un)
    then show ?thesis by blast
  qed
  then show ?thesis
    using i v unfolding election_inv_def by (auto simp: vote_ok_def call_ok_def split: prod.splits)
qed

subsection \<open>Votes\<close>

lemma evaluateVote_granted:
  "evaluateVote e now t c n = (True, n') \<Longrightarrow> CurrentTerm n' = t \<and> VotedFor n' = c"
  by (auto simp: evaluateVote_def Let_def split: if_splits)

text \<open>A vote request is read as the request it was.\<close>

lemma Itoa_last: "Itoa t \<noteq> [] \<and> \<not> is_space (last (Itoa t))"
  using no_space_Itoa [of t] by (auto simp: no_space_def list_all_iff Itoa_def)

lemma vote_denied: "\<not> HasPrefix (TrimSpace (''VOTE_DENIED '' @ Itoa t)) ''VOTE_GRANTED''"
proof -
  have "TrimSpace (''VOTE_DENIED '' @ Itoa t) = ''VOTE_DENIED '' @ Itoa t"
    using Itoa_last [of t] by (intro TrimSpace_id) (auto simp: is_space_def)
  then show ?thesis by (simp add: HasPrefix_iff)
qed

lemma vote_request_read:
  assumes d: "deployment env S" "c \<in> S" "v \<in> S" and k: "node_ok (env c) S c nc" "node_ok (env v) S v nv"
    and t: "0 \<le> t" "t < 2 ^ 63" and h: "handlePeer_line (env v) now (voteRequest (env c) nc t) nv b = Ret (out, n', b')"
  shows "\<exists>g. evaluateVote (env v) now t c nv = (g, n') \<and> (grants out \<longrightarrow> g)"
proof -
  let ?fs = "[''REQUEST_VOTE'', Itoa t, c]"
  have dc: "hex_mac (env c)" "no_space c" "envSecret (env v) = envSecret (env c)" "hmacHex (env v) = hmacHex (env c)"
    using d unfolding deployment_def by blast+
  have self: "selfAddr (env c) nc = c" "clusterSecret nv = clusterSecret nc" using k dc(3) by (simp_all add: node_ok_def)
  have m: "voteRequest (env c) nc t = signed (env c) nc (Join ?fs '' '')" by (simp add: voteRequest_def self)
  have "list_all no_space ?fs" using dc(2) by (simp add: no_space_Itoa) (simp add: no_space_def is_space_def)
  then have "handlePeer_line (env v) now (voteRequest (env c) nc t) nv b = peer_command (env v) now ''REQUEST_VOTE'' ?fs nv b"
    using signed_command [OF dc(1), of ?fs nv nc "env v"] self(2) dc(4) unfolding m by simp
  with h have "on_vote (env v) now ?fs nv = (out, n')" by (auto simp: peer_command_def split: prod.splits)
  moreover have "Sscanf_d (Itoa t) = t" using t by (intro Sscanf_Itoa) simp_all
  ultimately show ?thesis
    using vote_denied by (auto simp: on_vote_def grants_def reply_def split: prod.splits if_splits)
qed

text \<open>A vote that agrees with the voter's state is one more vote of the history.\<close>

lemma inv_vote:
  assumes i: "election_inv env S s" and k: "vcalls s = xs @ Asked c v t # ys"
    and v: "CurrentTerm (nodes s v) = t" "VotedFor (nodes s v) = c"
  shows "election_inv env S (s\<lparr>vcalls := xs @ [Granted c v t] @ ys, votes := [(v, t, c)] @ votes s\<rparr>)"
proof -
  let ?s = "s\<lparr>vcalls := xs @ [Granted c v t] @ ys, votes := [(v, t, c)] @ votes s\<rparr>"
  have ck: "call_ok S s (Asked c v t)" using election_invD(5) [OF i] k by simp
  have "c \<noteq> []" using ck election_invD(1) [OF i] by (auto simp: call_ok_def deployment_def)
  then have vo: "\<forall>x \<in> set (votes ?s). vote_ok ?s x"
    using election_invD(3) [OF i] v by (auto simp: vote_ok_def)
  have "c = d" if "(v, t, d) \<in> set (votes s)" for d
    using election_invD(3) [OF i that] v by (auto simp: vote_ok_def)
  then have fu: "\<forall>v t c d. (v, t, c) \<in> set (votes ?s) \<longrightarrow> (v, t, d) \<in> set (votes ?s) \<longrightarrow> c = d"
    using election_invD(4) [OF i] by auto
  have ca: "call_ok S ?s x" if "x \<in> set (vcalls ?s)" for x
  proof (cases "x = Granted c v t")
    case True
    then show ?thesis using ck by (auto simp: call_ok_def)
  next
    case False
    then have "call_ok S s x" using that election_invD(5) [OF i] k by auto
    then show ?thesis by (auto simp: call_ok_def split: prod.splits)
  qed
  have "\<exists>K. counted S ?s d K" if d: "d \<in> S" "role (nodes s d) \<noteq> Follower" for d
  proof -
    obtain K where "counted S s d K" using election_invD(7) [OF i d] by blast
    then have "counted S ?s d K" using k by (auto simp: counted_def)
    then show ?thesis by blast
  qed
  then show ?thesis
    using vo fu ca election_invD(1,2,6) [OF i] k unfolding election_inv_def by simp
qed

lemma inv_asked:
  assumes i: "election_inv env S s" and k: "vcalls s = xs @ Asked c v t # ys"
    and h: "handlePeer_line (env v) now (voteRequest (env c) (nodes s c) t) (nodes s v) b = Ret (out, n', b')"
  shows "election_inv env S ((setNode v n' s)\<lparr>vcalls := xs @ (if grants out then [Granted c v t] else []) @ ys,
       votes := (if grants out then [(v, t, c)] else []) @ votes s\<rparr>)"
proof -
  let ?s = "setNode v n' s"
  have si: "election_inv env S ?s" using i handlePeer_line_advances [OF h] by (rule inv_advances)
  have kc: "vcalls ?s = xs @ Asked c v t # ys" "votes ?s = votes s" using k by (simp_all add: setNode_def)
  have ck: "call_ok S s (Asked c v t)" using election_invD(5) [OF i] k by simp
  show ?thesis
  proof (cases "grants out")
    case True
    have "evaluateVote (env v) now t c (nodes s v) = (True, n')"
      using vote_request_read [OF election_invD(1) [OF i] _ _ _ _ _ _ h] ck election_invD(2) [OF i] True
      by (auto simp: call_ok_def)
    then have "CurrentTerm (nodes ?s v) = t" "VotedFor (nodes ?s v) = c"
      using evaluateVote_granted by (auto simp: setNode_def)
    from inv_vote [OF si kc(1) this] True kc(2) show ?thesis by simp
  next
    case False
    with inv_lose [OF si, of xs "[Asked c v t]" ys] kc show ?thesis by (simp add: setNode_def)
  qed
qed

lemma calculateQuorum_eq:
  "node_ok e S i n \<Longrightarrow> calculateQuorum e n = (q, n') \<Longrightarrow> q = quorumOf e \<and> (n' = n \<or> n' = n\<lparr>quorumSize := q\<rparr>)"
  by (auto simp: calculateQuorum_def node_ok_def quorumOf_def Let_def split: if_splits)

lemma selfAddr_update [simp]:
  "selfAddr e (n\<lparr>quorumSize := q\<rparr>) = selfAddr e n" "selfAddr e (n\<lparr>role := r\<rparr>) = selfAddr e n"
  "selfAddr e (n\<lparr>votesReceived := k\<rparr>) = selfAddr e n" "selfAddr e (n\<lparr>CurrentTerm := t\<rparr>) = selfAddr e n"
  "selfAddr e (n\<lparr>VotedFor := v\<rparr>) = selfAddr e n" "selfAddr e (n\<lparr>lastHeartbeatSeen := h\<rparr>) = selfAddr e n"
  by (simp_all add: selfAddr_def)

lemma node_ok_quorum: "node_ok e S i n \<Longrightarrow> node_ok e S i (n\<lparr>quorumSize := quorumOf e\<rparr>)"
  by (simp add: node_ok_def)

text \<open>A change of roles and counters only.\<close>

lemma inv_frame:
  assumes i: "election_inv env S s" and f: "\<And>j. CurrentTerm (nodes u j) = CurrentTerm (nodes s j)"
      "\<And>j. VotedFor (nodes u j) = VotedFor (nodes s j)" "votes u = votes s" "vcalls u = vcalls s"
    and "\<And>j. j \<in> S \<Longrightarrow> node_ok (env j) S j (nodes u j)"
    and "\<And>c. c \<in> S \<Longrightarrow> role (nodes u c) \<noteq> Follower \<Longrightarrow> \<exists>K. counted S u c K"
  shows "election_inv env S u"
proof -
  have "vote_ok u = vote_ok s" "call_ok S u = call_ok S s" by (simp_all add: vote_ok_def call_ok_def f fun_eq_iff)
  with assms show ?thesis unfolding election_inv_def by simp
qed

lemma inv_quorum:
  assumes "election_inv env S s" and "i \<in> S"
  shows "election_inv env S (setNode i (snd (calculateQuorum (env i) (nodes s i))) s)"
proof -
  obtain q n' where c: "calculateQuorum (env i) (nodes s i) = (q, n')" by (rule prod.exhaust)
  have q: "q = quorumOf (env i)" "n' = nodes s i \<or> n' = (nodes s i)\<lparr>quorumSize := q\<rparr>"
    using calculateQuorum_eq [OF election_invD(2) [OF assms] c] by blast+
  show ?thesis
  proof (cases "n' = nodes s i")
    case True
    then show ?thesis using assms(1) c by (simp add: setNode_def)
  next
    case False
    let ?s = "setNode i n' s"
    have n: "n' = (nodes s i)\<lparr>quorumSize := quorumOf (env i)\<rparr>" using q False by blast
    have "election_inv env S ?s"
    proof (rule inv_frame [OF assms(1)])
      show "node_ok (env j) S j (nodes ?s j)" if "j \<in> S" for j
        using election_invD(2) [OF assms(1) that] n by (auto simp: setNode_def intro: node_ok_quorum)
      show "\<exists>K. counted S ?s d K" if "d \<in> S" "role (nodes ?s d) \<noteq> Follower" for d
        using election_invD(7) [OF assms(1), of d] that n by (auto simp: setNode_def counted_def split: if_splits)
    qed (use n in \<open>simp_all add: setNode_def\<close>)
    with c show ?thesis by simp
  qed
qed

lemma inv_answered:
  assumes i: "election_inv env S s" and k: "vcalls s = xs @ Granted c v t # ys"
  shows "election_inv env S ((setNode c (voteResponse (env c) t resp (nodes s c)) s)\<lparr>vcalls := xs @ ys\<rparr>)"
proof -
  have ck: "call_ok S s (Granted c v t)" using election_invD(5) [OF i] k by simp
  then have cS: "c \<in> S" "v \<in> S" "(v, t, c) \<in> set (votes s)" by (auto simp: call_ok_def)
  obtain q n' where cq: "calculateQuorum (env c) (nodes s c) = (q, n')" by (rule prod.exhaust)
  have q: "q = quorumOf (env c)" using calculateQuorum_eq [OF election_invD(2) [OF i cS(1)] cq] by blast
  let ?s = "setNode c n' s"
  have si: "election_inv env S ?s" using inv_quorum [OF i cS(1)] cq by simp
  have sf: "vcalls ?s = xs @ Granted c v t # ys" "votes ?s = votes s" "nodes ?s c = n'" using k by (simp_all add: setNode_def)
  have lost: "election_inv env S (?s\<lparr>vcalls := xs @ ys\<rparr>)" using inv_lose [OF si, of xs "[Granted c v t]" ys] sf by simp
  have same: "election_inv env S ((setNode c (nodes s c) s)\<lparr>vcalls := xs @ ys\<rparr>)"
    using inv_lose [OF i, of xs "[Granted c v t]" ys] k by (simp add: setNode_def)
  show ?thesis
  proof (cases "HasPrefix (TrimSpace resp) ''VOTE_GRANTED'' \<and> role n' = Candidate \<and> CurrentTerm n' = t")
    case False
    then show ?thesis using lost same cq by (auto simp: voteResponse_def)
  next
    case True
    let ?n = "n'\<lparr>votesReceived := votesReceived n' + 1, role := (if q \<le> votesReceived n' + 1 then Leader else Candidate)\<rparr>"
    let ?u = "(setNode c ?n s)\<lparr>vcalls := xs @ ys\<rparr>"
    have r: "voteResponse (env c) t resp (nodes s c) = ?n"
      using True cq by (auto simp: voteResponse_def Let_def)
    obtain K where K: "counted S ?s c K" using election_invD(7) [OF si cS(1)] sf(3) True by auto
    have dk: "(c, v, t) \<notin> call_key ` set (xs @ ys)" using election_invD(6) [OF i] k by (auto simp: image_Un)
    have fin: "finite K" using K election_invD(1) [OF i] finite_subset by (auto simp: counted_def deployment_def)
    have "v \<notin> K" using K sf True by (force simp: counted_def)
    then have "counted S ?u c (insert v K)"
      using K sf True cS fin dk by (auto simp: counted_def setNode_def)
    moreover have "\<exists>L. counted S ?u d L" if "d \<in> S" "role (nodes ?u d) \<noteq> Follower" "d \<noteq> c" for d
      using election_invD(7) [OF lost, of d] that by (auto simp: counted_def setNode_def)
    ultimately have cnt: "d \<in> S \<Longrightarrow> role (nodes ?u d) \<noteq> Follower \<Longrightarrow> \<exists>L. counted S ?u d L" for d by blast
    have ok: "node_ok (env j) S j (nodes ?u j)" if "j \<in> S" for j
      using election_invD(2) [OF lost that] q by (cases "j = c") (simp_all add: setNode_def node_ok_def)
    have "election_inv env S ?u"
      by (rule inv_frame [OF lost _ _ _ _ ok cnt]) (simp_all add: setNode_def)
    with r show ?thesis by simp
  qed
qed

subsection \<open>Starting an election\<close>

lemma inv_elect:
  assumes i: "election_inv env S s" and c: "c \<in> S" and b: "CurrentTerm (nodes s c) < 2 ^ 63 - 1"
    and e: "startElection (env c) now (nodes s c) = (n', cs)"
  shows "election_inv env S ((setNode c n' s)\<lparr>vcalls := vcalls s @ map (\<lambda>(a, t). Asked c a t) cs,
       votes := [(c, CurrentTerm n', c)] @ votes s\<rparr>)" (is "election_inv env S ?u")
    and "CurrentTerm n' \<noteq> CurrentTerm (nodes s c)"
proof -
  let ?n = "nodes s c" let ?t = "CurrentTerm ?n + 1"
  define u where "u = ?u"
  have ok: "node_ok (env c) S c ?n" using i c by (rule election_invD(2))
  have w: "wrap64 ?t = ?t" using ok b by (intro wrap64_id) (auto simp: node_ok_def)
  have n': "n' = ?n\<lparr>role := Candidate, CurrentTerm := ?t, VotedFor := c, votesReceived := 1, lastHeartbeatSeen := now\<rparr>"
    and cs: "cs = map (\<lambda>(a, _). (a, ?t)) (Peers ?n)"
    using e ok w by (auto simp: startElection_def Let_def node_ok_def)
  show "CurrentTerm n' \<noteq> CurrentTerm (nodes s c)" by (simp add: n')
  have old: "t \<le> CurrentTerm ?n" if "(c, t, d) \<in> set (votes s)" for t d
    using election_invD(3) [OF i that] by (simp add: vote_ok_def)
  have oldc: "t \<le> CurrentTerm ?n" if ck: "(c, v, t) \<in> call_key ` set (vcalls s)" for v t
  proof -
    obtain k where "k \<in> set (vcalls s)" "call_key k = (c, v, t)" using ck by force
    then show ?thesis using election_invD(5) [OF i, of k] by (simp add: call_ok_def)
  qed
  have un: "nodes u j = (if j = c then n' else nodes s j)" for j by (simp add: u_def setNode_def)
  have uc: "vcalls u = vcalls s @ map (\<lambda>(a, t). Asked c a t) cs" by (simp add: u_def)
  have new: "call_key ` set (map (\<lambda>(a, t). Asked c a t) cs) = (\<lambda>a. (c, a, ?t)) ` fst ` set (Peers ?n)"
    by (simp add: cs image_image split_def)
  have "c \<noteq> []" using election_invD(1) [OF i] c by (auto simp: deployment_def)
  have uv: "votes u = (c, ?t, c) # votes s" by (simp add: u_def n')
  have none: "(c, ?t, d) \<notin> set (votes s)" for d using old [of ?t d] by auto
  have vo: "vote_ok u x" if x: "x \<in> set (votes u)" for x
  proof (cases "x = (c, ?t, c)")
    case True
    then show ?thesis using \<open>c \<noteq> []\<close> by (simp add: vote_ok_def un n')
  next
    case False
    obtain v t d where vtd: "x = (v, t, d)" by (rule prod_cases3)
    have xs: "x \<in> set (votes s)" using x False uv by simp
    then have "v = c \<Longrightarrow> t < ?t" using old [of t d] vtd by auto
    with election_invD(3) [OF i xs] vtd show ?thesis by (cases "v = c") (auto simp: vote_ok_def un n')
  qed
  have fu: "d = d'" if "(v, t, d) \<in> set (votes u)" "(v, t, d') \<in> set (votes u)" for v t d d'
    using that none election_invD(4) [OF i, of v t d d'] unfolding uv by auto
  have ca: "call_ok S u k" if ku: "k \<in> set (vcalls u)" for k
  proof (cases "k \<in> set (vcalls s)")
    case True
    obtain d v t where kd: "call_key k = (d, v, t)" by (rule prod_cases3)
    have "CurrentTerm (nodes s d) \<le> CurrentTerm (nodes u d)" by (simp add: un n')
    with kd election_invD(5) [OF i True] show ?thesis by (auto simp: call_ok_def uv)
  next
    case False
    then obtain a where a: "a \<in> fst ` set (Peers ?n)" "k = Asked c a ?t" using ku by (auto simp: uc cs split_def)
    have "a \<in> S" using a(1) ok by (auto simp: node_ok_def)
    with a(2) ok c b show ?thesis by (simp add: call_ok_def un n' node_ok_def)
  qed
  have di: "distinct (map call_key (vcalls u))"
  proof -
    have "map call_key (map (\<lambda>(a, t). Asked c a t) cs) = map (\<lambda>a. (c, a, ?t)) (map fst (Peers ?n))"
      by (simp add: cs split_def)
    moreover have "distinct (map (\<lambda>a. (c, a, ?t)) (map fst (Peers ?n)))"
      using ok by (subst distinct_map) (auto simp: inj_on_def node_ok_def)
    ultimately have "distinct (map call_key (map (\<lambda>(a, t). Asked c a t) cs))" by simp
    moreover have "call_key ` set (vcalls s) \<inter> (\<lambda>a. (c, a, ?t)) ` fst ` set (Peers ?n) = {}" using oldc by force
    ultimately show ?thesis
      using election_invD(6) [OF i] unfolding uc map_append distinct_append set_map [of call_key] new by blast
  qed
  have co: "\<exists>K. counted S u d K" if d: "d \<in> S" "role (nodes u d) \<noteq> Follower" for d
  proof (cases "d = c")
    case True
    have "(c, c, ?t) \<notin> call_key ` set (vcalls u)"
      using oldc [of c ?t] ok unfolding uc set_append image_Un new by (auto simp: node_ok_def)
    then have "counted S u c {c}" using c by (simp add: counted_def un n' uv)
    with True show ?thesis by blast
  next
    case False
    with d obtain K where "counted S s d K" using election_invD(7) [OF i d(1)] by (auto simp: un)
    with False have "counted S u d K" unfolding counted_def uc set_append image_Un new by (auto simp: un uv)
    then show ?thesis by blast
  qed
  have "\<forall>j \<in> S. node_ok (env j) S j (nodes u j)"
  proof
    fix j assume j: "j \<in> S"
    show "node_ok (env j) S j (nodes u j)"
      using election_invD(2) [OF i j] by (cases "j = c") (auto simp: un n' node_ok_def)
  qed
  then have "election_inv env S u" using election_invD(1) [OF i] vo fu ca di co unfolding election_inv_def by blast
  then show "election_inv env S ?u" by (simp add: u_def)
qed

subsection \<open>All steps\<close>

lemma peerAnswered_advances: "advances n (peerAnswered x now a r n)"
  using mark_advances by (auto simp: peerAnswered_def split: option.split)

lemma awaitQuorum_node: "snd (awaitQuorum x w e answers n) = n \<or> snd (awaitQuorum x w e answers n) = snd (calculateQuorum e n)"
  by (simp add: awaitQuorum_def split: prod.split)

lemma inv_await:
  "election_inv env S s \<Longrightarrow> i \<in> S \<Longrightarrow> election_inv env S (setNode i (snd (awaitQuorum x w (env i) answers (nodes s i))) s)"
  using awaitQuorum_node [of x w "env i" answers "nodes s i"] inv_quorum [of env S s i] inv_advances [of env S s i "nodes s i"]
  by auto

lemma requestSync_advances: "requestSync e now lines n b = Ret (n', b') \<Longrightarrow> advances n n'"
  by (cases "sync_lines e now (the lines) n b") (auto simp: requestSync_def advances_def split: option.splits)

lemma cluster_step_inv: "cluster_step env S s s' \<Longrightarrow> election_inv env S s \<Longrightarrow> election_inv env S s'"
proof (induction rule: cluster_step.induct)
  case (elect i s now timeout n' cs)
  show ?case
  proof (cases "electionTick (env i) now timeout (nodes s i) = (nodes s i, [])")
    case True
    with elect have "n' = nodes s i" "cs = []" by simp_all
    with elect show ?thesis by (simp add: setNode_def)
  next
    case False
    then have st: "startElection (env i) now (nodes s i) = (n', cs)"
      using elect(3) by (auto simp: electionTick_def split: if_splits)
    from inv_elect [OF elect(4,1,2) st] show ?thesis by simp
  qed
next
  case (asked s xs c v t ys now b out n' b')
  from inv_asked [OF asked(3,1,2)] show ?case .
next
  case (answered s xs c v t ys resp)
  from inv_answered [OF answered(2,1)] show ?case .
next
  case (lost s xs k ys)
  with inv_lose [of env S s xs "[k]" ys] show ?case by simp
next
  case (line i now msg s b out n' b')
  from inv_advances [OF line(3) handlePeer_line_advances [OF line(2)]] show ?case .
next
  case (sync i now lines s b n' b')
  from inv_advances [OF sync(3) requestSync_advances [OF sync(2)]] show ?case .
qed (auto simp: sendHeartbeat_def pingPeer_def Replicate_def ReplicateBinding_def
    intro: inv_advances peerAnswered_advances inv_await)

text \<open>The peers a node loads: listed, distinct, and not itself.\<close>

lemma loadPeers_ok:
  "wf_map (Peers n) \<Longrightarrow> fst ` set (Peers n) \<subseteq> S - {selfAddr e n} \<Longrightarrow> TrimSpace ` set as \<subseteq> insert [] S \<Longrightarrow>
     (let n' = fold (loadPeer e) as n in n' = n\<lparr>Peers := Peers n'\<rparr> \<and> wf_map (Peers n') \<and> fst ` set (Peers n') \<subseteq> S - {selfAddr e n})"
proof (induction as arbitrary: n)
  case (Cons a as)
  let ?m = "loadPeer e a n"
  have m: "?m = n \<or> (?m = n\<lparr>Peers := Peers ?m\<rparr> \<and> (\<exists>p. Peers ?m = mput (TrimSpace a) p (Peers n)) \<and> TrimSpace a \<noteq> [] \<and> TrimSpace a \<noteq> selfAddr e n)"
    by (auto simp: loadPeer_def Let_def)
  have keys: "fst ` set (mput k p xs) = insert k (fst ` set xs)" for k p and xs :: "(string, Peer) gomap"
    by (simp add: mput_def dom_update)
  have s: "selfAddr e ?m = selfAddr e n" "?m = n\<lparr>Peers := Peers ?m\<rparr>" using m by (auto simp: selfAddr_def)
  have pm: "Peers ?m = Peers n \<or> (\<exists>p. Peers ?m = mput (TrimSpace a) p (Peers n) \<and> TrimSpace a \<in> S - {selfAddr e n})"
    using m Cons.prems(3) by auto
  have "wf_map (Peers ?m)" using pm Cons.prems(1) by (elim disjE exE) simp_all
  moreover have "fst ` set (Peers ?m) \<subseteq> S - {selfAddr e n}" using pm Cons.prems(2) keys by (elim disjE exE) simp_all
  ultimately have ih: "let n' = fold (loadPeer e) as ?m in n' = ?m\<lparr>Peers := Peers n'\<rparr> \<and> wf_map (Peers n')
      \<and> fst ` set (Peers n') \<subseteq> S - {selfAddr e n}" using Cons.IH [of ?m] Cons.prems(3) s(1) by simp
  have "?m\<lparr>Peers := x\<rparr> = n\<lparr>Peers := x\<rparr>" for x by (subst s(2)) simp
  with ih show ?case by (simp add: Let_def)
qed simp

lemma cluster_init_inv: "cluster_init env S s \<Longrightarrow> election_inv env S s"
proof -
  assume a: "cluster_init env S s"
  have ok: "node_ok (env i) S i (nodes s i) \<and> votesReceived (nodes s i) = 0" if i: "i \<in> S" for i
  proof -
    from a i obtain now addr http results b b' where n: "NewNode (env i) now addr http results b = Some (nodes s i, b')"
      and self: "selfAddr (env i) (nodes s i) = i" by (auto simp: cluster_init_def)
    let ?z = "\<lparr>Address = addr, HttpPort = http, LeaderHttp = [], role = (if envLeader (env i) = ''true'' then Leader else Follower),
      Peers = [], CurrentTerm = 0, VotedFor = [], votesReceived = 0, lastHeartbeatSeen = now, clusterSecret = envSecret (env i),
      isSynced = False, quorumSize = 0\<rparr>"
    have l: "nodes s i = loadPeersFromEnv (env i) ?z" using n by (auto simp: NewNode_def split: if_splits)
    have "TrimSpace ` set (Split (envNodes (env i)) '','') \<subseteq> insert [] S"
      using a i by (auto simp: cluster_init_def deployment_def listed_def)
    from loadPeers_ok [of ?z S "env i", OF _ _ this]
    have p: "nodes s i = ?z\<lparr>Peers := Peers (nodes s i)\<rparr>" "wf_map (Peers (nodes s i))"
        "fst ` set (Peers (nodes s i)) \<subseteq> S - {selfAddr (env i) ?z}"
      unfolding l loadPeersFromEnv_def Let_def by (simp_all split: if_splits)
    note sel = arg_cong [OF p(1), of Address] arg_cong [OF p(1), of role] arg_cong [OF p(1), of CurrentTerm]
      arg_cong [OF p(1), of clusterSecret] arg_cong [OF p(1), of quorumSize] arg_cong [OF p(1), of votesReceived]
    have "selfAddr (env i) ?z = i" using self sel(1) by (auto simp: selfAddr_def split: if_splits)
    with p(2,3) self sel show ?thesis by (simp add: node_ok_def)
  qed
  have "counted S s c {}" if "c \<in> S" for c using ok [OF that] by (simp add: counted_def)
  with a ok show ?thesis unfolding election_inv_def cluster_init_def by auto
qed

interpretation elections: invariant_system "cluster_init env S" "cluster_step env S" "election_inv env S" for env S
  by unfold_locales (auto intro: cluster_init_inv cluster_step_inv)

text \<open>
  C1: At most one leader per term. In every state a deployed cluster reaches, by any
  interleaving of election timeouts, vote requests and answers (each may be lost), heartbeats,
  replication, synchronisation and arbitrary further lines from anyone, two nodes that are both
  leader in the same term above 0 are the same node.
\<close>

theorem one_leader_per_term:
  assumes "reach (cluster_init env S) (cluster_step env S) s" and "i \<in> S" "j \<in> S"
    and "role (nodes s i) = Leader" "role (nodes s j) = Leader"
    and "CurrentTerm (nodes s i) = CurrentTerm (nodes s j)" "0 < CurrentTerm (nodes s i)"
  shows "i = j"
proof -
  have inv: "election_inv env S s" using assms(1) by (rule elections.inv_reach)
  have win: "\<exists>K. majority S K \<and> (\<forall>v \<in> K. (v, CurrentTerm (nodes s c), c) \<in> set (votes s))"
    if c: "c \<in> S" "role (nodes s c) = Leader" "0 < CurrentTerm (nodes s c)" for c
  proof -
    obtain K where K: "counted S s c K" using election_invD(7) [OF inv c(1)] c(2) by auto
    have "quorumOf (env c) \<le> votesReceived (nodes s c)"
      using election_invD(2) [OF inv c(1)] c(2,3) by (auto simp: node_ok_def)
    moreover have "int (card S) < 2 * quorumOf (env c)" using election_invD(1) [OF inv] c(1) by (rule quorum_majority)
    ultimately have "majority S K"
      using K election_invD(1) [OF inv] by (auto simp: majority_def counted_def deployment_def)
    with K show ?thesis by (auto simp: counted_def)
  qed
  let ?t = "CurrentTerm (nodes s i)"
  obtain A where A: "majority S A" "\<forall>v \<in> A. (v, ?t, i) \<in> set (votes s)"
    using win [OF assms(2,4,7)] by blast
  have "0 < CurrentTerm (nodes s j)" using assms(6,7) by simp
  with win [OF assms(3,5)] obtain B where B: "majority S B" "\<forall>v \<in> B. (v, ?t, j) \<in> set (votes s)"
    unfolding assms(6) by blast
  show ?thesis
    by (rule maj.one_winner [of "\<lambda>v c. (v, ?t, c) \<in> set (votes s)", OF election_invD(4) [OF inv] A(1) B(1)])
      (use A(2) B(2) in blast)+
qed

definition pair_env :: "string \<Rightarrow> cluster_env" where
  "pair_env i = (if i = ''a:1'' then sample_env ''a:1'' ''b:1'' else sample_env ''b:1'' ''a:1'')"

definition pair_node :: "string \<Rightarrow> Node" where
  "pair_node i = (if i = ''a:1'' then sample_node ''a:1'' ''b:1'' else sample_node ''b:1'' ''a:1'')"

definition pair_cluster :: cluster where
  "pair_cluster = \<lparr>nodes = pair_node, vcalls = [], votes = []\<rparr>"

lemma pair_init: "cluster_init pair_env {''a:1'', ''b:1''} pair_cluster"
proof -
  have new: "\<exists>now addr http results b b'. NewNode (sample_env x y) now addr http results b = Some (sample_node x y, b')" for x y
  proof -
    have "NewNode (sample_env x y) 0 x ''80'' (\<lambda>_. None) (sample_broker None) =
        Some (sample_node x y, snd (the (NewNode (sample_env x y) 0 x ''80'' (\<lambda>_. None) (sample_broker None))))"
      by (simp add: sample_node_def NewNode_def sample_env_def)
    then show ?thesis by blast
  qed
  have ns: "no_space ''a:1''" "no_space ''b:1''" by (code_simp, code_simp)
  have "map TrimSpace (Split ''a:1'' '','') = [''a:1'']" "map TrimSpace (Split ''b:1'' '','') = [''b:1'']" by (code_simp, code_simp)
  then have sp: "listed (sample_env x ''a:1'') = [''a:1'']" "listed (sample_env x ''b:1'') = [''b:1'']" for x
    by (simp_all add: listed_def sample_env_def)
  have ef: "envNodes (sample_env x y) = y" "envSecret (sample_env x y) = ''s''" "hmacHex (sample_env x y) = (\<lambda>k m. ''ff'' @ nat_digits (length m))"
      "envSelf (sample_env x y) = x" for x y by (simp_all add: sample_env_def)
  have "deployment pair_env {''a:1'', ''b:1''}"
    using ns sp sample_hex by (simp add: deployment_def pair_env_def ef)
  then show ?thesis
    using new by (simp add: cluster_init_def pair_cluster_def pair_env_def pair_node_def selfAddr_def ef)
qed

theorem one_leader_per_term_witness:
  "\<exists>s. reach (cluster_init pair_env {''a:1'', ''b:1''}) (cluster_step pair_env {''a:1'', ''b:1''}) s
     \<and> role (nodes s ''a:1'') = Leader \<and> CurrentTerm (nodes s ''a:1'') = 1
     \<and> \<not> (role (nodes s ''b:1'') = Leader \<and> CurrentTerm (nodes s ''b:1'') = 1)"
proof -
  let ?S = "{''a:1'', ''b:1''}" let ?step = "cluster_step pair_env ?S" let ?I = "cluster_init pair_env ?S"
  let ?a = "sample_node ''a:1'' ''b:1''" let ?ea = "sample_env ''a:1'' ''b:1''" let ?eb = "sample_env ''b:1'' ''a:1''"
  define a1 where "a1 = fst (electionTick ?ea 9000000000 5000000000 ?a)"
  define s1 where "s1 = (setNode ''a:1'' a1 pair_cluster)\<lparr>vcalls := [Asked ''a:1'' ''b:1'' 1], votes := [(''a:1'', 1, ''a:1'')]\<rparr>"
  have t: "electionTick ?ea 9000000000 5000000000 ?a = (a1, [(''b:1'', 1)])" "CurrentTerm a1 = 1" "CurrentTerm ?a = 0"
    unfolding a1_def by (rule prod_eqI, simp, code_simp, code_simp, code_simp)
  have "?step pair_cluster s1"
    using cluster_step.elect [of "''a:1''" ?S pair_cluster pair_env 9000000000 5000000000 a1 "[(''b:1'', 1)]"] t
    by (simp add: s1_def pair_cluster_def pair_env_def pair_node_def)
  then have r1: "reach ?I ?step s1" by (rule reach.step [OF reach.init [of ?I, OF pair_init]])
  have n1: "nodes s1 ''a:1'' = a1" "nodes s1 ''b:1'' = sample_node ''b:1'' ''a:1''"
    by (simp_all add: s1_def setNode_def pair_cluster_def pair_node_def)
  have "case handlePeer_line ?eb 9 (voteRequest ?ea (fst (electionTick ?ea 9000000000 5000000000 ?a)) 1) (sample_node ''b:1'' ''a:1'') (sample_broker None)
      of Ret (out, n', b') \<Rightarrow> grants out | _ \<Rightarrow> False" by code_simp
  then obtain out n' b' where h: "handlePeer_line ?eb 9 (voteRequest ?ea a1 1) (sample_node ''b:1'' ''a:1'') (sample_broker None) = Ret (out, n', b')"
      "grants out" unfolding a1_def by (auto split: run.splits)
  define s2 where "s2 = (setNode ''b:1'' n' s1)\<lparr>vcalls := [Granted ''a:1'' ''b:1'' 1], votes := [(''b:1'', 1, ''a:1''), (''a:1'', 1, ''a:1'')]\<rparr>"
  have "?step s1 s2"
    using cluster_step.asked [of s1 "[]" "''a:1''" "''b:1''" 1 "[]" pair_env 9 "sample_broker None" out n' b' ?S] h n1
    by (simp add: s1_def s2_def pair_env_def)
  then have r2: "reach ?I ?step s2" by (rule reach.step [OF r1])
  define s3 where "s3 = (setNode ''a:1'' (voteResponse ?ea 1 ''VOTE_GRANTED'' a1) s2)\<lparr>vcalls := []\<rparr>"
  have n2: "nodes s2 ''a:1'' = a1" using n1 by (simp add: s2_def setNode_def)
  have "?step s2 s3"
    using cluster_step.answered [of s2 "[]" "''a:1''" "''b:1''" 1 "[]" pair_env ?S "''VOTE_GRANTED''"] n2
    by (simp add: s2_def s3_def pair_env_def)
  then have r3: "reach ?I ?step s3" by (rule reach.step [OF r2])
  have "role (voteResponse ?ea 1 ''VOTE_GRANTED'' (fst (electionTick ?ea 9000000000 5000000000 ?a))) = Leader"
    "CurrentTerm (voteResponse ?ea 1 ''VOTE_GRANTED'' (fst (electionTick ?ea 9000000000 5000000000 ?a))) = 1"
    by (code_simp, code_simp)
  then have "role (nodes s3 ''a:1'') = Leader" "CurrentTerm (nodes s3 ''a:1'') = 1" by (simp_all add: s3_def setNode_def a1_def)
  with one_leader_per_term [OF r3, of "''a:1''" "''b:1''"] r3 show ?thesis by auto
qed

subsection \<open>Progress of an election\<close>

text \<open>
  An election is won exactly with a quorum of answers. A candidate that counts its own vote
  and gets answers that grant it the vote, while its term lasts, is leader afterwards if and only
  if there was at least one answer and, with its own vote, they make the configured quorum. A node
  without peers is therefore never elected, whatever its quorum.
\<close>

theorem quorum_of_votes_elects:
  assumes "role n = Candidate" and "votesReceived n = 1" and "quorumSize n = 0"
    and "\<forall>r \<in> set resps. HasPrefix (TrimSpace r) ''VOTE_GRANTED''"
  shows "role (fold (voteResponse e (CurrentTerm n)) resps n) = Leader \<longleftrightarrow> resps \<noteq> [] \<and> quorumOf e \<le> 1 + int (length resps)"
proof -
  let ?t = "CurrentTerm n"
  have q: "0 < quorumOf e" by (simp add: quorumOf_def)
  have cq: "calculateQuorum e m = (quorumOf e, m\<lparr>quorumSize := quorumOf e\<rparr>)"
    if "quorumSize m = 0 \<or> quorumSize m = quorumOf e" for m
    using that q unfolding calculateQuorum_def quorumOf_def [symmetric] Let_def by (elim disjE) simp_all
  have lead: "role (fold (voteResponse e ?t) rs m) = Leader" if "role m = Leader" for rs m
    using that by (induction rs arbitrary: m) (simp_all add: voteResponse_def calculateQuorum_def Let_def)
  have vr: "voteResponse e ?t r m = m\<lparr>quorumSize := quorumOf e, votesReceived := votesReceived m + 1,
        role := if quorumOf e \<le> votesReceived m + 1 then Leader else Candidate\<rparr>"
    if "role m = Candidate" "CurrentTerm m = ?t" "quorumSize m = 0 \<or> quorumSize m = quorumOf e"
      "HasPrefix (TrimSpace r) ''VOTE_GRANTED''" for r m
    using that by (simp add: voteResponse_def cq Let_def)
  have step: "role (fold (voteResponse e ?t) rs m) = Leader \<longleftrightarrow> quorumOf e \<le> votesReceived m + int (length rs)"
    if "role m = Candidate" "CurrentTerm m = ?t" "quorumSize m = 0 \<or> quorumSize m = quorumOf e" "votesReceived m < quorumOf e"
      "\<forall>r \<in> set rs. HasPrefix (TrimSpace r) ''VOTE_GRANTED''" for rs m
    using that
  proof (induction rs arbitrary: m)
    case (Cons r rs)
    let ?m = "voteResponse e ?t r m"
    have m: "?m = m\<lparr>quorumSize := quorumOf e, votesReceived := votesReceived m + 1,
        role := if quorumOf e \<le> votesReceived m + 1 then Leader else Candidate\<rparr>"
      using Cons.prems by (intro vr) simp_all
    show ?case
    proof (cases "quorumOf e \<le> votesReceived m + 1")
      case True
      then show ?thesis using lead [of ?m rs] m by simp
    next
      case False
      then have "role ?m = Candidate" "CurrentTerm ?m = ?t" "quorumSize ?m = quorumOf e" "votesReceived ?m = votesReceived m + 1"
        using Cons.prems(2) by (simp_all add: m)
      with Cons.IH [of ?m] Cons.prems(5) False show ?thesis by (simp add: add.assoc)
    qed
  qed simp
  show ?thesis
  proof (cases resps)
    case (Cons r rs)
    show ?thesis
    proof (cases "quorumOf e \<le> 2")
      case True
      then have "role (voteResponse e ?t r n) = Leader"
        using vr [of n r] assms Cons by simp
      with lead Cons True show ?thesis by simp
    next
      case False
      with step [of n resps] assms Cons show ?thesis by simp
    qed
  qed (use assms in simp)
qed

theorem quorum_of_votes_elects_witness:
  "role (fold (voteResponse (sample_env ''a:1'' ''b:1,c:1'') 1) [''VOTE_GRANTED 1 ff'']
     (fst (startElection (sample_env ''a:1'' ''b:1,c:1'') 9 (sample_node ''a:1'' ''b:1,c:1'')))) = Leader"
proof -
  let ?n = "fst (startElection (sample_env ''a:1'' ''b:1,c:1'') 9 (sample_node ''a:1'' ''b:1,c:1''))"
  have "role ?n = Candidate" "votesReceived ?n = 1" "quorumSize ?n = 0" "CurrentTerm ?n = 1"
    by (code_simp, code_simp, code_simp, code_simp)
  moreover have "HasPrefix (TrimSpace ''VOTE_GRANTED 1 ff'') ''VOTE_GRANTED''" by code_simp
  moreover have "quorumOf (sample_env ''a:1'' ''b:1,c:1'') = 2" by code_simp
  ultimately show ?thesis
    using quorum_of_votes_elects [of ?n "[''VOTE_GRANTED 1 ff'']" "sample_env ''a:1'' ''b:1,c:1''"] by simp
qed

text \<open>
  Listing every member, the node itself included, makes the quorum larger than a majority.
  With an odd number of members in the list the quorum is one more than a majority of them, so a
  leader that reaches exactly a majority of the cluster (itself and half of the others) has every
  publish refused; the list of three in the Kubernetes manifest makes the quorum three.
\<close>

theorem self_listing_raises_quorum:
  assumes "length (Split (envNodes e) '','') = N" and "odd N" and "envNodes e \<noteq> []"
    and "role n = Leader" and "quorumSize n = 0" and "alivePeers n \<noteq> []" and "length (alivePeers n) \<le> N div 2"
  shows "fst (calculateQuorum e n) = int (N div 2 + 1) + 1 \<and> fst (Replicate e answers n) \<noteq> None"
proof -
  have "(N + 1) div 2 = N div 2 + 1" using assms(2) by (auto elim!: oddE)
  then have q: "calculateQuorum e n = (int (N div 2 + 1) + 1, n\<lparr>quorumSize := int (N div 2 + 1) + 1\<rparr>)"
    using assms by (simp add: calculateQuorum_def Let_def)
  have "successCount x answers (n\<lparr>quorumSize := k\<rparr>) < int (N div 2 + 1) + 1" for x k
  proof -
    let ?P = "\<lambda>a. case answers a of Some r \<Rightarrow> TrimSpace r = x | None \<Rightarrow> False"
    have "alivePeers (n\<lparr>quorumSize := k\<rparr>) = alivePeers n" by (simp add: alivePeers_def)
    moreover have "int (length (filter ?P (alivePeers n))) \<le> int (N div 2)"
      using assms(7) length_filter_le [of ?P "alivePeers n"] by linarith
    ultimately show ?thesis by (simp add: successCount_def)
  qed
  with q assms(4,6) show ?thesis by (simp add: Replicate_def awaitQuorum_def)
qed

definition kubernetes_nodes :: string where
  "kubernetes_nodes = ''tinymq-0.tinymq-headless:7901,tinymq-1.tinymq-headless:7901,tinymq-2.tinymq-headless:7901''"

definition kubernetes_leader :: Node where
  "kubernetes_leader = (markPeerAlive 1 ''tinymq-1.tinymq-headless:7901''
     (sample_node ''tinymq-0.tinymq-headless:7901'' kubernetes_nodes))\<lparr>role := Leader\<rparr>"

theorem self_listing_raises_quorum_witness:
  "fst (calculateQuorum (sample_env ''tinymq-0.tinymq-headless:7901'' kubernetes_nodes) kubernetes_leader) = 3
    \<and> fst (Replicate (sample_env ''tinymq-0.tinymq-headless:7901'' kubernetes_nodes) (\<lambda>_. Some ''REPLICATE_ACK'') kubernetes_leader) \<noteq> None"
proof -
  have "length (Split kubernetes_nodes '','') = 3" "quorumSize kubernetes_leader = 0" "role kubernetes_leader = Leader"
      "alivePeers kubernetes_leader = [''tinymq-1.tinymq-headless:7901'']" "kubernetes_nodes \<noteq> []"
    by (code_simp, code_simp, code_simp, code_simp, code_simp)
  with self_listing_raises_quorum [of "sample_env ''tinymq-0.tinymq-headless:7901'' kubernetes_nodes" 3 kubernetes_leader "\<lambda>_. Some ''REPLICATE_ACK''"]
  show ?thesis by (simp add: sample_env_def)
qed

end
