(* ===== verification/Startup.thy ===== *)
theory Startup
  imports BrokerQueues DurableLog
begin

text \<open>
  The start of the program (\<^verbatim>\<open>cmd/tinymq/main.go\<close>) and the broker over its log: the topics
  recovered from the data directory, the compaction at the start and by the ticker, and
  what of the queues survives a restart.
\<close>

subsection \<open>Recovery\<close>

definition recoverName :: "string \<Rightarrow> string" where
  "recoverName file =
     (let encodedName = TrimSuffix file ''.log'' in
      if Contains encodedName ''_b_'' \<or> Contains encodedName ''_a_'' then FilenameToTopic encodedName
      else ReplaceAll encodedName ''@'' ''/'')"

text \<open>The directory of the model has no subdirectories; the extension is the suffix from the last dot.\<close>

definition topicsToRecover :: "DiskStorage \<Rightarrow> string list" where
  "topicsToRecover s = map recoverName (filter (\<lambda>f. HasSuffix f ''.log'') (mkeys (dirents s)))"

definition compactTopic :: "string \<Rightarrow> Broker \<Rightarrow> Broker" where
  "compactTopic name b = b\<lparr>storage := map_option (\<lambda>s. snd (CompactLog name s)) (storage b)\<rparr>"

text \<open>\<open>listable\<close> tells whether the directory could be listed.\<close>

definition recoverLogs :: "bool \<Rightarrow> Broker \<Rightarrow> Broker run" where
  "recoverLogs listable b =
     (case storage b of
        None \<Rightarrow> Ret b
      | Some s \<Rightarrow>
         (if \<not> listable then Ret b
          else
            (let names = topicsToRecover s in
             bind_run (LoadExistingTopics names b) (\<lambda>b. Ret (fold compactTopic names b)))))"

text \<open>One tick of the garbage collector.\<close>

definition compactionTick :: "Broker \<Rightarrow> Broker" where
  "compactionTick b = fold (\<lambda>st b. compactTopic (sName st) b) (fst (GetStats b)) b"

lemma recoverName_log: "clean_name t \<Longrightarrow> recoverName (logFilePath t) = t"
proof -
  assume c: "clean_name t"
  have u: "TrimSuffix (logFilePath t) ''.log'' = topicToFilename t" by (simp add: logFilePath_def)
  have f: "FilenameToTopic (topicToFilename t) = t" using c by (intro filename_roundtrip) (simp_all add: clean_name_def)
  have at: "CHR ''@'' \<notin> set (topicToFilename t)" using set_logFilePath [of t] by (auto simp: logFilePath_def)
  show ?thesis
  proof (cases "Contains (topicToFilename t) ''_b_'' \<or> Contains (topicToFilename t) ''_a_''")
    case True
    then show ?thesis using u f by (simp add: recoverName_def Let_def)
  next
    case False
    then have "FilenameToTopic (topicToFilename t) = topicToFilename t" by (simp add: FilenameToTopic_def ReplaceAll_absent)
    moreover have "ReplaceAll (topicToFilename t) ''@'' ''/'' = topicToFilename t"
      using at by (intro ReplaceAll_absent) (simp add: Contains_char)
    ultimately show ?thesis using False u f by (simp add: recoverName_def Let_def)
  qed
qed

subsection \<open>The storage of a broker that recovers\<close>

text \<open>A good log whose topics recover the queues \<open>q\<close>.\<close>

definition holds :: "(log_record \<Rightarrow> bytes) \<Rightarrow> (string \<Rightarrow> message list) \<Rightarrow> DiskStorage \<Rightarrow> bool" where
  "holds json q s \<longleftrightarrow> good json s \<and> (\<forall>t. clean_name t \<longrightarrow> recovered s t = q t)"

lemma holds_load: "holds json q s \<Longrightarrow> LoadMessages t s = (r, s') \<Longrightarrow> holds json q s'"
proof -
  assume h: "holds json q s" and l: "LoadMessages t s = (r, s')"
  note f = LoadMessages_frame [OF l]
  have lo: "log_of s' n = log_of s n" for n using frame_log_of [OF f(1)] by simp
  have js: "jsonText s' = jsonText s" by (rule frame_json [OF f(1)])
  have "good json s'"
    using h f(2-4) lo js frame_healthy [OF f(1)] unfolding holds_def good_def live_handle_def by simp
  moreover have "recovered s' t = recovered s t" for t by (simp add: recovered_def lo js)
  ultimately show ?thesis using h by (simp add: holds_def)
qed

lemma holds_step:
  assumes "holds json q s" and "wal_okay json x" and "op_puts x = []" and "queue_op x q = q"
  shows "fst (wal_step x s) = None \<and> holds json q (snd (wal_step x s))"
proof -
  obtain e s' where st: "wal_step x s = (e, s')" by (rule prod.exhaust)
  have g: "good json s" using assms(1) by (simp add: holds_def)
  have law: "e = None" "good json s'" "\<And>t. clean_name t \<Longrightarrow> recovered s' t = queue_op x (recovered s) t"
    using wal.step_law [OF g assms(2) _ st] assms(3) by auto
  have "recovered s' t = q t" if "clean_name t" for t
    using law(3) [OF that] wal.queue_op_cong [of "recovered s" q t x] assms(1,4) that by (simp add: holds_def)
  with law st show ?thesis by (simp add: holds_def)
qed

lemma holds_compact: "holds json q s \<Longrightarrow> clean_name t \<Longrightarrow> holds json q (snd (CompactLog t s))"
  using holds_step [of json q s "OpCompact t"] by simp

lemma holds_restart: "holds json q s \<Longrightarrow> holds json q (CloseAll s)"
  using holds_step [of json q s OpRestart] by simp

text \<open>A broker on such a log in which the topics of \<open>N\<close> have the recovered queues.\<close>

definition restored :: "(log_record \<Rightarrow> bytes) \<Rightarrow> (string \<Rightarrow> message list) \<Rightarrow> string set \<Rightarrow> Broker \<Rightarrow> bool" where
  "restored json q N b \<longleftrightarrow> (\<exists>s. storage b = Some s \<and> holds json q s)
     \<and> (\<forall>t \<in> N. \<exists>r. mget (Topics b) t = Some r \<and> r < length (heap b) \<and> Messages (heap b ! r) = q t
          \<and> HighMessages (heap b ! r) = [] \<and> LowMessages (heap b ! r) = [])"

lemma addTopic_parts:
  "heap (addTopic n t b) = heap b @ [t]" "Topics (addTopic n t b) = mput n (length (heap b)) (Topics b)"
  "storage (addTopic n t b) = storage b"
  by (simp_all add: addTopic_def compileWildcardRegex_def Let_def split: option.split)

lemma loadTopic_restored:
  assumes r: "restored json q N b" and c: "clean_name n"
  shows "\<exists>b'. loadTopic n b = Ret b' \<and> restored json q (insert n N) b'"
proof -
  let ?b = "if Contains n ''::'' then addBinding (hd (SplitN n ''::'' 2)) n b else b"
  have b: "heap ?b = heap b" "Topics ?b = Topics b" "storage ?b = storage b" by (simp_all add: addBinding_def Let_def)
  obtain s where s: "storage b = Some s" "holds json q s" using r by (auto simp: restored_def)
  obtain res s' where l: "LoadMessages n s = (res, s')" by (rule prod.exhaust)
  have res: "res = (q n, None)" using load_good [of json s n] s(2) c l by (simp add: holds_def)
  have h: "holds json q s'" using s(2) l by (rule holds_load)
  let ?t = "newTopic n (q n) (policyOf (envPolicy (?b\<lparr>storage := Some s'\<rparr>))) 0"
  let ?b' = "addTopic n ?t (?b\<lparr>storage := Some s'\<rparr>)"
  have "loadTopic n b = Ret ?b'" unfolding loadTopic_def Let_def b(3) s(1) by (simp add: l res)
  moreover have "restored json q (insert n N) ?b'"
    unfolding restored_def
  proof (intro conjI ballI)
    show "\<exists>s. storage ?b' = Some s \<and> holds json q s" using h by (simp add: addTopic_parts)
    fix t assume t: "t \<in> insert n N"
    show "\<exists>r. mget (Topics ?b') t = Some r \<and> r < length (heap ?b') \<and> Messages (heap ?b' ! r) = q t
          \<and> HighMessages (heap ?b' ! r) = [] \<and> LowMessages (heap ?b' ! r) = []"
    proof (cases "t = n")
      case True
      then show ?thesis by (simp add: addTopic_parts b newTopic_def)
    next
      case False
      with t r obtain r' where "mget (Topics b) t = Some r'" "r' < length (heap b)" "Messages (heap b ! r') = q t"
        "HighMessages (heap b ! r') = []" "LowMessages (heap b ! r') = []" by (auto simp: restored_def)
      with False show ?thesis by (simp add: addTopic_parts b nth_append)
    qed
  qed
  ultimately show ?thesis by blast
qed

lemma loadTopics_restored:
  "restored json q N b \<Longrightarrow> \<forall>n \<in> set ns. clean_name n \<Longrightarrow>
     \<exists>b'. LoadExistingTopics ns b = Ret b' \<and> restored json q (set ns \<union> N) b'"
proof (induction ns arbitrary: N b)
  case (Cons n ns)
  obtain b1 where b1: "loadTopic n b = Ret b1" "restored json q (insert n N) b1"
    using loadTopic_restored [OF Cons.prems(1)] Cons.prems(2) by auto
  from Cons.IH [OF b1(2)] Cons.prems(2) b1(1) show ?case by (auto simp: LoadExistingTopics_def)
qed (simp add: LoadExistingTopics_def)

lemma compact_restored:
  "restored json q N b \<Longrightarrow> \<forall>n \<in> set ns. clean_name n \<Longrightarrow> restored json q N (fold compactTopic ns b)"
proof (induction ns arbitrary: b)
  case (Cons n ns)
  have "restored json q N (compactTopic n b)"
    using Cons.prems holds_compact by (auto simp: restored_def compactTopic_def)
  from Cons.IH [OF this] Cons.prems(2) show ?case by simp
qed simp

lemma restart_recovers:
  assumes "good json s" and "\<forall>f. mget (dirents s) f \<noteq> None \<and> HasSuffix f ''.log'' \<longrightarrow> (\<exists>t. clean_name t \<and> f = logFilePath t)"
    and "clean_name t" and "mget (dirents s) (logFilePath t) \<noteq> None"
  shows "\<exists>b r s'. recoverLogs True (broker_New (Some (CloseAll s)) em et p xc xm rnd) = Ret b
    \<and> mget (Topics b) t = Some r \<and> Messages (heap b ! r) = recovered s t
    \<and> HighMessages (heap b ! r) = [] \<and> LowMessages (heap b ! r) = []
    \<and> storage b = Some s' \<and> (\<forall>t'. clean_name t' \<longrightarrow> recovered s' t' = recovered s t')"
proof -
  let ?q = "recovered s" and ?s = "CloseAll s"
  let ?b = "broker_New (Some ?s) em et p xc xm rnd" and ?ns = "topicsToRecover ?s"
  have h: "holds json ?q ?s" using holds_restart [of json ?q s] assms(1) by (simp add: holds_def)
  have d: "dirents ?s = dirents s" using CloseAll_spec by blast
  have keys: "f \<in> set (mkeys (dirents ?s)) \<longleftrightarrow> mget (dirents s) f \<noteq> None" for f
    unfolding d by (simp add: mget_None_iff mkeys_def)
  have cl: "\<forall>n \<in> set ?ns. clean_name n"
    using assms(2) keys recoverName_log by (auto simp: topicsToRecover_def)
  have "HasSuffix (logFilePath t) ''.log''" by (simp add: logFilePath_def)
  then have "t \<in> set ?ns"
    using assms(3,4) keys recoverName_log [OF assms(3)] by (force simp: topicsToRecover_def)
  moreover have "restored json ?q {} ?b" using h by (simp add: restored_def broker_New_def)
  from loadTopics_restored [OF this cl] obtain b' where
    b': "LoadExistingTopics ?ns ?b = Ret b'" "restored json ?q (set ?ns \<union> {}) b'" by blast
  from compact_restored [OF b'(2) cl] have "restored json ?q (set ?ns) (fold compactTopic ?ns b')" by simp
  moreover have "recoverLogs True ?b = Ret (fold compactTopic ?ns b')"
    using b'(1) by (simp add: recoverLogs_def Let_def) (simp add: broker_New_def)
  ultimately show ?thesis unfolding restored_def holds_def by blast
qed

text \<open>
  C2: A restart restores every queue from its log. Take a good data directory all of whose
  log files belong to topics with clean names. A program that closes it and starts again on it
  recovers without getting stuck; each topic that has a log exists afterwards, its queue holding,
  in order, exactly the messages that were logged and not acknowledged, all at normal priority;
  and the logs, now compacted, still recover the same messages.
\<close>

theorem restart_restores_queues:
  assumes "good json s" and "\<forall>f. mget (dirents s) f \<noteq> None \<and> HasSuffix f ''.log'' \<longrightarrow> (\<exists>t. clean_name t \<and> f = logFilePath t)"
    and "clean_name t" and "mget (dirents s) (logFilePath t) \<noteq> None"
  shows "\<exists>b r s'. recoverLogs True (broker_New (Some (CloseAll s)) em et p xc xm rnd) = Ret b
    \<and> mget (Topics b) t = Some r \<and> Messages (heap b ! r) = recovered s t
    \<and> HighMessages (heap b ! r) = [] \<and> LowMessages (heap b ! r) = []
    \<and> storage b = Some s' \<and> (\<forall>t'. clean_name t' \<longrightarrow> recovered s' t' = recovered s t')"
  by (rule restart_recovers [OF assms])

theorem restart_restores_queues_witness:
  "\<exists>b r. recoverLogs True (broker_New (Some (CloseAll (snd (AppendPut 1 ''q'' (sample_message ''a'') (new_disk True (\<lambda>_. []))))))
      [] [] [] (\<lambda>_. False) (\<lambda>_ _. False) (\<lambda>_. None)) = Ret b
    \<and> mget (Topics b) ''q'' = Some r \<and> Messages (heap b ! r) = [sample_message ''a'']"
proof -
  let ?s = "snd (AppendPut 1 ''q'' (sample_message ''a'') (new_disk True (\<lambda>_. [])))"
  have ok: "wal_okay (\<lambda>_. []) (OpPut 1 ''q'' (sample_message ''a''))" by (simp add: clean_q maxLine_def)
  obtain e where st: "wal_step (OpPut 1 ''q'' (sample_message ''a'')) (new_disk True (\<lambda>_. [])) = (e, ?s)"
    by (metis prod.collapse wal_step.simps(1))
  have law: "good (\<lambda>_. []) ?s" "recovered ?s ''q'' = [sample_message ''a'']"
    using wal.step_law [OF good_new_disk ok _ st] clean_q by (simp_all add: used_new_disk recovered_new_disk)
  have "dirents ?s = [(''q.log'', 0)]" by code_simp
  then have d: "mget (dirents ?s) f = (if f = ''q.log'' then Some 0 else None)" for f by (simp add: mget_def)
  have "\<forall>f. mget (dirents ?s) f \<noteq> None \<and> HasSuffix f ''.log'' \<longrightarrow> (\<exists>t. clean_name t \<and> f = logFilePath t)"
    using clean_q logFilePath_q by (auto simp: d split: if_splits intro: exI [of _ "''q''"])
  from restart_restores_queues [OF law(1) this clean_q, of "[]" "[]" "[]" "\<lambda>_. False" "\<lambda>_ _. False" "\<lambda>_. None"] law(2)
  show ?thesis by (auto simp: d logFilePath_q)
qed

subsection \<open>Publishing and the log\<close>

lemma push_storage:
  assumes "broker_inv b" and "\<forall>r \<in> set (jTopic j # jWild j). r < length (heap b)" and "\<not> jBroadcast j"
  shows "\<exists>b'. pushFunc j b = Ret b' \<and> storage b' = storage b"
proof -
  obtain b1 where b1: "quietly b b1"
      "pushFunc j b = Ret (case receiver (jWild j @ [jTopic j]) b of None \<Rightarrow> b1 | Some (r, c) \<Rightarrow> deliver j r c b1)"
    using pushFunc_receiver [OF assms] by blast
  have "storage (deliver j r c b1) = storage b1" for r c by (simp add: deliver_def popWaiting_def updTopic_def)
  with b1 show ?thesis by (auto simp: quietly_def split: option.split)
qed

lemma publish_logged:
  assumes inv: "broker_inv b" and "publish_check n = None" and "boundTopics n b = []"
    and "mget (Topics b) n = Some r" and "\<not> Deleted (heap b ! r)" and "Policy (heap b ! r) \<noteq> ''drop-oldest''"
    and "OnPublish b = None" and "NewUUID (randOut b (randTick b)) = Some i" and "\<not> pBroadcast req"
    and "storage b = Some s" and "good json s" and "(n, i) \<notin> used_ids s"
    and "m = publish_message now n req (heap b ! r) i" and "wal_okay json (OpPut now n m)"
  shows "\<exists>e b' s'. Publish now n req b = Ret (e, b') \<and> (e = None \<longleftrightarrow> totalActiveMessages (heap b ! r) < maxMessages b)
    \<and> (e \<noteq> None \<longrightarrow> heap b' = heap b) \<and> storage b' = Some s' \<and> s' = snd (AppendPut now n m s) \<and> good json s' \<and> recovered s' n = recovered s n @ [m]"
proof -
  let ?req = "req\<lparr>pReplication := False\<rparr>" and ?b1 = "b\<lparr>randTick := Suc (randTick b)\<rparr>"
  have m: "publish_message now n ?req (heap b ! r) i = m" by (simp add: assms(13) publish_message_def)
  have r: "r < length (heap b)" using inv assms(4) by (simp add: broker_inv_def refs_ok_def)
  have cl: "clean_name n" using assms(14) by simp
  obtain e0 s' where st: "wal_step (OpPut now n m) s = (e0, s')" by (rule prod.exhaust)
  have "ID m = i" by (simp add: assms(13) publish_message_def)
  then have log: "s' = snd (AppendPut now n m s)" "good json s'" "recovered s' n = recovered s n @ [m]"
    using wal.step_law [OF assms(11,14) _ st] assms(12) cl st by simp_all
  let ?b2 = "storePut now n m ?b1"
  have b2: "storage ?b2 = Some s'" "heap ?b2 = heap b" "maxMessages ?b2 = maxMessages b"
    using st assms(10) by (simp_all add: storePut_def)
  have inv2: "broker_inv (updTopic r (enqueue p m) ?b2)" for p
    using quiet_inv [OF quiet_updTopic quiet_inv [OF storePut_quiet quiet_inv [OF _ inv]]] by simp
  have g: "getOrCreateTopic n b = (Some r, b)" using assms(4) by (simp add: getOrCreateTopic_def)
  have c: "callOnPublish n ?req ?b1 = (None, ?b1)" using assms(7) by (simp add: callOnPublish_def)
  have pl: "Publish now n req b = publish_local now n ?req b" by (rule Publish_unbound [OF assms(2,3)])
  show ?thesis
  proof (cases "totalActiveMessages (heap b ! r) < maxMessages b")
    case False
    then have "Publish now n req b = Ret (Some (''queue capacity reached (max '' @ Itoa (maxMessages b) @ '' messages)''), ?b2)"
      using assms(5,6,8,9) unfolding pl by (simp add: publish_local_def g Let_def c m publish_enqueue_def b2)
    with False b2 log show ?thesis by auto
  next
    case True
    let ?b3 = "updTopic r (enqueue (pPriority req) m) ?b2"
    let ?j = "\<lparr>jName = n, jTopic = r, jMsg = m, jWild = matchingWildcards n b, jBroadcast = False\<rparr>"
    have enq: "publish_enqueue now n ?req r m ?b1 = Ret (None, ?b3)"
      using True assms(5,9) by (simp add: publish_enqueue_def Let_def b2)
    have "\<forall>r \<in> set (jTopic ?j # jWild ?j). r < length (heap ?b3)"
      using r matchingWildcards_refs [OF inv, of n] by (simp add: b2 updTopic_def)
    from push_storage [OF inv2 [of "pPriority req"] this] obtain b4 where b4: "pushFunc ?j ?b3 = Ret b4" "storage b4 = Some s'"
      using b2(1) by (auto simp: updTopic_def)
    have "\<exists>b'. Publish now n req b = Ret (None, b') \<and> storage b' = Some s'"
      using assms(8,9) b4 b2(1) unfolding pl
      by (simp add: publish_local_def g Let_def c m enq updTopic_def)
    with True log show ?thesis by blast
  qed
qed



subsection \<open>Consuming and the log\<close>



end
