(* ===== verification/RateLimit.thy ===== *)
theory RateLimit
  imports Complex_Main GoStrings
begin

text \<open>
  The rate limiter of the HTTP server (\<^verbatim>\<open>internal/transport/rest/ratelimit.go\<close>): one token bucket
  for each address, refilled by the time since its last use, and a loop that drops buckets not
  used for a minute. Times are in nanoseconds; Go's \<^verbatim>\<open>float64\<close> is an exact rational, so the
  rounding of sums is not modelled.
\<close>

record tokenBucket =
  tokens :: rat
  maxTokens :: rat
  refillRate :: rat
  lastRefill :: int

record ipRateLimiter =
  buckets :: "(string, tokenBucket) gomap"
  rate :: rat

definition seconds :: "int \<Rightarrow> rat" where
  "seconds d = of_int d / 1000000000"

definition newTokenBucket :: "rat \<Rightarrow> int \<Rightarrow> tokenBucket" where
  "newTokenBucket r now = \<lparr>tokens = r, maxTokens = r, refillRate = r, lastRefill = now\<rparr>"

definition bucket_Allow :: "int \<Rightarrow> tokenBucket \<Rightarrow> bool \<times> tokenBucket" where
  "bucket_Allow now tb =
     (let elapsed = seconds (now - lastRefill tb);
          t = tokens tb + elapsed * refillRate tb;
          t = (if t > maxTokens tb then maxTokens tb else t);
          tb = tb\<lparr>tokens := t, lastRefill := now\<rparr> in
      if t \<ge> 1 then (True, tb\<lparr>tokens := t - 1\<rparr>) else (False, tb))"

definition newIPRateLimiter :: "rat \<Rightarrow> ipRateLimiter" where
  "newIPRateLimiter r = \<lparr>buckets = [], rate = r\<rparr>"

definition getBucket :: "string \<Rightarrow> int \<Rightarrow> ipRateLimiter \<Rightarrow> tokenBucket \<times> ipRateLimiter" where
  "getBucket ip now rl =
     (case mget (buckets rl) ip of
        Some b \<Rightarrow> (b, rl)
      | None \<Rightarrow> (let b = newTokenBucket (rate rl) now in (b, rl\<lparr>buckets := mput ip b (buckets rl)\<rparr>)))"

definition rl_Allow :: "string \<Rightarrow> int \<Rightarrow> ipRateLimiter \<Rightarrow> bool \<times> ipRateLimiter" where
  "rl_Allow ip now rl =
     (case getBucket ip now rl of
        (b, rl) \<Rightarrow> (case bucket_Allow now b of (ok, b) \<Rightarrow> (ok, rl\<lparr>buckets := mput ip b (buckets rl)\<rparr>)))"

text \<open>One round of \<^verbatim>\<open>cleanupLoop\<close>.\<close>

definition cleanup :: "int \<Rightarrow> ipRateLimiter \<Rightarrow> ipRateLimiter" where
  "cleanup now rl = rl\<lparr>buckets := filter (\<lambda>(ip, b). \<not> now - lastRefill b > 60 * 1000000000) (buckets rl)\<rparr>"

text \<open>\<open>parse\<close> is \<^verbatim>\<open>strconv.ParseFloat\<close>; 0 disables the limiter.\<close>

definition getRateLimitFromEnv :: "(string \<Rightarrow> rat option) \<Rightarrow> string \<Rightarrow> rat" where
  "getRateLimitFromEnv parse val =
     (if val = [] then 0
      else case parse val of None \<Rightarrow> 0 | Some r \<Rightarrow> (if r \<le> 0 then 0 else r))"

definition extractIP :: "bool \<Rightarrow> string \<Rightarrow> string \<Rightarrow> string" where
  "extractIP trustProxy realIP remoteAddr =
     (if trustProxy \<and> realIP \<noteq> [] then realIP
      else case SplitHostPort remoteAddr of Some ip \<Rightarrow> ip | None \<Rightarrow> remoteAddr)"

subsection \<open>Effective tokens\<close>

text \<open>The tokens an address could use at a time; an address without a bucket has a full one.\<close>

definition avail :: "ipRateLimiter \<Rightarrow> int \<Rightarrow> string \<Rightarrow> rat" where
  "avail rl now ip =
     (case mget (buckets rl) ip of
        None \<Rightarrow> rate rl
      | Some b \<Rightarrow> min (rate rl) (tokens b + seconds (now - lastRefill b) * rate rl))"

definition rl_ok :: "int \<Rightarrow> ipRateLimiter \<Rightarrow> bool" where
  "rl_ok now rl \<longleftrightarrow> 0 < rate rl \<and> wf_map (buckets rl) \<and>
     (\<forall>ip b. mget (buckets rl) ip = Some b \<longrightarrow> maxTokens b = rate rl \<and> refillRate b = rate rl \<and> 0 \<le> tokens b \<and> lastRefill b \<le> now)"

lemma seconds_add: "seconds (a + b) = seconds a + seconds b"
  by (simp add: seconds_def add_divide_distrib)

lemma seconds_nonneg: "0 \<le> d \<Longrightarrow> 0 \<le> seconds d"
  by (simp add: seconds_def)

lemma rl_ok_later: "rl_ok now rl \<Longrightarrow> now \<le> now' \<Longrightarrow> rl_ok now' rl"
  unfolding rl_ok_def by (meson order_trans)

lemma avail_nonneg: "rl_ok now rl \<Longrightarrow> 0 \<le> avail rl now ip"
  by (auto simp: avail_def rl_ok_def seconds_nonneg split: option.split)

lemma avail_later:
  assumes "rl_ok now rl" and "now \<le> now'"
  shows "avail rl now' ip = min (rate rl) (avail rl now ip + seconds (now' - now) * rate rl)"
proof (cases "mget (buckets rl) ip")
  case None
  then show ?thesis using assms by (simp add: avail_def rl_ok_def seconds_nonneg)
next
  case (Some b)
  have s: "seconds (now' - lastRefill b) = seconds (now - lastRefill b) + seconds (now' - now)"
    using seconds_add [of "now - lastRefill b" "now' - now"] by simp
  have p: "0 \<le> seconds (now' - now) * rate rl" using assms by (simp add: rl_ok_def seconds_nonneg)
  show ?thesis using p unfolding avail_def Some by (simp add: s distrib_right min_def)
qed

lemma mget_filter_bucket: "wf_map m \<Longrightarrow> mget (filter (\<lambda>(k, v). P v) m) k = (case mget m k of Some v \<Rightarrow> if P v then Some v else None | None \<Rightarrow> None)"
proof (induction m)
  case (Cons x m)
  obtain a v where x: "x = (a, v)" by (rule prod.exhaust)
  have "a \<notin> fst ` set m" using Cons.prems x by simp
  then have "mget m a = None" by (simp add: mget_def map_of_eq_None_iff)
  with Cons x show ?case by (auto simp: mget_def split: option.splits)
qed (simp add: mget_def)

text \<open>A bucket that is dropped is full by then, so dropping it changes nothing.\<close>

lemma cleanup_avail:
  assumes "rl_ok now rl"
  shows "avail (cleanup now rl) now ip = avail rl now ip" and "rl_ok now (cleanup now rl)" and "rate (cleanup now rl) = rate rl"
proof -
  have wf: "wf_map (buckets rl)" using assms by (simp add: rl_ok_def)
  have g: "mget (buckets (cleanup now rl)) k = (case mget (buckets rl) k of
      Some v \<Rightarrow> if \<not> now - lastRefill v > 60 * 1000000000 then Some v else None | None \<Rightarrow> None)" for k
    using mget_filter_bucket [OF wf, of "\<lambda>b. \<not> now - lastRefill b > 60 * 1000000000" k] by (simp add: cleanup_def)
  show r: "rate (cleanup now rl) = rate rl" by (simp add: cleanup_def)
  have full: "rate rl \<le> tokens b + seconds (now - lastRefill b) * rate rl"
    if "mget (buckets rl) ip = Some b" "now - lastRefill b > 60 * 1000000000" for b
  proof -
    have "1 \<le> seconds (now - lastRefill b)" using that(2) by (simp add: seconds_def)
    then have "1 * rate rl \<le> seconds (now - lastRefill b) * rate rl" using assms by (intro mult_right_mono) (simp_all add: rl_ok_def)
    moreover have "0 \<le> tokens b" using that(1) assms by (auto simp: rl_ok_def)
    ultimately show ?thesis by simp
  qed
  then show "avail (cleanup now rl) now ip = avail rl now ip"
    unfolding avail_def g r by (cases "mget (buckets rl) ip") (auto simp: min_absorb1)
  have "wf_map (buckets (cleanup now rl))" using wf by (simp add: cleanup_def distinct_map_filter)
  then show "rl_ok now (cleanup now rl)" using assms unfolding rl_ok_def g r by (auto split: option.splits if_splits)
qed

text \<open>A request is allowed exactly when a whole token is available, and takes it.\<close>

lemma rl_Allow_avail:
  assumes "rl_ok now rl" and "rl_Allow ip now rl = (ok, rl')"
  shows "ok \<longleftrightarrow> 1 \<le> avail rl now ip" and "avail rl' now ip' = avail rl now ip' - (if ok \<and> ip' = ip then 1 else 0)"
    and "rl_ok now rl'" and "rate rl' = rate rl"
proof -
  obtain b rl1 where g: "getBucket ip now rl = (b, rl1)" by (rule prod.exhaust)
  have rp: "0 < rate rl" using assms(1) by (simp add: rl_ok_def)
  have b: "maxTokens b = rate rl" "refillRate b = rate rl" "0 \<le> tokens b" "lastRefill b \<le> now"
      "avail rl now ip = min (rate rl) (tokens b + seconds (now - lastRefill b) * rate rl)"
      "rate rl1 = rate rl" "\<And>k. k \<noteq> ip \<Longrightarrow> mget (buckets rl1) k = mget (buckets rl) k" "wf_map (buckets rl1)"
    using g assms(1) by (auto simp: getBucket_def newTokenBucket_def avail_def rl_ok_def seconds_def Let_def split: option.splits)
  let ?t = "avail rl now ip"
  let ?nb = "b\<lparr>tokens := (if 1 \<le> ?t then ?t - 1 else ?t), lastRefill := now\<rparr>"
  have "(if tokens b + seconds (now - lastRefill b) * refillRate b > maxTokens b then maxTokens b
      else tokens b + seconds (now - lastRefill b) * refillRate b) = ?t" using b by (simp add: min_def)
  then have a: "bucket_Allow now b = (1 \<le> ?t, ?nb)" by (simp add: bucket_Allow_def Let_def)
  have r: "ok = (1 \<le> ?t)" "rl' = rl1\<lparr>buckets := mput ip ?nb (buckets rl1)\<rparr>"
    using assms(2) a by (auto simp: rl_Allow_def g)
  show "ok \<longleftrightarrow> 1 \<le> avail rl now ip" by (rule r(1))
  show rr: "rate rl' = rate rl" by (simp add: r(2) b(6))
  have gl: "mget (buckets rl') k = (if k = ip then Some ?nb else mget (buckets rl) k)" for k using b(7) by (simp add: r(2))
  have le: "?t \<le> rate rl" by (simp add: b(5))
  show "avail rl' now ip' = avail rl now ip' - (if ok \<and> ip' = ip then 1 else 0)"
  proof (cases "ip' = ip")
    case True
    then show ?thesis using le r(1) unfolding avail_def [of rl' now ip'] gl rr by (auto simp: seconds_def)
  next
    case False
    then show ?thesis unfolding avail_def gl rr by simp
  qed
  have "0 \<le> ?t" using assms(1) by (rule avail_nonneg)
  then show "rl_ok now rl'" using assms(1) b(1,2,8) unfolding rl_ok_def gl rr by (auto simp: r(2))
qed

subsection \<open>Runs\<close>

datatype rl_event = Request string int | Cleanup int

fun event_time :: "rl_event \<Rightarrow> int" where
  "event_time (Request ip t) = t"
| "event_time (Cleanup t) = t"

text \<open>The answers to the requests, in order, with their addresses.\<close>

fun rl_run :: "rl_event list \<Rightarrow> ipRateLimiter \<Rightarrow> (string \<times> bool) list" where
  "rl_run [] rl = []"
| "rl_run (Request ip t # es) rl = (case rl_Allow ip t rl of (ok, rl) \<Rightarrow> (ip, ok) # rl_run es rl)"
| "rl_run (Cleanup t # es) rl = rl_run es (cleanup t rl)"

fun is_request :: "rl_event \<Rightarrow> bool" where
  "is_request (Request ip t) = True"
| "is_request (Cleanup t) = False"

fun times_from :: "int \<Rightarrow> rl_event list \<Rightarrow> bool" where
  "times_from t [] \<longleftrightarrow> True"
| "times_from t (e # es) \<longleftrightarrow> t \<le> event_time e \<and> times_from (event_time e) es"

fun last_time :: "int \<Rightarrow> rl_event list \<Rightarrow> int" where
  "last_time t [] = t"
| "last_time t (e # es) = last_time (event_time e) es"

definition allowed :: "string \<Rightarrow> (string \<times> bool) list \<Rightarrow> nat" where
  "allowed ip rs = length (filter (\<lambda>r. r = (ip, True)) rs)"

lemma allowed_bound:
  "rl_ok t rl \<Longrightarrow> times_from t es \<Longrightarrow>
     of_nat (allowed ip (rl_run es rl)) \<le> avail rl t ip + seconds (last_time t es - t) * rate rl"
proof (induction es arbitrary: t rl)
  case Nil
  then show ?case using avail_nonneg [of t rl ip] by (simp add: allowed_def seconds_def)
next
  case (Cons e es)
  let ?t = "event_time e"
  have tt: "t \<le> ?t" "times_from ?t es" using Cons.prems(2) by simp_all
  have ok: "rl_ok ?t rl" using Cons.prems(1) tt(1) by (rule rl_ok_later)
  have sp: "seconds (last_time ?t es - t) = seconds (?t - t) + seconds (last_time ?t es - ?t)"
    using seconds_add [of "?t - t" "last_time ?t es - ?t"] by simp
  have av: "avail rl ?t ip \<le> avail rl t ip + seconds (?t - t) * rate rl"
    using avail_later [OF Cons.prems(1) tt(1)] by simp
  show ?case
  proof (cases e)
    case (Cleanup t')
    then have "of_nat (allowed ip (rl_run es (cleanup ?t rl))) \<le> avail rl ?t ip + seconds (last_time ?t es - ?t) * rate rl"
      using Cons.IH [OF cleanup_avail(2) [OF ok] tt(2)] cleanup_avail(1,3) [OF ok] by simp
    with av sp Cleanup show ?thesis by (simp add: distrib_right)
  next
    case (Request ip' t')
    obtain a rl' where r: "rl_Allow ip' ?t rl = (a, rl')" by (rule prod.exhaust)
    note ra = rl_Allow_avail [OF ok r]
    have "of_nat (allowed ip (rl_run es rl')) \<le> avail rl' ?t ip + seconds (last_time ?t es - ?t) * rate rl"
      using Cons.IH [OF ra(3) tt(2)] ra(4) by simp
    moreover have "allowed ip (rl_run (e # es) rl) = (if a \<and> ip = ip' then 1 else 0) + allowed ip (rl_run es rl')"
      using r Request by (auto simp: allowed_def)
    ultimately show ?thesis using ra(2) [of ip] av sp by (auto simp: distrib_right)
  qed
qed

lemma cleanup_same:
  "rl_ok t rl \<Longrightarrow> rl_ok t rl' \<Longrightarrow> rate rl' = rate rl \<Longrightarrow> (\<And>ip. avail rl' t ip = avail rl t ip) \<Longrightarrow> times_from t es \<Longrightarrow>
     rl_run es rl = rl_run (filter is_request es) rl'"
proof (induction es arbitrary: t rl rl')
  case (Cons e es)
  let ?t = "event_time e"
  have tt: "t \<le> ?t" "times_from ?t es" using Cons.prems(5) by simp_all
  have ok: "rl_ok ?t rl" "rl_ok ?t rl'" using Cons.prems(1,2) tt(1) rl_ok_later by blast+
  have av: "avail rl' ?t ip = avail rl ?t ip" for ip
    using avail_later [OF Cons.prems(1) tt(1)] avail_later [OF Cons.prems(2) tt(1)] Cons.prems(3,4) by simp
  show ?case
  proof (cases e)
    case (Cleanup t')
    then show ?thesis
      using Cons.IH [OF cleanup_avail(2) [OF ok(1)] ok(2) _ _ tt(2)] cleanup_avail(1,3) [OF ok(1)] av Cons.prems(3) by simp
  next
    case (Request ip t')
    obtain a s where r: "rl_Allow ip ?t rl = (a, s)" by (rule prod.exhaust)
    obtain a' s' where r': "rl_Allow ip ?t rl' = (a', s')" by (rule prod.exhaust)
    note x = rl_Allow_avail [OF ok(1) r] and y = rl_Allow_avail [OF ok(2) r']
    have "a' = a" using x(1) y(1) av by simp
    moreover have "rl_run es s = rl_run (filter is_request es) s'"
      by (rule Cons.IH [OF x(3) y(3) _ _ tt(2)]) (use x(2,4) y(2,4) av Cons.prems(3) \<open>a' = a\<close> in simp_all)
    ultimately show ?thesis using r r' Request by simp
  qed
qed simp

lemma new_limiter_ok: "0 < r \<Longrightarrow> rl_ok t (newIPRateLimiter r)"
  by (simp add: rl_ok_def newIPRateLimiter_def mget_def)

text \<open>
  C23: The limiter bounds every address. Whatever the requests of all addresses and the rounds of
  the clean-up, at times that do not decrease, the requests of one address that are allowed are at
  most the rate plus the rate times the seconds that passed.
\<close>

theorem rate_limit_bounds_requests:
  assumes "0 < r" and "times_from t es"
  shows "of_nat (allowed ip (rl_run es (newIPRateLimiter r))) \<le> r + seconds (last_time t es - t) * r"
  using allowed_bound [OF new_limiter_ok [OF assms(1)] assms(2), of ip] by (simp add: avail_def newIPRateLimiter_def mget_def)

theorem rate_limit_bounds_requests_witness:
  "of_nat (allowed ''a'' (rl_run [Request ''a'' 0, Request ''a'' 1, Cleanup 2, Request ''a'' 3] (newIPRateLimiter 2))) \<le> 2 + seconds (3 - 0) * 2"
  using rate_limit_bounds_requests [of 2 0 "[Request ''a'' 0, Request ''a'' 1, Cleanup 2, Request ''a'' 3]" "''a''"] by simp

text \<open>
  Forgetting idle addresses is invisible. The answers of the limiter are those it would give
  if the clean-up loop never ran.
\<close>

theorem cleanup_is_invisible:
  assumes "0 < r" and "times_from t es"
  shows "rl_run es (newIPRateLimiter r) = rl_run (filter is_request es) (newIPRateLimiter r)"
  using new_limiter_ok [OF assms(1), of t] assms(2) by (intro cleanup_same) simp_all

theorem cleanup_is_invisible_witness:
  "rl_run [Request ''a'' 0, Cleanup 90000000000, Request ''a'' 90000000000] (newIPRateLimiter 1)
     = rl_run [Request ''a'' 0, Request ''a'' 90000000000] (newIPRateLimiter 1)"
  using cleanup_is_invisible [of 1 0 "[Request ''a'' 0, Cleanup 90000000000, Request ''a'' 90000000000]"] by simp

text \<open>A rate below one request a second, which the configuration accepts, allows nothing.\<close>

lemma fractional_rate_blocks_all:
  "rl_ok now rl \<Longrightarrow> rate rl < 1 \<Longrightarrow> \<not> fst (rl_Allow ip now rl)"
  using rl_Allow_avail(1) [of now rl ip "fst (rl_Allow ip now rl)" "snd (rl_Allow ip now rl)"]
  by (auto simp: avail_def split: option.splits)

end
