(* ===== verification/Json.thy ===== *)
theory Json
  imports Bytes Helper
begin

text \<open>
  What the program uses of Go's \<^verbatim>\<open>unicode/utf8\<close> and \<^verbatim>\<open>encoding/json\<close>. A string is a list of bytes; the
  encoder and the decoder replace every byte that is not part of valid UTF-8. Documents are
  trees of type \<open>json\<close>; numbers keep their literal.
\<close>

subsection \<open>UTF-8\<close>

definition ord :: "char \<Rightarrow> nat" where
  "ord c = of_char c"

definition cont :: "char \<Rightarrow> bool" where
  "cont c \<longleftrightarrow> 0x80 \<le> ord c \<and> ord c \<le> 0xBF"

text \<open>The number of bytes of the first rune; 0 when it is not valid.\<close>

fun runeLen :: "string \<Rightarrow> nat" where
  "runeLen [] = 0"
| "runeLen (a # s) =
     (if ord a < 0x80 then 1
      else case s of
        [] \<Rightarrow> 0
      | b # s \<Rightarrow>
         (if 0xC2 \<le> ord a \<and> ord a \<le> 0xDF \<and> cont b then 2
          else case s of
            [] \<Rightarrow> 0
          | c # s \<Rightarrow>
             (if 0xE0 \<le> ord a \<and> ord a \<le> 0xEF \<and> cont b \<and> cont c
                 \<and> (ord a = 0xE0 \<longrightarrow> 0xA0 \<le> ord b) \<and> (ord a = 0xED \<longrightarrow> ord b \<le> 0x9F) then 3
              else case s of
                [] \<Rightarrow> 0
              | d # _ \<Rightarrow>
                 (if 0xF0 \<le> ord a \<and> ord a \<le> 0xF4 \<and> cont b \<and> cont c \<and> cont d
                     \<and> (ord a = 0xF0 \<longrightarrow> 0x90 \<le> ord b) \<and> (ord a = 0xF4 \<longrightarrow> ord b \<le> 0x8F) then 4
                  else 0))))"

text \<open>\<^verbatim>\<open>utf8.AppendRune\<close>\<close>

definition encodeRune :: "nat \<Rightarrow> string" where
  "encodeRune r =
     (if r < 0x80 then [char_of r]
      else if r < 0x800 then [char_of (0xC0 + r div 64), char_of (0x80 + r mod 64)]
      else if 0x110000 \<le> r \<or> (0xD800 \<le> r \<and> r \<le> 0xDFFF) then [CHR 0xEF, CHR 0xBF, CHR 0xBD]
      else if r < 0x10000 then [char_of (0xE0 + r div 4096), char_of (0x80 + r div 64 mod 64), char_of (0x80 + r mod 64)]
      else [char_of (0xF0 + r div 262144), char_of (0x80 + r div 4096 mod 64), char_of (0x80 + r div 64 mod 64), char_of (0x80 + r mod 64)])"

abbreviation replacement :: string where
  "replacement \<equiv> [CHR 0xEF, CHR 0xBF, CHR 0xBD]"

text \<open>Every byte that does not start a rune becomes the replacement character.\<close>

function coerce :: "string \<Rightarrow> string" where
  "coerce s =
     (if s = [] then []
      else if runeLen s = 0 then replacement @ coerce (tl s)
      else take (runeLen s) s @ coerce (drop (runeLen s) s))"
  by pat_completeness auto

termination
  by (relation "measure length") (auto simp: diff_less)

declare coerce.simps [simp del]

function Valid :: "string \<Rightarrow> bool" where
  "Valid s = (if s = [] then True else if runeLen s = 0 then False else Valid (drop (runeLen s) s))"
  by pat_completeness auto

termination
  by (relation "measure length") (auto simp: diff_less)

declare Valid.simps [simp del]

lemma coerce_Nil [simp]: "coerce [] = []"
  by (simp add: coerce.simps)

lemma Valid_Nil [simp]: "Valid []"
  by (simp add: Valid.simps)

lemma runeLen_bound: "runeLen s \<le> length s"
  by (cases s rule: runeLen.cases) (auto split: list.splits)

lemma runeLen_ascii: "runeLen s = 1 \<Longrightarrow> ord (hd s) < 0x80"
  by (cases s rule: runeLen.cases) (auto split: list.splits if_splits)

lemma runeLen_append: "runeLen s \<noteq> 0 \<Longrightarrow> runeLen (s @ t) = runeLen s"
  by (cases s rule: runeLen.cases) (auto split: list.splits if_splits)

lemma runeLen_take: "runeLen s \<noteq> 0 \<Longrightarrow> runeLen (take (runeLen s) s) = runeLen s"
  by (cases s rule: runeLen.cases) (auto split: list.splits if_splits simp: numeral_eq_Suc)

lemma coerce_valid: "Valid s \<Longrightarrow> coerce s = s"
proof (induction s rule: coerce.induct)
  case (1 s)
  from "1.prems" have "s = [] \<or> runeLen s \<noteq> 0 \<and> Valid (drop (runeLen s) s)"
    by (subst (asm) Valid.simps) (simp split: if_splits)
  with "1.IH"(2) show ?case by (subst coerce.simps) auto
qed

lemma Valid_ascii: "(\<And>c. c \<in> set s \<Longrightarrow> ord c < 0x80) \<Longrightarrow> Valid s"
proof (induction s)
  case (Cons a s)
  then show ?case by (subst Valid.simps) simp
qed simp

lemma coerce_rune: "runeLen s \<noteq> 0 \<Longrightarrow> runeLen s = length s \<Longrightarrow> coerce (s @ t) = s @ coerce t"
  using runeLen_append [of s t] by (subst coerce.simps) auto

lemma Valid_coerce: "Valid (coerce s)"
proof (induction s rule: coerce.induct)
  case (1 s)
  have app: "Valid (r @ t)" if "runeLen r = length r" "r \<noteq> []" "Valid t" for r t
    using that runeLen_append [of r t] by (subst Valid.simps) simp
  consider "s = []" | "s \<noteq> []" "runeLen s = 0" | "s \<noteq> []" "runeLen s \<noteq> 0" by blast
  then show ?case
  proof cases
    case 2
    have "runeLen replacement = length replacement" by code_simp
    with app [of replacement] 1(1) 2 show ?thesis by (subst coerce.simps) simp
  next
    case 3
    have "runeLen (take (runeLen s) s) = length (take (runeLen s) s)" "take (runeLen s) s \<noteq> []"
      using 3 runeLen_take [of s] runeLen_bound [of s] by simp_all
    with app 1(2) 3 show ?thesis by (subst coerce.simps) simp
  qed simp
qed

subsection \<open>Strings\<close>

abbreviation quote_char :: char where "quote_char \<equiv> CHR 0x22"

abbreviation backslash :: char where "backslash \<equiv> CHR 0x5C"

text \<open>How the encoder writes an ASCII byte; the angle brackets and the ampersand are escaped too.\<close>

definition escape :: "char \<Rightarrow> string" where
  "escape c =
     (if c = quote_char \<or> c = backslash then [backslash, c]
      else if c = CHR 0x08 then [backslash, CHR ''b'']
      else if c = CHR 0x0C then [backslash, CHR ''f'']
      else if c = CHR 0x0A then [backslash, CHR ''n'']
      else if c = CHR 0x0D then [backslash, CHR ''r'']
      else if c = CHR 0x09 then [backslash, CHR ''t'']
      else if ord c < 0x20 \<or> c = CHR ''<'' \<or> c = CHR ''>'' \<or> c = CHR ''&''
      then [backslash, CHR ''u'', CHR ''0'', CHR ''0'', hex_digit (ord c div 16), hex_digit (ord c mod 16)]
      else [c])"

abbreviation line_sep :: string where "line_sep \<equiv> [CHR 0xE2, CHR 0x80, CHR 0xA8]"

abbreviation para_sep :: string where "para_sep \<equiv> [CHR 0xE2, CHR 0x80, CHR 0xA9]"

function quote_body :: "string \<Rightarrow> string" where
  "quote_body s =
     (if s = [] then []
      else if runeLen s = 0 then backslash # ''ufffd'' @ quote_body (tl s)
      else if runeLen s = 1 then escape (hd s) @ quote_body (tl s)
      else if take 3 s = line_sep then backslash # ''u2028'' @ quote_body (drop (runeLen s) s)
      else if take 3 s = para_sep then backslash # ''u2029'' @ quote_body (drop (runeLen s) s)
      else take (runeLen s) s @ quote_body (drop (runeLen s) s))"
  by pat_completeness auto

termination
  by (relation "measure length") (auto simp: diff_less)

declare quote_body.simps [simp del]

definition quote :: "string \<Rightarrow> string" where
  "quote s = quote_char # quote_body s @ [quote_char]"

definition hexval :: "char \<Rightarrow> nat option" where
  "hexval c =
     (let n = ord c in
      if 48 \<le> n \<and> n \<le> 57 then Some (n - 48) else if 97 \<le> n \<and> n \<le> 102 then Some (n - 87)
      else if 65 \<le> n \<and> n \<le> 70 then Some (n - 55) else None)"

fun getu4 :: "string \<Rightarrow> (nat \<times> string) option" where
  "getu4 (a # b # c # d # r) =
     (case (hexval a, hexval b, hexval c, hexval d) of
        (Some a, Some b, Some c, Some d) \<Rightarrow> Some (((a * 16 + b) * 16 + c) * 16 + d, r)
      | _ \<Rightarrow> None)"
| "getu4 _ = None"

text \<open>\<^verbatim>\<open>utf16.DecodeRune\<close> of an escape and, after a surrogate, of the escape that follows it.\<close>

definition unescape_u :: "nat \<Rightarrow> string \<Rightarrow> string \<times> string" where
  "unescape_u rr r =
     (if 0xD800 \<le> rr \<and> rr \<le> 0xDFFF
      then (if take 2 r = [backslash, CHR ''u'']
            then (case getu4 (drop 2 r) of
                    Some (rr1, r') \<Rightarrow>
                      (if rr \<le> 0xDBFF \<and> 0xDC00 \<le> rr1 \<and> rr1 \<le> 0xDFFF
                       then (encodeRune ((rr - 0xD800) * 1024 + (rr1 - 0xDC00) + 0x10000), r')
                       else (replacement, r))
                  | None \<Rightarrow> (replacement, r))
            else (replacement, r))
      else (encodeRune rr, r))"

definition simple_escape :: "char \<Rightarrow> char option" where
  "simple_escape e =
     (if e = quote_char \<or> e = backslash \<or> e = CHR ''/'' then Some e
      else if e = CHR ''b'' then Some (CHR 0x08) else if e = CHR ''f'' then Some (CHR 0x0C)
      else if e = CHR ''n'' then Some (CHR 0x0A) else if e = CHR ''r'' then Some (CHR 0x0D)
      else if e = CHR ''t'' then Some (CHR 0x09) else None)"

text \<open>The text of one element of a string literal, and what follows it.\<close>

fun scan_char :: "string \<Rightarrow> (string \<times> string) option" where
  "scan_char [] = None"
| "scan_char (c # r) =
     (if c = backslash
      then (case r of
              [] \<Rightarrow> None
            | e # r \<Rightarrow>
               (if e = CHR ''u'' then map_option (\<lambda>(rr, r). unescape_u rr r) (getu4 r)
                else map_option (\<lambda>x. ([x], r)) (simple_escape e)))
      else if ord c < 0x20 then None
      else if runeLen (c # r) = 0 then Some (replacement, r)
      else Some (take (runeLen (c # r)) (c # r), drop (runeLen (c # r)) (c # r)))"

lemma getu4_length: "getu4 s = Some (x, r) \<Longrightarrow> length r < length s"
  by (cases s rule: getu4.cases) (auto split: option.splits)

lemma unescape_u_length: "unescape_u rr r = (x, r') \<Longrightarrow> length r' \<le> length r"
  using getu4_length [of "drop 2 r"] by (auto simp: unescape_u_def split: if_splits option.splits)

lemma scan_char_length: "scan_char s = Some (x, r) \<Longrightarrow> length r < length s"
proof (cases s)
  case (Cons c t)
  assume a: "scan_char s = Some (x, r)"
  have "runeLen (c # t) \<noteq> 0 \<Longrightarrow> length (drop (runeLen (c # t)) (c # t)) < length s"
    using Cons by simp
  then show ?thesis using a Cons
    by (auto split: if_splits list.splits dest!: getu4_length unescape_u_length simp del: runeLen.simps)
qed simp

text \<open>A string literal after its opening quote.\<close>

function scan_string :: "string \<Rightarrow> (string \<times> string) option" where
  "scan_string s =
     (if s = [] then None
      else if hd s = quote_char then Some ([], tl s)
      else (case scan_char s of
              None \<Rightarrow> None
            | Some (x, r) \<Rightarrow> map_option (\<lambda>(y, r). (x @ y, r)) (scan_string r)))"
  by pat_completeness auto

termination
  by (relation "measure length") (auto dest: scan_char_length)

declare scan_string.simps [simp del]

lemma ord_char_of [simp]: "n < 256 \<Longrightarrow> ord (char_of n) = n"
  by (simp add: ord_def)

lemma char_of_ord [simp]: "char_of (ord c) = c"
  by (simp add: ord_def)

lemma hexval_digit [simp]: "n < 16 \<Longrightarrow> hexval (hex_digit n) = Some n"
proof -
  assume "n < 16"
  then have "n \<in> set [0..<16]" by simp
  moreover have "list_all (\<lambda>n. hexval (hex_digit n) = Some n) [0..<16]" by code_simp
  ultimately show ?thesis unfolding list_all_iff by blast
qed

lemma scan_escape:
  assumes "ord c < 0x80"
  shows "escape c \<noteq> []" "hd (escape c) \<noteq> quote_char" "scan_char (escape c @ t) = Some ([c], t)"
proof -
  show "escape c \<noteq> []" "hd (escape c) \<noteq> quote_char" by (auto simp: escape_def)
  have u: "getu4 (CHR ''0'' # CHR ''0'' # hex_digit (ord c div 16) # hex_digit (ord c mod 16) # t) = Some (ord c, t)"
  proof -
    have "hexval (hex_digit (ord c div 16)) = Some (ord c div 16)" "hexval (hex_digit (ord c mod 16)) = Some (ord c mod 16)"
      using assms by (auto intro!: hexval_digit)
    moreover have "hexval CHR ''0'' = Some 0" by code_simp
    ultimately show ?thesis by simp
  qed
  have "encodeRune (ord c) = [c]" using assms by (simp add: encodeRune_def)
  with u have "scan_char ([backslash, CHR ''u'', CHR ''0'', CHR ''0'', hex_digit (ord c div 16), hex_digit (ord c mod 16)] @ t) = Some ([c], t)"
    using assms by (simp add: unescape_u_def del: getu4.simps)
  with assms show "scan_char (escape c @ t) = Some ([c], t)"
    by (auto simp: escape_def simple_escape_def simp del: getu4.simps)
qed

lemma scan_rune:
  assumes "runeLen s \<noteq> 0" and "runeLen s \<noteq> 1"
  shows "take (runeLen s) s \<noteq> []" "hd (take (runeLen s) s) \<noteq> quote_char"
    "scan_char (take (runeLen s) s @ t) = Some (take (runeLen s) s, t)"
proof -
  obtain c r where s: "s = c # r" using assms(1) by (cases s) auto
  have c: "0x80 \<le> ord c" using assms(2) s by (cases "ord c < 0x80") auto
  then have ne: "c \<noteq> quote_char" "c \<noteq> backslash" "\<not> ord c < 0x20" by (auto simp: ord_def)
  let ?x = "take (runeLen s) s"
  have x: "runeLen ?x = runeLen s" using assms(1) by (rule runeLen_take)
  have l: "length ?x = runeLen s" using runeLen_bound [of s] by simp
  obtain r' where hx: "?x = c # r'" using assms(1) s by (cases "runeLen s") auto
  have rl: "runeLen (?x @ t) = runeLen s" using runeLen_append [of ?x t] x assms(1) by simp
  have "scan_char (?x @ t) = Some (take (runeLen (?x @ t)) (?x @ t), drop (runeLen (?x @ t)) (?x @ t))"
    using ne rl assms(1) unfolding hx by (simp del: runeLen.simps)
  then show "scan_char (?x @ t) = Some (?x, t)" using rl l by simp
  show "?x \<noteq> []" "hd ?x \<noteq> quote_char" using hx ne by simp_all
qed

lemma scan_string_step:
  assumes "x \<noteq> []" "hd x \<noteq> quote_char" "scan_char (x @ t) = Some (y, t)"
  shows "scan_string (x @ t) = map_option (\<lambda>(z, r). (y @ z, r)) (scan_string t)"
  using assms by (subst scan_string.simps) simp

lemma known_hexvals:
  "hexval CHR ''f'' = Some 15" "hexval CHR ''d'' = Some 13" "hexval CHR ''0'' = Some 0" "hexval CHR ''2'' = Some 2"
  "hexval CHR ''8'' = Some 8" "hexval CHR ''9'' = Some 9"
  by code_simp+

lemma known_runes: "encodeRune 65533 = replacement" "encodeRune 8232 = line_sep" "encodeRune 8233 = para_sep"
  by (simp_all add: encodeRune_def char_of_eq_iff)

text \<open>Reading what was written gives the string back, with its invalid bytes replaced.\<close>

lemma scan_quote_body: "scan_string (quote_body s @ quote_char # r) = Some (coerce s, r)"
proof (induction s rule: quote_body.induct)
  case (1 s)
  let ?q = "quote_char # r" and ?n = "runeLen s"
  consider "s = []" | "s \<noteq> []" "?n = 0" | "s \<noteq> []" "?n = 1"
    | "s \<noteq> []" "?n \<noteq> 0" "?n \<noteq> 1" "take 3 s = line_sep" | "s \<noteq> []" "?n \<noteq> 0" "?n \<noteq> 1" "take 3 s \<noteq> line_sep" "take 3 s = para_sep"
    | "s \<noteq> []" "?n \<noteq> 0" "?n \<noteq> 1" "take 3 s \<noteq> line_sep" "take 3 s \<noteq> para_sep" by blast
  then show ?case
  proof cases
    case 1
    then show ?thesis by (simp add: quote_body.simps scan_string.simps)
  next
    case 2
    have "scan_char ((backslash # ''ufffd'') @ t) = Some (replacement, t)" for t
      by (simp add: known_hexvals known_runes unescape_u_def)
    from scan_string_step [OF _ _ this] have "scan_string ((backslash # ''ufffd'') @ quote_body (tl s) @ ?q) = Some (replacement @ coerce (tl s), r)"
      using "1.IH"(1) 2 by simp
    then show ?thesis using 2 by (subst quote_body.simps, subst coerce.simps) simp
  next
    case 3
    then obtain c t where s: "s = c # t" by (cases s) auto
    have c: "ord c < 0x80" using 3 runeLen_ascii [of s] s by simp
    from scan_string_step [OF scan_escape [OF c]] have "scan_string (escape c @ quote_body t @ ?q) = Some (c # coerce t, r)"
      using "1.IH"(2) 3 s by simp
    then show ?thesis using 3 s by (subst quote_body.simps, subst coerce.simps) simp
  next
    case 4
    then have s: "s = line_sep @ drop 3 s" by (metis append_take_drop_id)
    have n: "?n = 3" by (subst s) (simp add: ord_def cont_def)
    have "scan_char ((backslash # ''u2028'') @ t) = Some (line_sep, t)" for t
      by (simp add: known_hexvals known_runes unescape_u_def)
    from scan_string_step [OF _ _ this] have "scan_string ((backslash # ''u2028'') @ quote_body (drop 3 s) @ ?q) = Some (line_sep @ coerce (drop 3 s), r)"
      using "1.IH"(3) 4 n by simp
    then show ?thesis using 4 n by (subst quote_body.simps, subst coerce.simps) simp
  next
    case 5
    then have s: "s = para_sep @ drop 3 s" by (metis append_take_drop_id)
    have n: "?n = 3" by (subst s) (simp add: ord_def cont_def)
    have "scan_char ((backslash # ''u2029'') @ t) = Some (para_sep, t)" for t
      by (simp add: known_hexvals known_runes unescape_u_def)
    from scan_string_step [OF _ _ this] have "scan_string ((backslash # ''u2029'') @ quote_body (drop 3 s) @ ?q) = Some (para_sep @ coerce (drop 3 s), r)"
      using "1.IH"(4) 5 n by simp
    then show ?thesis using 5 n by (subst quote_body.simps, subst coerce.simps) simp
  next
    case 6
    from scan_string_step [OF scan_rune [OF 6(2,3)]]
    have "scan_string (take ?n s @ quote_body (drop ?n s) @ ?q) = Some (take ?n s @ coerce (drop ?n s), r)"
      using "1.IH"(5) 6 by simp
    then show ?thesis using 6 by (subst quote_body.simps, subst coerce.simps) simp
  qed
qed

end
