(* ===== verification/JsonDoc.thy ===== *)
theory JsonDoc
  imports Json
begin

text \<open>
  JSON documents: the scanner and decoder of \<^verbatim>\<open>encoding/json\<close> as a parser that returns the value
  and what follows it, the encoder \<^verbatim>\<open>json.Marshal\<close>, and the decoding of an object into the fields
  of a struct. The parser runs on fuel; more than twice as much fuel as characters is always enough.
\<close>

subsection \<open>Documents\<close>

datatype json =
    JNull
  | JBool bool
  | JNum string
  | JStr string
  | JArr "json list"
  | JObj "(string \<times> json) list"

definition json_space :: "char \<Rightarrow> bool" where
  "json_space c \<longleftrightarrow> c = CHR '' '' \<or> c = CHR 0x09 \<or> c = CHR 0x0A \<or> c = CHR 0x0D"

definition skip_ws :: "string \<Rightarrow> string" where
  "skip_ws s = dropWhile json_space s"

definition digit :: "char \<Rightarrow> bool" where
  "digit c \<longleftrightarrow> 48 \<le> ord c \<and> ord c \<le> 57"

subsection \<open>Numbers\<close>

text \<open>The digits of the integer part, of the fraction and of the exponent.\<close>

definition scan_int :: "string \<Rightarrow> (string \<times> string) option" where
  "scan_int s =
     (case s of
        [] \<Rightarrow> None
      | c # r \<Rightarrow>
         (if c = CHR ''0'' then Some ([c], r)
          else if digit c then Some (takeWhile digit s, dropWhile digit s) else None))"

definition scan_digits :: "string \<Rightarrow> string \<Rightarrow> (string \<times> string) option" where
  "scan_digits pre s =
     (if takeWhile digit s = [] then None else Some (pre @ takeWhile digit s, dropWhile digit s))"

definition scan_frac :: "string \<Rightarrow> (string \<times> string) option" where
  "scan_frac s = (case s of c # r \<Rightarrow> if c = CHR ''.'' then scan_digits [c] r else Some ([], s) | [] \<Rightarrow> Some ([], []))"

definition scan_exp :: "string \<Rightarrow> (string \<times> string) option" where
  "scan_exp s =
     (case s of
        [] \<Rightarrow> Some ([], [])
      | e # r \<Rightarrow>
         (if e = CHR ''e'' \<or> e = CHR ''E''
          then (case r of
                  [] \<Rightarrow> None
                | sg # r' \<Rightarrow> (if sg = CHR ''+'' \<or> sg = CHR ''-'' then scan_digits [e, sg] r' else scan_digits [e] r))
          else Some ([], s)))"

definition scan_number :: "string \<Rightarrow> (string \<times> string) option" where
  "scan_number s =
     (let neg = (s \<noteq> [] \<and> hd s = CHR ''-''); sg = (if neg then ''-'' else []); s = (if neg then tl s else s) in
      case scan_int s of
        None \<Rightarrow> None
      | Some (i, s) \<Rightarrow>
         (case scan_frac s of
            None \<Rightarrow> None
          | Some (f, s) \<Rightarrow> map_option (\<lambda>(e, s). (sg @ i @ f @ e, s)) (scan_exp s)))"

subsection \<open>Values\<close>

definition scan_literal :: "string \<Rightarrow> (json \<times> string) option" where
  "scan_literal s =
     (if take 4 s = ''true'' then Some (JBool True, drop 4 s)
      else if take 5 s = ''false'' then Some (JBool False, drop 5 s)
      else if take 4 s = ''null'' then Some (JNull, drop 4 s)
      else map_option (\<lambda>(n, s). (JNum n, s)) (scan_number s))"

text \<open>The next character after white space, and what follows it.\<close>

definition next_char :: "string \<Rightarrow> (char \<times> string) option" where
  "next_char s = (case skip_ws s of [] \<Rightarrow> None | c # r \<Rightarrow> Some (c, r))"

text \<open>\<open>d\<close> is how many arrays and objects may still be opened.\<close>

fun pval :: "nat \<Rightarrow> int \<Rightarrow> string \<Rightarrow> (json \<times> string) option"
  and pelems :: "nat \<Rightarrow> int \<Rightarrow> string \<Rightarrow> (json list \<times> string) option"
  and pmembers :: "nat \<Rightarrow> int \<Rightarrow> string \<Rightarrow> ((string \<times> json) list \<times> string) option" where
  "pval 0 d s = None"
| "pval (Suc n) d s =
     (case next_char s of
        None \<Rightarrow> None
      | Some (c, r) \<Rightarrow>
         (if c = CHR ''{'' \<or> c = CHR ''['' then
            (if d \<le> 0 then None
             else if c = CHR ''{'' then
               (case next_char r of
                  None \<Rightarrow> None
                | Some (c', r') \<Rightarrow>
                   (if c' = CHR ''}'' then Some (JObj [], r')
                    else map_option (\<lambda>(kvs, r). (JObj kvs, r)) (pmembers n (d - 1) r)))
             else
               (case next_char r of
                  None \<Rightarrow> None
                | Some (c', r') \<Rightarrow>
                   (if c' = CHR '']'' then Some (JArr [], r')
                    else map_option (\<lambda>(js, r). (JArr js, r)) (pelems n (d - 1) r))))
          else if c = quote_char then map_option (\<lambda>(x, r). (JStr x, r)) (scan_string r)
          else scan_literal (c # r)))"
| "pelems 0 d s = None"
| "pelems (Suc n) d s =
     (case pval n d s of
        None \<Rightarrow> None
      | Some (j, r) \<Rightarrow>
         (case next_char r of
            None \<Rightarrow> None
          | Some (c, r) \<Rightarrow>
             (if c = CHR '']'' then Some ([j], r)
              else if c = CHR '','' then map_option (\<lambda>(js, r). (j # js, r)) (pelems n d r)
              else None)))"
| "pmembers 0 d s = None"
| "pmembers (Suc n) d s =
     (case next_char s of
        None \<Rightarrow> None
      | Some (c, r) \<Rightarrow>
         (if c \<noteq> quote_char then None
          else case scan_string r of
            None \<Rightarrow> None
          | Some (k, r) \<Rightarrow>
             (case next_char r of
                None \<Rightarrow> None
              | Some (c, r) \<Rightarrow>
                 (if c \<noteq> CHR '':'' then None
                  else case pval n d r of
                    None \<Rightarrow> None
                  | Some (v, r) \<Rightarrow>
                     (case next_char r of
                        None \<Rightarrow> None
                      | Some (c, r) \<Rightarrow>
                         (if c = CHR ''}'' then Some ([(k, v)], r)
                          else if c = CHR '','' then map_option (\<lambda>(kvs, r). ((k, v) # kvs, r)) (pmembers n d r)
                          else None))))))"

definition maxNestingDepth :: int where
  "maxNestingDepth = 10000"

text \<open>\<^verbatim>\<open>Decoder.Decode\<close> takes the first value of the input, \<^verbatim>\<open>Unmarshal\<close> wants nothing after it.\<close>

definition Decode :: "string \<Rightarrow> json option" where
  "Decode s = map_option fst (pval (Suc (2 * length s)) maxNestingDepth s)"

definition Unmarshal :: "string \<Rightarrow> json option" where
  "Unmarshal s =
     (case pval (Suc (2 * length s)) maxNestingDepth s of
        Some (j, r) \<Rightarrow> (if skip_ws r = [] then Some j else None)
      | None \<Rightarrow> None)"

subsection \<open>Encoding\<close>

fun Marshal :: "json \<Rightarrow> string" where
  "Marshal JNull = ''null''"
| "Marshal (JBool b) = (if b then ''true'' else ''false'')"
| "Marshal (JNum n) = n"
| "Marshal (JStr s) = quote s"
| "Marshal (JArr js) = ''['' @ Join (map Marshal js) '','' @ '']''"
| "Marshal (JObj kvs) = ''{'' @ Join (map (\<lambda>(k, v). quote k @ '':'' @ Marshal v) kvs) '','' @ ''}''"

text \<open>What comes back: the same document with the invalid bytes of its strings replaced.\<close>

fun coerced :: "json \<Rightarrow> json" where
  "coerced (JStr s) = JStr (coerce s)"
| "coerced (JArr js) = JArr (map coerced js)"
| "coerced (JObj kvs) = JObj (map (\<lambda>(k, v). (coerce k, coerced v)) kvs)"
| "coerced j = j"

fun depth :: "json \<Rightarrow> nat" where
  "depth (JArr js) = Suc (Max (insert 0 (set (map depth js))))"
| "depth (JObj kvs) = Suc (Max (insert 0 (set (map (\<lambda>(k, v). depth v) kvs))))"
| "depth j = 0"

text \<open>Numbers whose literal is one JSON number.\<close>

fun numbers_ok :: "json \<Rightarrow> bool" where
  "numbers_ok (JNum n) \<longleftrightarrow> scan_number n = Some (n, [])"
| "numbers_ok (JArr js) \<longleftrightarrow> list_all numbers_ok js"
| "numbers_ok (JObj kvs) \<longleftrightarrow> list_all (\<lambda>(k, v). numbers_ok v) kvs"
| "numbers_ok j \<longleftrightarrow> True"

subsection \<open>Enough fuel\<close>

lemma next_char_length: "next_char s = Some (c, r) \<Longrightarrow> length r < length s"
  using length_dropWhile_le [of json_space s] by (auto simp: next_char_def skip_ws_def split: list.splits)

lemma scan_string_length: "scan_string s = Some (x, r) \<Longrightarrow> length r < length s"
proof (induction s arbitrary: x r rule: scan_string.induct)
  case (1 s)
  show ?case
  proof (cases "s = [] \<or> hd s = quote_char")
    case True
    then show ?thesis using "1.prems" by (subst (asm) scan_string.simps) (auto split: if_splits simp: neq_Nil_conv)
  next
    case False
    with "1.prems" obtain y t z where st: "scan_char s = Some (y, t)" "scan_string t = Some (z, r)"
      by (subst (asm) scan_string.simps) (auto split: option.splits)
    have "length r < length t" using "1.IH" False st by blast
    with scan_char_length [OF st(1)] show ?thesis by simp
  qed
qed

lemma scan_digits_length: "scan_digits pre s = Some (x, r) \<Longrightarrow> length r < length s"
  by (cases s) (auto simp: scan_digits_def less_Suc_eq_le length_dropWhile_le split: if_splits)

lemma scan_number_length: "scan_number s = Some (x, r) \<Longrightarrow> length r < length s"
proof -
  assume a: "scan_number s = Some (x, r)"
  define t where "t = (if s \<noteq> [] \<and> hd s = CHR ''-'' then tl s else s)"
  obtain i s1 f s2 e where p: "scan_int t = Some (i, s1)" "scan_frac s1 = Some (f, s2)" "scan_exp s2 = Some (e, r)"
    using a unfolding scan_number_def Let_def t_def by (auto split: option.splits)
  have "length t \<le> length s" by (simp add: t_def)
  moreover have "length s1 < length t" using p(1)
    by (cases t) (auto simp: scan_int_def less_Suc_eq_le length_dropWhile_le split: if_splits)
  moreover have "length s2 \<le> length s1" using p(2)
    by (cases s1) (auto simp: scan_frac_def split: if_splits dest: scan_digits_length)
  moreover have "length r \<le> length s2" using p(3)
    by (cases s2) (auto simp: scan_exp_def split: if_splits list.splits dest: scan_digits_length)
  ultimately show ?thesis by simp
qed

lemma scan_literal_length: "scan_literal s = Some (j, r) \<Longrightarrow> length r < length s"
proof -
  assume a: "scan_literal s = Some (j, r)"
  have t: "take k s = w \<Longrightarrow> w \<noteq> [] \<Longrightarrow> length (drop k s) < length s" if "0 < k" for k w
    using that by (cases s) auto
  show ?thesis using a t [of 4 "''true''"] t [of 5 "''false''"] t [of 4 "''null''"]
    by (auto simp: scan_literal_def split: if_splits dest: scan_number_length)
qed

lemma parse_length:
  "pval n d s = Some (j, r) \<Longrightarrow> length r < length s"
  "pelems n d s = Some (js, r) \<Longrightarrow> length r < length s"
  "pmembers n d s = Some (kvs, r) \<Longrightarrow> length r < length s"
proof (induction n d s and n d s and n d s arbitrary: j r and js r and kvs r rule: pval_pelems_pmembers.induct)
  case (2 n d s)
  from "2.prems" obtain c t where c: "next_char s = Some (c, t)" by (auto split: option.splits)
  note l = next_char_length [OF c]
  have nx: "next_char t = Some (c', t') \<Longrightarrow> length t' < length s" for c' t' using next_char_length [of t c' t'] l by simp
  have sk: "scan_literal (c # t) = Some (j, r) \<Longrightarrow> length r < length s" using scan_literal_length [of "c # t" j r] l by simp
  show ?case using "2.prems" "2.IH" c l nx sk
    by (auto split: if_splits option.splits dest!: scan_string_length) (fastforce dest: less_trans)+
next
  case (4 n d s)
  then show ?case by (auto split: option.splits if_splits dest!: next_char_length) fastforce+
next
  case (6 n d s)
  then show ?case by (auto split: option.splits if_splits dest!: next_char_length scan_string_length) fastforce+
qed auto

text \<open>The results do not depend on the fuel once there is enough of it.\<close>

lemma parse_fuel:
  "2 * length s < n \<Longrightarrow> 2 * length s < m \<Longrightarrow> pval n d s = pval m d s"
  "2 * length s + 1 < n \<Longrightarrow> 2 * length s + 1 < m \<Longrightarrow> pelems n d s = pelems m d s"
  "2 * length s < n \<Longrightarrow> 2 * length s < m \<Longrightarrow> pmembers n d s = pmembers m d s"
proof (induction n d s and n d s and n d s arbitrary: m and m and m rule: pval_pelems_pmembers.induct)
  case (2 n d s)
  from "2.prems" obtain k where m: "m = Suc k" by (cases m) auto
  show ?case
  proof (cases "next_char s")
    case (Some p)
    obtain c t where p: "p = (c, t)" by (rule prod.exhaust)
    have l: "2 * length t + 1 < n" "2 * length t + 1 < k"
      using next_char_length [of s c t] Some p "2.prems" m by simp_all
    have "c = CHR ''{'' \<Longrightarrow> 0 < d \<Longrightarrow> next_char t = Some (c', t') \<Longrightarrow> c' \<noteq> CHR ''}'' \<Longrightarrow> pmembers n (d - 1) t = pmembers k (d - 1) t" for c' t'
      by (rule "2.IH"(1) [of "(c, t)" c t "(c', t')" c' t']) (use Some p l in simp_all)
    moreover have "c = CHR ''['' \<Longrightarrow> 0 < d \<Longrightarrow> next_char t = Some (c', t') \<Longrightarrow> c' \<noteq> CHR '']'' \<Longrightarrow> pelems n (d - 1) t = pelems k (d - 1) t" for c' t'
      by (rule "2.IH"(2) [of "(c, t)" c t "(c', t')" c' t']) (use Some p l in simp_all)
    ultimately show ?thesis using Some p m by (auto split: option.splits)
  qed (simp add: m)
next
  case (4 n d s)
  from "4.prems" obtain k where m: "m = Suc k" by (cases m) auto
  have v: "pval n d s = pval k d s" by (rule "4.IH"(1)) (use "4.prems" m in simp_all)
  have "pelems n d t = pelems k d t" if e: "pval n d s = Some (j, r)" "next_char r = Some (CHR '','', t)" for j r t
    by (rule "4.IH"(2) [OF e(1) refl e(2) refl])
      (use parse_length(1) [OF e(1)] next_char_length [OF e(2)] "4.prems" m in simp_all)
  then show ?case using v m by (auto split: option.splits)
next
  case (6 n d s)
  from "6.prems" obtain k where m: "m = Suc k" by (cases m) auto
  have v: "pval n d t = pval k d t"
    if e: "next_char s = Some (quote_char, r)" "scan_string r = Some (x, r1)" "next_char r1 = Some (CHR '':'', t)" for r x r1 t
    by (rule "6.IH"(1) [OF e(1) refl _ e(2) refl e(3) refl])
      (use next_char_length [OF e(1)] scan_string_length [OF e(2)] next_char_length [OF e(3)] "6.prems" m in simp_all)
  have w: "pmembers n d q = pmembers k d q"
    if e: "next_char s = Some (quote_char, r)" "scan_string r = Some (x, r1)" "next_char r1 = Some (CHR '':'', t)"
      "pval n d t = Some (j, r2)" "next_char r2 = Some (CHR '','', q)" for r x r1 t j r2 q
    by (rule "6.IH"(2) [OF e(1) refl _ e(2) refl e(3) refl _ e(4) refl e(5) refl])
      (use next_char_length [OF e(1)] scan_string_length [OF e(2)] next_char_length [OF e(3)] parse_length(1) [OF e(4)]
        next_char_length [OF e(5)] "6.prems" m in simp_all)
  from v w show ?case using m by (auto split: option.splits)
qed auto

subsection \<open>Reading what was written\<close>

text \<open>What may follow a number without becoming part of it.\<close>

definition ends :: "string \<Rightarrow> bool" where
  "ends r \<longleftrightarrow> r = [] \<or> (\<not> digit (hd r) \<and> hd r \<noteq> CHR ''.'' \<and> hd r \<noteq> CHR ''e'' \<and> hd r \<noteq> CHR ''E'')"

lemma digits_append:
  "ends r \<Longrightarrow> takeWhile digit (s @ r) = takeWhile digit s" "ends r \<Longrightarrow> dropWhile digit (s @ r) = dropWhile digit s @ r"
  by (induction s) (cases r; auto simp: ends_def)+

lemma scan_digits_append: "scan_digits p s = Some (x, t) \<Longrightarrow> ends r \<Longrightarrow> scan_digits p (s @ r) = Some (x, t @ r)"
  by (simp add: scan_digits_def digits_append split: if_splits)

lemma scan_int_append: "scan_int s = Some (x, t) \<Longrightarrow> ends r \<Longrightarrow> scan_int (s @ r) = Some (x, t @ r)"
  using digits_append [of r s] by (auto simp: scan_int_def split: list.splits if_splits)

lemma scan_frac_append: "scan_frac s = Some (x, t) \<Longrightarrow> ends r \<Longrightarrow> scan_frac (s @ r) = Some (x, t @ r)"
  using scan_digits_append by (cases s; cases r) (auto simp: scan_frac_def ends_def split: if_splits)

lemma scan_exp_append: "scan_exp s = Some (x, t) \<Longrightarrow> ends r \<Longrightarrow> scan_exp (s @ r) = Some (x, t @ r)"
proof (cases s)
  case Nil
  assume "scan_exp s = Some (x, t)" "ends r"
  with Nil show ?thesis by (cases r) (auto simp: scan_exp_def ends_def)
next
  case (Cons e s')
  assume a: "scan_exp s = Some (x, t)" "ends r"
  show ?thesis
  proof (cases "e = CHR ''e'' \<or> e = CHR ''E''")
    case True
    then obtain sg s'' where s': "s' = sg # s''" using a(1) Cons by (cases s') (auto simp: scan_exp_def)
    show ?thesis
      using a True Cons s' scan_digits_append [of "[e, sg]" s'' x t r] scan_digits_append [of "[e]" s' x t r]
      by (auto simp: scan_exp_def split: if_splits)
  next
    case False
    then show ?thesis using a Cons by (auto simp: scan_exp_def)
  qed
qed

lemma scan_number_append:
  assumes "scan_number s = Some (x, t)" and "ends r"
  shows "scan_number (s @ r) = Some (x, t @ r)"
proof -
  let ?neg = "s \<noteq> [] \<and> hd s = CHR ''-''"
  let ?t = "if ?neg then tl s else s"
  obtain i s1 f s2 e where p: "scan_int ?t = Some (i, s1)" "scan_frac s1 = Some (f, s2)" "scan_exp s2 = Some (e, t)"
      and x: "x = (if ?neg then ''-'' else []) @ i @ f @ e"
    using assms(1) unfolding scan_number_def Let_def by (auto split: option.splits)
  have ne: "s \<noteq> []" using p(1) by (auto simp: scan_int_def)
  then have "(s @ r \<noteq> [] \<and> hd (s @ r) = CHR ''-'') = ?neg" "(if ?neg then tl (s @ r) else s @ r) = ?t @ r" by auto
  then show ?thesis
    using scan_int_append [OF p(1) assms(2)] scan_frac_append [OF p(2) assms(2)] scan_exp_append [OF p(3) assms(2)] x
    unfolding scan_number_def Let_def by simp
qed

lemma scan_number_first: "scan_number s = Some (x, t) \<Longrightarrow> \<exists>c r. s = c # r \<and> (digit c \<or> c = CHR ''-'')"
  by (cases s) (auto simp: scan_number_def scan_int_def Let_def digit_def ord_def split: if_splits option.splits)

lemma number_first_not:
  "digit c \<or> c = CHR ''-'' \<Longrightarrow> \<not> json_space c \<and> c \<notin> {CHR ''{'', CHR ''['', CHR '']'', CHR ''}'', quote_char, CHR ''t'', CHR ''f'', CHR ''n''}"
  by (auto simp: digit_def json_space_def ord_def)

lemma next_char_Cons: "\<not> json_space c \<Longrightarrow> next_char (c # r) = Some (c, r)"
  by (simp add: next_char_def skip_ws_def)

lemma Marshal_first:
  assumes "numbers_ok j"
  obtains c t where "Marshal j = c # t" "\<not> json_space c" "c \<noteq> CHR '']''" "c \<noteq> CHR ''}''"
proof (cases j)
  case (JNum n)
  with assms scan_number_first [of n] obtain c t where "n = c # t" "digit c \<or> c = CHR ''-''" by auto
  with number_first_not [of c] JNum that show ?thesis by auto
next
  case (JBool b)
  with that show ?thesis by (cases b) (auto simp: json_space_def)
qed (use that in \<open>auto simp: quote_def json_space_def\<close>)

lemma pval_number:
  assumes "numbers_ok (JNum x)" and "ends r" and "0 < n"
  shows "pval n d (x @ r) = Some (JNum x, r)"
proof -
  obtain k where n: "n = Suc k" using assms(3) by (cases n) auto
  obtain c t where x: "x = c # t" "digit c \<or> c = CHR ''-''" using assms(1) scan_number_first [of x] by auto
  note c = number_first_not [OF x(2)]
  have "scan_number (x @ r) = Some (x, r)" using scan_number_append [of x x "[]" r] assms(1,2) by simp
  then have "scan_literal (c # t @ r) = Some (JNum x, r)"
    using c x(1) by (auto simp: scan_literal_def numeral_eq_Suc)
  then show ?thesis using c x(1) n by (simp add: next_char_Cons)
qed

lemma depth_elem: "j \<in> set js \<Longrightarrow> depth j < depth (JArr js)"
  by (auto simp: less_Suc_eq_le)

lemma depth_member: "(k, v) \<in> set kvs \<Longrightarrow> depth v < depth (JObj kvs)"
  by (auto simp: less_Suc_eq_le image_iff intro!: Max_ge)

lemma depth_JObj_le: "(\<And>k v. (k, v) \<in> set kvs \<Longrightarrow> depth v \<le> d) \<Longrightarrow> depth (JObj kvs) \<le> Suc d"
  by auto

text \<open>A value is read back, whatever follows.\<close>

definition reads_back :: "json \<Rightarrow> bool" where
  "reads_back j \<longleftrightarrow> (\<forall>n d r. 2 * length (Marshal j @ r) < n \<longrightarrow> int (depth j) \<le> d \<longrightarrow> ends r \<longrightarrow> pval n d (Marshal j @ r) = Some (coerced j, r))"

lemma reads_backD:
  "reads_back j \<Longrightarrow> 2 * length (Marshal j @ r) < n \<Longrightarrow> int (depth j) \<le> d \<Longrightarrow> ends r \<Longrightarrow> pval n d (Marshal j @ r) = Some (coerced j, r)"
  unfolding reads_back_def by blast

lemma ends_simps: "ends (CHR '','' # r)" "ends (CHR '']'' # r)" "ends (CHR ''}'' # r)"
  by (auto simp: ends_def digit_def ord_def)

lemma space_simps: "\<not> json_space CHR '',''" "\<not> json_space CHR '']''" "\<not> json_space CHR ''}''" "\<not> json_space CHR '':''"
    "\<not> json_space quote_char" "\<not> json_space CHR ''{''" "\<not> json_space CHR ''[''"
  by (simp_all add: json_space_def)

lemma pelems_reads_back:
  "js \<noteq> [] \<Longrightarrow> \<forall>j \<in> set js. reads_back j \<and> int (depth j) \<le> d \<Longrightarrow> 2 * length (Join (map Marshal js) '','' @ '']'' @ r) + 1 < n \<Longrightarrow>
     pelems n d (Join (map Marshal js) '','' @ '']'' @ r) = Some (map coerced js, r)"
proof (induction js arbitrary: n)
  case (Cons j js)
  obtain k where n: "n = Suc k" using Cons.prems(3) by (cases n) auto
  show ?case
  proof (cases js)
    case Nil
    have "pval k d (Marshal j @ CHR '']'' # r) = Some (coerced j, CHR '']'' # r)"
      by (rule reads_backD) (use Cons.prems Nil n ends_simps in simp_all)
    then show ?thesis using Nil n by (simp add: next_char_Cons space_simps)
  next
    case (Cons j' js')
    let ?t = "Join (map Marshal js) '','' @ '']'' @ r"
    have "pval k d (Marshal j @ CHR '','' # ?t) = Some (coerced j, CHR '','' # ?t)"
      by (rule reads_backD) (use Cons.prems Cons n ends_simps in simp_all)
    moreover have "pelems k d ?t = Some (map coerced js, r)"
      by (rule Cons.IH) (use Cons.prems Cons n in simp_all)
    ultimately show ?thesis using Cons n by (simp add: next_char_Cons space_simps)
  qed
qed simp

abbreviation Marshal_member :: "string \<times> json \<Rightarrow> string" where
  "Marshal_member \<equiv> \<lambda>(k, v). quote k @ '':'' @ Marshal v"

lemma pmembers_reads_back:
  "kvs \<noteq> [] \<Longrightarrow> \<forall>(k, v) \<in> set kvs. reads_back v \<and> int (depth v) \<le> d \<Longrightarrow>
     2 * length (Join (map Marshal_member kvs) '','' @ ''}'' @ r) < n \<Longrightarrow>
     pmembers n d (Join (map Marshal_member kvs) '','' @ ''}'' @ r) = Some (map (\<lambda>(k, v). (coerce k, coerced v)) kvs, r)"
proof (induction kvs arbitrary: n)
  case (Cons kv kvs)
  obtain k v where kv: "kv = (k, v)" by (rule prod.exhaust)
  obtain m where n: "n = Suc m" using Cons.prems(3) by (cases n) auto
  have q: "scan_string (quote_body k @ quote_char # x) = Some (coerce k, x)" for x by (rule scan_quote_body)
  show ?case
  proof (cases kvs)
    case Nil
    have "pval m d (Marshal v @ CHR ''}'' # r) = Some (coerced v, CHR ''}'' # r)"
      by (rule reads_backD) (use Cons.prems Nil n kv ends_simps in \<open>simp_all add: quote_def\<close>)
    then show ?thesis using Nil n kv q by (simp add: next_char_Cons space_simps quote_def)
  next
    case (Cons kv' kvs')
    let ?t = "Join (map Marshal_member kvs) '','' @ ''}'' @ r"
    have "pval m d (Marshal v @ CHR '','' # ?t) = Some (coerced v, CHR '','' # ?t)"
      by (rule reads_backD) (use Cons.prems Cons n kv ends_simps in \<open>simp_all add: quote_def\<close>)
    moreover have "pmembers m d ?t = Some (map (\<lambda>(k, v). (coerce k, coerced v)) kvs, r)"
      by (rule Cons.IH) (use Cons.prems Cons n kv in \<open>simp_all add: quote_def\<close>)
    ultimately show ?thesis using Cons n kv q by (simp add: next_char_Cons space_simps quote_def)
  qed
qed simp

lemma pval_word:
  "0 < n \<Longrightarrow> pval n d (''true'' @ r) = Some (JBool True, r)"
  "0 < n \<Longrightarrow> pval n d (''false'' @ r) = Some (JBool False, r)"
  "0 < n \<Longrightarrow> pval n d (''null'' @ r) = Some (JNull, r)"
  by (cases n; simp add: next_char_def skip_ws_def json_space_def scan_literal_def)+

lemma Marshal_reads_back: "numbers_ok j \<Longrightarrow> reads_back j"
proof (induction j)
  case (JNum x)
  then show ?case using pval_number unfolding reads_back_def by simp
next
  case (JStr x)
  show ?case unfolding reads_back_def
  proof (intro allI impI)
    fix n d r assume "2 * length (Marshal (JStr x) @ r) < n"
    then obtain k where "n = Suc k" by (cases n) auto
    then show "pval n d (Marshal (JStr x) @ r) = Some (coerced (JStr x), r)"
      using scan_quote_body [of x r] by (simp add: quote_def next_char_Cons space_simps)
  qed
next
  case (JArr js)
  show ?case unfolding reads_back_def
  proof (intro allI impI)
    fix n d r assume a: "2 * length (Marshal (JArr js) @ r) < n" "int (depth (JArr js)) \<le> d"
    then obtain k where n: "n = Suc k" by (cases n) auto
    have d: "0 < d" using a(2) by simp
    show "pval n d (Marshal (JArr js) @ r) = Some (coerced (JArr js), r)"
    proof (cases js)
      case Nil
      then show ?thesis using n d by (simp add: next_char_Cons space_simps)
    next
      case (Cons j js')
      let ?t = "Join (map Marshal js) '','' @ '']'' @ r"
      have "numbers_ok j" using JArr.prems Cons by simp
      then obtain c t where c: "Marshal j = c # t" "\<not> json_space c" "c \<noteq> CHR '']''" "c \<noteq> CHR ''}''" by (rule Marshal_first)
      have "\<exists>u. ?t = c # u" using c(1) Cons by (cases js') simp_all
      then have nx: "\<exists>u. next_char ?t = Some (c, u)" using next_char_Cons [OF c(2)] by auto
      have "int (depth x) \<le> d - 1" if "x \<in> set js" for x using depth_elem [OF that] a(2) by linarith
      then have "pelems k (d - 1) ?t = Some (map coerced js, r)"
        by (intro pelems_reads_back) (use JArr Cons a n in \<open>auto simp: list_all_iff\<close>)
      then show ?thesis using n d nx c(3) by (auto simp: next_char_Cons space_simps)
    qed
  qed
next
  case (JObj kvs)
  show ?case unfolding reads_back_def
  proof (intro allI impI)
    fix n d r assume a: "2 * length (Marshal (JObj kvs) @ r) < n" "int (depth (JObj kvs)) \<le> d"
    then obtain k where n: "n = Suc k" by (cases n) auto
    have d: "0 < d" using a(2) by simp
    show "pval n d (Marshal (JObj kvs) @ r) = Some (coerced (JObj kvs), r)"
    proof (cases kvs)
      case Nil
      then show ?thesis using n d by (simp add: next_char_Cons space_simps)
    next
      case (Cons kv kvs')
      let ?t = "Join (map Marshal_member kvs) '','' @ ''}'' @ r"
      have "\<exists>u. ?t = quote_char # u" using Cons by (cases kv; cases kvs') (simp_all add: quote_def)
      then have nx: "\<exists>u. next_char ?t = Some (quote_char, u)" using next_char_Cons [OF space_simps(5)] by auto
      have "int (depth v) \<le> d - 1" if "(x, v) \<in> set kvs" for x v using depth_member [OF that] a(2) by linarith
      moreover have "reads_back v" if "(x, v) \<in> set kvs" for x v
        using JObj.IH [of "(x, v)" v] JObj.prems that by (auto simp: list_all_iff)
      ultimately have "pmembers k (d - 1) ?t = Some (map (\<lambda>(k, v). (coerce k, coerced v)) kvs, r)"
        by (intro pmembers_reads_back) (use Cons a n in auto)
      then show ?thesis using n d nx by (auto simp: next_char_Cons space_simps)
    qed
  qed
qed (use pval_word in \<open>auto simp: reads_back_def\<close>)

text \<open>
  A document survives the wire. Whatever its strings hold, \<^verbatim>\<open>Unmarshal\<close> and \<^verbatim>\<open>Decode\<close> of what
  \<^verbatim>\<open>Marshal\<close> writes give the document back, each byte of a string that is not valid UTF-8 replaced by
  the replacement character; a document of valid strings comes back unchanged.
\<close>

lemma pval_Marshal:
  assumes "numbers_ok j" and "int (depth j) \<le> maxNestingDepth"
  shows "pval (Suc (2 * length (Marshal j))) maxNestingDepth (Marshal j) = Some (coerced j, [])"
  using reads_backD [OF Marshal_reads_back [OF assms(1)], of "[]"] assms(2) by (simp add: ends_def del: pval.simps)

lemma Unmarshal_Marshal:
  "numbers_ok j \<Longrightarrow> int (depth j) \<le> maxNestingDepth \<Longrightarrow> Unmarshal (Marshal j) = Some (coerced j)"
  "numbers_ok j \<Longrightarrow> int (depth j) \<le> maxNestingDepth \<Longrightarrow> Decode (Marshal j) = Some (coerced j)"
  by (simp_all add: Unmarshal_def Decode_def pval_Marshal skip_ws_def del: pval.simps)

subsection \<open>Structs\<close>

text \<open>
  The folding of keys: ASCII letters, and the two other characters that fold to ASCII letters.
\<close>

fun foldName :: "string \<Rightarrow> string" where
  "foldName [] = []"
| "foldName (a # s) =
     (if 97 \<le> ord a \<and> ord a \<le> 122 then char_of (ord a - 32) # foldName s
      else case s of
        [] \<Rightarrow> [a]
      | b # s' \<Rightarrow>
         (if a = CHR 0xC5 \<and> b = CHR 0xBF then CHR ''S'' # foldName s'
          else case s' of
            [] \<Rightarrow> a # foldName s
          | c # s'' \<Rightarrow> (if a = CHR 0xE2 \<and> b = CHR 0x84 \<and> c = CHR 0xAA then CHR ''K'' # foldName s'' else a # foldName s)))"

declare foldName.simps [simp del]

text \<open>
  The members of an object are stored one after the other, unknown keys are skipped, and a value of
  the wrong type is an error; \<open>null\<close> leaves a string, a number or a truth value as it is.
\<close>

definition decodeStruct :: "(string \<Rightarrow> json \<Rightarrow> 'a \<Rightarrow> 'a option) \<Rightarrow> json \<Rightarrow> 'a \<Rightarrow> 'a option" where
  "decodeStruct field j x =
     (case j of
        JNull \<Rightarrow> Some x
      | JObj kvs \<Rightarrow> fold (\<lambda>(k, v) x. Option.bind x (field (foldName k) v)) kvs (Some x)
      | _ \<Rightarrow> None)"

lemma decodeStruct_Nil: "decodeStruct f (JObj []) x = Some x"
  by (simp add: decodeStruct_def)

lemma decodeStruct_Cons:
  "decodeStruct f (JObj ((k, v) # kvs)) x = Option.bind (f (foldName k) v x) (decodeStruct f (JObj kvs))"
proof -
  have "fold (\<lambda>(k, v) x. Option.bind x (f (foldName k) v)) kvs None = None" by (induction kvs) auto
  then show ?thesis by (cases "f (foldName k) v x") (simp_all add: decodeStruct_def)
qed

fun asStr :: "json \<Rightarrow> (string \<Rightarrow> 'a \<Rightarrow> 'a) \<Rightarrow> 'a \<Rightarrow> 'a option" where
  "asStr (JStr s) f x = Some (f s x)"
| "asStr JNull f x = Some x"
| "asStr _ f x = None"

fun asBool :: "json \<Rightarrow> (bool \<Rightarrow> 'a \<Rightarrow> 'a) \<Rightarrow> 'a \<Rightarrow> 'a option" where
  "asBool (JBool b) f x = Some (f b x)"
| "asBool JNull f x = Some x"
| "asBool _ f x = None"

fun asInt :: "json \<Rightarrow> (int \<Rightarrow> 'a \<Rightarrow> 'a) \<Rightarrow> 'a \<Rightarrow> 'a option" where
  "asInt (JNum n) f x = map_option (\<lambda>i. f i x) (Atoi n)"
| "asInt JNull f x = Some x"
| "asInt _ f x = None"

lemma coerce_ascii: "list_all (\<lambda>c. ord c < 0x80) s \<Longrightarrow> coerce s = s"
  by (intro coerce_valid Valid_ascii) (simp add: list_all_iff)

text \<open>An \<^verbatim>\<open>omitempty\<close> string member.\<close>

definition omitempty :: "string \<Rightarrow> string \<Rightarrow> (string \<times> json) list" where
  "omitempty k s = (if s = [] then [] else [(k, JStr s)])"

end
