(* ===== verification/MessageJson.thy ===== *)
theory MessageJson
  imports JsonDoc Message "HOL-Library.List_Lexorder" "HOL-Library.Char_ord"
begin

text \<open>
  The JSON of a message (the tags of \<^verbatim>\<open>internal/message/message.go\<close>). The text of an instant is a
  parameter: \<open>fmtTime\<close> is its RFC 3339 form and \<open>parseTime\<close> reads such a text.
\<close>

record time_text =
  fmtTime :: "time \<Rightarrow> string"
  parseTime :: "string \<Rightarrow> time option"

definition optTime :: "time_text \<Rightarrow> string \<Rightarrow> time option \<Rightarrow> (string \<times> json) list" where
  "optTime tt k t = (case t of None \<Rightarrow> [] | Some t \<Rightarrow> [(k, JStr (fmtTime tt t))])"

definition headersJSON :: "(string, string) gomap \<Rightarrow> (string \<times> json) list" where
  "headersJSON hs = (if hs = [] then [] else [(''headers'', JObj (map (\<lambda>(k, v). (k, JStr v)) (sort_key fst hs)))])"

definition messageMembers :: "time_text \<Rightarrow> message \<Rightarrow> (string \<times> json) list" where
  "messageMembers tt m =
     [(''id'', JStr (ID m)), (''topic'', JStr (message.Topic m)), (''payload'', JStr (b64_encode (Payload m))),
            (''timestamp'', JStr (fmtTime tt (Timestamp m)))]
           @ optTime tt ''expires_at'' (ExpiresAt m) @ optTime tt ''deliver_at'' (DeliverAt m)
           @ [(''retry_count'', JNum (Itoa (RetryCount m)))] @ headersJSON (Headers m)"

definition messageJSON :: "time_text \<Rightarrow> message \<Rightarrow> json" where
  "messageJSON tt m = JObj (messageMembers tt m)"

subsection \<open>Decoding\<close>

definition emptyMessage :: message where
  "emptyMessage = \<lparr>ID = [], Topic = [], Payload = [], Timestamp = 0, ExpiresAt = None, DeliverAt = None, RetryCount = 0, Headers = []\<rparr>"

fun asByte :: "json \<Rightarrow> byte option" where
  "asByte (JNum n) = (case ParseUint n of Some k \<Rightarrow> if k < 256 then Some (of_nat k) else None | None \<Rightarrow> None)"
| "asByte JNull = Some 0"
| "asByte _ = None"

text \<open>A slice of bytes is a base64 text or an array of numbers.\<close>

fun asBytes :: "json \<Rightarrow> bytes option" where
  "asBytes (JStr s) = b64_decode s"
| "asBytes JNull = Some []"
| "asBytes (JArr js) = those (map asByte js)"
| "asBytes _ = None"

fun asTime :: "time_text \<Rightarrow> json \<Rightarrow> time option \<Rightarrow> time option option" where
  "asTime tt (JStr s) x = map_option Some (parseTime tt s)"
| "asTime tt JNull x = Some x"
| "asTime tt _ x = None"

fun asHeaders :: "json \<Rightarrow> (string, string) gomap \<Rightarrow> (string, string) gomap option" where
  "asHeaders JNull hs = Some []"
| "asHeaders (JObj kvs) hs =
     fold (\<lambda>(k, v) hs. Option.bind hs (\<lambda>hs. case v of JStr s \<Rightarrow> Some (mput k s hs) | JNull \<Rightarrow> Some (mput k [] hs) | _ \<Rightarrow> None))
       kvs (Some hs)"
| "asHeaders _ hs = None"

definition messageField :: "time_text \<Rightarrow> string \<Rightarrow> json \<Rightarrow> message \<Rightarrow> message option" where
  "messageField tt k v m =
     (if k = ''ID'' then asStr v (\<lambda>s m. m\<lparr>ID := s\<rparr>) m
      else if k = ''TOPIC'' then asStr v (\<lambda>s m. m\<lparr>Topic := s\<rparr>) m
      else if k = ''PAYLOAD'' then map_option (\<lambda>p. m\<lparr>Payload := p\<rparr>) (asBytes v)
      else if k = ''TIMESTAMP'' then map_option (\<lambda>t. m\<lparr>Timestamp := the t\<rparr>) (asTime tt v (Some (Timestamp m)))
      else if k = ''EXPIRES_AT'' then map_option (\<lambda>t. m\<lparr>ExpiresAt := t\<rparr>) (asTime tt v None)
      else if k = ''DELIVER_AT'' then map_option (\<lambda>t. m\<lparr>DeliverAt := t\<rparr>) (asTime tt v None)
      else if k = ''RETRY_COUNT'' then asInt v (\<lambda>i m. m\<lparr>RetryCount := i\<rparr>) m
      else if k = ''HEADERS'' then map_option (\<lambda>h. m\<lparr>Headers := h\<rparr>) (asHeaders v (Headers m))
      else Some m)"

definition decodeMessage :: "time_text \<Rightarrow> json \<Rightarrow> message option" where
  "decodeMessage tt j = decodeStruct (messageField tt) j emptyMessage"

subsection \<open>Reading what was written\<close>

text \<open>What the program relies on of the texts of instants.\<close>

definition times_read :: "time_text \<Rightarrow> bool" where
  "times_read tt \<longleftrightarrow> (\<forall>t. parseTime tt (fmtTime tt t) = Some t \<and> Valid (fmtTime tt t))"

lemma foldName_tags:
  "foldName ''id'' = ''ID''" "foldName ''topic'' = ''TOPIC''" "foldName ''payload'' = ''PAYLOAD''" "foldName ''timestamp'' = ''TIMESTAMP''"
  "foldName ''expires_at'' = ''EXPIRES_AT''" "foldName ''deliver_at'' = ''DELIVER_AT''" "foldName ''retry_count'' = ''RETRY_COUNT''"
  "foldName ''headers'' = ''HEADERS''"
  by code_simp+

lemma coerce_tags:
  "coerce ''id'' = ''id''" "coerce ''topic'' = ''topic''" "coerce ''payload'' = ''payload''" "coerce ''timestamp'' = ''timestamp''"
  "coerce ''expires_at'' = ''expires_at''" "coerce ''deliver_at'' = ''deliver_at''" "coerce ''retry_count'' = ''retry_count''"
  "coerce ''headers'' = ''headers''"
  by (rule coerce_ascii, simp add: ord_def)+

lemma coerce_b64: "coerce (b64_encode p) = b64_encode p"
proof (rule coerce_valid, rule Valid_ascii)
  fix c assume "c \<in> set (b64_encode p)"
  then have "b64val c \<noteq> None \<or> c = CHR ''=''" by (rule b64_encode_chars)
  then show "ord c < 0x80" by (auto simp: b64val_def ord_def Let_def split: if_splits)
qed

definition readHeaders :: "(string, string) gomap \<Rightarrow> (string, string) gomap" where
  "readHeaders hs = fold (\<lambda>(k, v). mput (coerce k) (coerce v)) (sort_key fst hs) []"

lemma asHeaders_pairs:
  "asHeaders (JObj (map (\<lambda>(k, v). (coerce k, coerced v)) (map (\<lambda>(k, v). (k, JStr v)) kvs))) hs
     = Some (fold (\<lambda>(k, v). mput (coerce k) (coerce v)) kvs hs)"
  by (induction kvs arbitrary: hs) (auto simp: split_beta)

lemma messageField_tags:
  "messageField tt ''ID'' v m = asStr v (\<lambda>s m. m\<lparr>ID := s\<rparr>) m"
  "messageField tt ''TOPIC'' v m = asStr v (\<lambda>s m. m\<lparr>Topic := s\<rparr>) m"
  "messageField tt ''PAYLOAD'' v m = map_option (\<lambda>p. m\<lparr>Payload := p\<rparr>) (asBytes v)"
  "messageField tt ''TIMESTAMP'' v m = map_option (\<lambda>t. m\<lparr>Timestamp := the t\<rparr>) (asTime tt v (Some (Timestamp m)))"
  "messageField tt ''EXPIRES_AT'' v m = map_option (\<lambda>t. m\<lparr>ExpiresAt := t\<rparr>) (asTime tt v None)"
  "messageField tt ''DELIVER_AT'' v m = map_option (\<lambda>t. m\<lparr>DeliverAt := t\<rparr>) (asTime tt v None)"
  "messageField tt ''RETRY_COUNT'' v m = asInt v (\<lambda>i m. m\<lparr>RetryCount := i\<rparr>) m"
  "messageField tt ''HEADERS'' v m = map_option (\<lambda>h. m\<lparr>Headers := h\<rparr>) (asHeaders v (Headers m))"
  by (simp_all add: messageField_def)

text \<open>
  A decoded message is the message that was encoded, its strings as far as they are valid UTF-8.
\<close>

lemma decode_messageJSON:
  assumes "times_read tt" and "- (2 ^ 63) \<le> RetryCount m" and "RetryCount m < 2 ^ 63"
  shows "decodeMessage tt (coerced (messageJSON tt m))
      = Some (m\<lparr>ID := coerce (ID m), Topic := coerce (message.Topic m), Headers := readHeaders (Headers m)\<rparr>)"
proof -
  have t: "parseTime tt (fmtTime tt t) = Some t" "coerce (fmtTime tt t) = fmtTime tt t" for t
    using assms(1) by (simp_all add: times_read_def coerce_valid)
  note simps = messageJSON_def messageMembers_def decodeMessage_def coerced.simps list.map append.simps prod.case
    decodeStruct_Cons decodeStruct_Nil messageField_tags optTime_def asStr.simps asInt.simps asTime.simps asBytes.simps
    option.case option.map bind.bind_lunit map_append foldName_tags coerce_tags coerce_b64 b64_decode_encode t
  obtain i tp p ts ex de rc hs where m: "m = \<lparr>ID = i, Topic = tp, Payload = p, Timestamp = ts, ExpiresAt = ex, DeliverAt = de, RetryCount = rc, Headers = hs\<rparr>"
    by (cases m) simp
  have h: "headersJSON hs = (if hs = [] then [] else [(''headers'', JObj (map (\<lambda>(k, v). (k, JStr v)) (sort_key fst hs)))])"
    by (simp add: headersJSON_def)
  have at: "Atoi (Itoa rc) = Some rc" using Atoi_Itoa [OF assms(2,3)] by (simp add: m)
  show ?thesis
    using asHeaders_pairs [of "sort_key fst hs" "[]"] unfolding m
    by (cases ex; cases de; cases "hs = []") (simp_all add: simps h at emptyMessage_def readHeaders_def headersJSON_def del: asHeaders.simps)
qed

lemma digit_digit_char: "n < 10 \<Longrightarrow> digit (digit_char n)"
proof -
  assume n: "n < 10"
  have "ord (digit_char n) = 48 + n" using n by (simp add: digit_char_def)
  then show ?thesis using n by (simp add: digit_def)
qed

lemma nat_digits_json: "list_all digit (nat_digits n)"
  by (induction n rule: nat_digits.induct) (subst nat_digits.simps, auto simp: digit_digit_char)

lemma nat_digits_first: "0 < n \<Longrightarrow> \<exists>c r. nat_digits n = c # r \<and> c \<noteq> CHR ''0''"
proof (induction n rule: nat_digits.induct)
  case (1 n)
  show ?case
  proof (cases "n < 10")
    case True
    have "ord (digit_char n) = 48 + n" using True by (simp add: digit_char_def)
    then have "digit_char n \<noteq> CHR ''0''" using "1.prems" by (auto simp: ord_def)
    then show ?thesis using True by (subst nat_digits.simps) simp
  next
    case False
    with "1.IH" obtain c r where "nat_digits (n div 10) = c # r" "c \<noteq> CHR ''0''" by (auto simp: div_greater_zero_iff)
    then show ?thesis using False by (subst nat_digits.simps) simp
  qed
qed

lemma scan_nat_digits: "scan_int (nat_digits n) = Some (nat_digits n, [])"
proof (cases "n = 0")
  case True
  then have "nat_digits n = ''0''" by (subst nat_digits.simps) (simp add: digit_char_def char_of_eq_iff)
  then show ?thesis by (simp add: scan_int_def)
next
  case False
  then obtain c r where c: "nat_digits n = c # r" "c \<noteq> CHR ''0''" using nat_digits_first by blast
  have "takeWhile digit (nat_digits n) = nat_digits n" "dropWhile digit (nat_digits n) = []"
    using nat_digits_json [of n] by (auto simp: list_all_iff takeWhile_eq_all_conv dropWhile_eq_Nil_conv)
  moreover have "digit c" using nat_digits_json [of n] c(1) by simp
  ultimately show ?thesis using c by (simp add: scan_int_def)
qed

lemma scan_Itoa: "scan_number (Itoa n) = Some (Itoa n, [])"
proof -
  have "nat_digits k \<noteq> [] \<and> hd (nat_digits k) \<noteq> CHR ''-''" for k
    using nat_digits_json [of k] scan_nat_digits [of k] by (cases "nat_digits k") (auto simp: digit_def ord_def scan_int_def)
  then show ?thesis
    using scan_nat_digits by (simp add: scan_number_def Let_def Itoa_def scan_frac_def scan_exp_def)
qed

lemma messageJSON_ok: "numbers_ok (messageJSON tt m)" "int (depth (messageJSON tt m)) \<le> maxNestingDepth"
proof -
  show "numbers_ok (messageJSON tt m)"
    by (auto simp: messageJSON_def messageMembers_def optTime_def headersJSON_def scan_Itoa list_all_iff split: option.splits)
  have h: "depth v \<le> Suc 0" if "(k, v) \<in> set (headersJSON hs)" for k v hs
    using that unfolding headersJSON_def by (auto split: if_splits simp del: depth.simps(2) intro!: depth_JObj_le)
  have "depth (messageJSON tt m) \<le> Suc (Suc 0)"
    unfolding messageJSON_def by (rule depth_JObj_le) (use h in \<open>auto simp: messageMembers_def optTime_def split: option.splits\<close>)
  then show "int (depth (messageJSON tt m)) \<le> maxNestingDepth" by (simp add: maxNestingDepth_def)
qed

lemmas Unmarshal_messageJSON = Unmarshal_Marshal [OF messageJSON_ok]

text \<open>Decimal nanoseconds are such texts.\<close>

definition decimal_time :: time_text where
  "decimal_time = \<lparr>fmtTime = Itoa,
     parseTime = (\<lambda>s. if s \<noteq> [] \<and> hd s = CHR ''-'' then map_option (\<lambda>n. - int n) (ParseUint (tl s)) else map_option int (ParseUint s))\<rparr>"

lemma times_read_decimal: "times_read decimal_time"
proof -
  have a: "ord c < 0x80" if "c \<in> set (nat_digits k)" for c k
    using nat_digits_json [of k] that by (fastforce simp: list_all_iff digit_def)
  have "hd (nat_digits k) \<noteq> CHR ''-''" for k
    using nat_digits_json [of k] by (cases "nat_digits k") (auto simp: digit_def ord_def)
  then show ?thesis
    using a by (auto simp: times_read_def decimal_time_def Itoa_def ParseUint_def digits_value_nat ord_def intro!: Valid_ascii)
qed

end
