(* ===== verification/Http.thy ===== *)
theory Http
  imports Json
begin

text \<open>
  What the program uses of \<^verbatim>\<open>net/http\<close> and \<^verbatim>\<open>net/url\<close>: requests with their header and query, and
  responses as a status and a body. The headers of responses are not modelled.
\<close>

subsection \<open>Requests and responses\<close>

record http_request =
  Method :: string
  Path :: string
  RawQuery :: string
  Header :: "(string, string list) gomap"
  Body :: bytes
  RemoteAddr :: string

record http_response =
  Status :: int
  RespBody :: string

definition Error :: "string \<Rightarrow> int \<Rightarrow> http_response" where
  "Error msg code = \<lparr>Status = code, RespBody = msg @ [CHR 0x0A]\<rparr>"

subsection \<open>Headers\<close>

definition letter :: "nat \<Rightarrow> char \<Rightarrow> bool" where
  "letter base c \<longleftrightarrow> base \<le> ord c \<and> ord c < base + 26"

definition upper :: "char \<Rightarrow> char" where
  "upper c = (if letter 97 c then char_of (ord c - 32) else c)"

definition lower :: "char \<Rightarrow> char" where
  "lower c = (if letter 65 c then char_of (ord c + 32) else c)"

definition token_char :: "char \<Rightarrow> bool" where
  "token_char c \<longleftrightarrow> letter 65 c \<or> letter 97 c \<or> (48 \<le> ord c \<and> ord c \<le> 57) \<or> c \<in> set ''!#$%&*+-.^_`|~'' \<or> c = CHR 0x27"

fun canonical :: "bool \<Rightarrow> string \<Rightarrow> string" where
  "canonical up [] = []"
| "canonical up (c # s) = (if up then upper c else lower c) # canonical (c = CHR ''-'') s"

definition CanonicalMIMEHeaderKey :: "string \<Rightarrow> string" where
  "CanonicalMIMEHeaderKey s = (if list_all token_char s then canonical True s else s)"

definition Header_Get :: "http_request \<Rightarrow> string \<Rightarrow> string" where
  "Header_Get r key =
     (case mget (Header r) (CanonicalMIMEHeaderKey key) of Some (v # _) \<Rightarrow> v | _ \<Rightarrow> [])"

text \<open>\<^verbatim>\<open>BasicAuth\<close>: the user name and the password.\<close>

definition BasicAuth :: "http_request \<Rightarrow> (string \<times> string) option" where
  "BasicAuth r =
     (let auth = Header_Get r ''Authorization'' in
      if map lower (take 6 auth) = ''basic ''
      then Option.bind (b64_decode (drop 6 auth)) (\<lambda>c. Cut (str c) '':'')
      else None)"

subsection \<open>Queries\<close>

fun unescape :: "string \<Rightarrow> string option" where
  "unescape [] = Some []"
| "unescape (c # r) =
     (if c = CHR ''%''
      then (case r of
              a # b # r' \<Rightarrow>
                (case (hexval a, hexval b) of
                   (Some x, Some y) \<Rightarrow> map_option ((#) (char_of (16 * x + y))) (unescape r')
                 | _ \<Rightarrow> None)
            | _ \<Rightarrow> None)
      else map_option ((#) (if c = CHR ''+'' then CHR '' '' else c)) (unescape r))"

definition unreserved :: "char \<Rightarrow> bool" where
  "unreserved c \<longleftrightarrow> letter 65 c \<or> letter 97 c \<or> (48 \<le> ord c \<and> ord c \<le> 57) \<or> c \<in> set ''-_.~''"

definition upper_hex :: "nat \<Rightarrow> char" where
  "upper_hex n = ''0123456789ABCDEF'' ! n"

definition escape_char :: "char \<Rightarrow> string" where
  "escape_char c =
     (if unreserved c then [c] else if c = CHR '' '' then ''+''
      else [CHR ''%'', upper_hex (ord c div 16), upper_hex (ord c mod 16)])"

definition QueryEscape :: "string \<Rightarrow> string" where
  "QueryEscape s = concat (map escape_char s)"

text \<open>Pieces without a valid escape or with a semicolon are dropped.\<close>

definition query_pair :: "string \<Rightarrow> (string \<times> string) option" where
  "query_pair p =
     (if p = [] \<or> CHR '';'' \<in> set p then None
      else
        (case (case Cut p ''='' of None \<Rightarrow> (p, []) | Some kv \<Rightarrow> kv) of
           (k, v) \<Rightarrow> (case (unescape k, unescape v) of (Some k, Some v) \<Rightarrow> Some (k, v) | _ \<Rightarrow> None)))"

definition ParseQuery :: "string \<Rightarrow> (string \<times> string) list" where
  "ParseQuery raw = List.map_filter query_pair (Split raw ''&'')"

definition Query_Get :: "http_request \<Rightarrow> string \<Rightarrow> string" where
  "Query_Get r key = (case map_of (ParseQuery (RawQuery r)) key of None \<Rightarrow> [] | Some v \<Rightarrow> v)"

lemma hexval_upper: "n < 16 \<Longrightarrow> hexval (upper_hex n) = Some n"
proof -
  assume "n < 16"
  then have "n \<in> set [0..<16]" by simp
  moreover have "list_all (\<lambda>n. hexval (upper_hex n) = Some n) [0..<16]" by code_simp
  ultimately show ?thesis unfolding list_all_iff by blast
qed

lemma ord_bound: "ord c < 256"
  unfolding ord_def by (rule nat_of_char_less_256)

lemma unescape_char: "unescape (escape_char c @ r) = map_option ((#) c) (unescape r)"
proof -
  have "hexval (upper_hex (ord c div 16)) = Some (ord c div 16)" "hexval (upper_hex (ord c mod 16)) = Some (ord c mod 16)"
    using ord_bound [of c] by (auto intro!: hexval_upper)
  moreover have "unreserved c \<Longrightarrow> c \<noteq> CHR ''%'' \<and> c \<noteq> CHR ''+''" by (auto simp: unreserved_def letter_def ord_def)
  ultimately show ?thesis by (auto simp: escape_char_def)
qed

lemma unescape_QueryEscape [simp]: "unescape (QueryEscape s) = Some s"
  by (induction s) (simp_all add: QueryEscape_def unescape_char)

end
