(* ===== verification/Ws.thy ===== *)
theory Ws
  imports MessageJson Http Gateway
begin

unbundle bit_operations_syntax

text \<open>
  The WebSocket gateway (\<^verbatim>\<open>internal/transport/ws\<close>): the upgrade of a request, the frames, the commands
  of a client, and the goroutine that forwards spied messages. The bytes of the connection end
  where the first read fails, by its end or by the deadline. \<^verbatim>\<open>crypto/sha1\<close> and the decoder of the
  payload filter are parameters.
\<close>

subsection \<open>Frames\<close>

definition opCodeText :: byte where "opCodeText = 1"

definition opCodeClose :: byte where "opCodeClose = 8"

definition opCodePing :: byte where "opCodePing = 9"

definition opCodePong :: byte where "opCodePong = 10"

text \<open>The low \<open>k\<close> bytes of a number, most significant first, and back.\<close>

definition bigEndian :: "nat \<Rightarrow> nat \<Rightarrow> bytes" where
  "bigEndian k n = map (\<lambda>i. of_nat (n div 256 ^ i)) (rev [0..<k])"

definition fromBigEndian :: "bytes \<Rightarrow> nat" where
  "fromBigEndian bs = foldl (\<lambda>n b. n * 256 + unat b) 0 bs"

text \<open>\<^verbatim>\<open>payload[i] ^= maskKey[i%4]\<close>\<close>

definition applyMask :: "bytes \<Rightarrow> bytes \<Rightarrow> bytes" where
  "applyMask maskKey payload = map (\<lambda>i. payload ! i XOR maskKey ! (i mod 4)) [0..<length payload]"

text \<open>The extended length, when the seven bits announce one.\<close>

definition ws_length :: "nat \<Rightarrow> bytes \<Rightarrow> (nat \<times> bytes) option" where
  "ws_length payloadLen s =
     (if payloadLen = 126 then (if length s < 2 then None else Some (fromBigEndian (take 2 s), drop 2 s))
      else if payloadLen = 127 then (if length s < 8 then None else Some (fromBigEndian (take 8 s), drop 8 s))
      else Some (payloadLen, s))"

text \<open>What one round of the read loop finds, and what is left to read then.\<close>

datatype ws_event = WsEnd | WsPing bytes | WsSkip bytes | WsText bytes bytes

definition ws_maxPayload :: nat where
  "ws_maxPayload = 2 * 2 ^ 20"

definition ws_next :: "bytes \<Rightarrow> ws_event" where
  "ws_next stream =
     (if length stream < 2 then WsEnd
      else
        (let opCode = stream ! 0 AND 0x0F;
             isMasked = (stream ! 1 AND 0x80 \<noteq> 0);
             payloadLen = unat (stream ! 1 AND 0x7F);
             s = drop 2 stream in
         if opCode = opCodeClose then WsEnd
         else if opCode = opCodePing then WsPing s
         else if opCode = opCodePong then WsSkip s
         else case ws_length payloadLen s of
           None \<Rightarrow> WsEnd
         | Some (payloadLen, s) \<Rightarrow>
            (if payloadLen > ws_maxPayload then WsEnd
             else if isMasked \<and> length s < 4 then WsEnd
             else
               (let maskKey = take 4 s; s = (if isMasked then drop 4 s else s) in
                if length s < payloadLen then WsEnd
                else
                  (let payload = (if isMasked then applyMask maskKey (take payloadLen s) else take payloadLen s);
                       s = drop payloadLen s in
                   if opCode = opCodeText then WsText payload s else WsSkip s)))))"

lemma ws_length_drop: "ws_length n s = Some (m, s') \<Longrightarrow> length s' \<le> length s"
  by (auto simp: ws_length_def split: if_splits)

lemma ws_next_reads:
  "ws_next s = WsPing r \<or> ws_next s = WsSkip r \<or> ws_next s = WsText p r \<Longrightarrow> length r < length s"
proof -
  assume a: "ws_next s = WsPing r \<or> ws_next s = WsSkip r \<or> ws_next s = WsText p r"
  then have "\<not> length s < 2" by (auto simp: ws_next_def)
  moreover have "length r \<le> length s - 2"
    using a ws_length_drop [of "unat (s ! 1 AND 0x7F)" "drop 2 s"]
    by (auto simp: ws_next_def Let_def split: if_splits option.splits)
  ultimately show ?thesis by linarith
qed

definition ws_header :: "byte \<Rightarrow> nat \<Rightarrow> bytes" where
  "ws_header maskBit n =
     (if n \<le> 125 then [of_nat n OR maskBit]
      else if n \<le> 65535 then (126 OR maskBit) # bigEndian 2 n
      else (127 OR maskBit) # bigEndian 8 n)"

text \<open>The frame of \<^verbatim>\<open>sendMessage\<close>.\<close>

definition ws_frame :: "string \<Rightarrow> bytes" where
  "ws_frame data = [0x80 OR opCodeText] @ ws_header 0 (length data) @ bytesOf data"

definition pongFrame :: bytes where
  "pongFrame = [0x80 OR opCodePong, 0]"

subsection \<open>Clients\<close>

text \<open>\<open>wSent\<close> are the frames handed to the connection, whether or not they arrive.\<close>

record wsClient =
  wSpies :: "(string, nat) gomap"
  wSent :: "bytes list"

record WSCommand =
  Action :: string
  cTopic :: string
  cPayload :: string
  FilterKey :: string
  FilterVal :: string

definition wsField :: "string \<Rightarrow> json \<Rightarrow> WSCommand \<Rightarrow> WSCommand option" where
  "wsField k v c =
     (if k = ''ACTION'' then asStr v (\<lambda>s c. c\<lparr>Action := s\<rparr>) c
      else if k = ''TOPIC'' then asStr v (\<lambda>s c. c\<lparr>cTopic := s\<rparr>) c
      else if k = ''PAYLOAD'' then asStr v (\<lambda>s c. c\<lparr>cPayload := s\<rparr>) c
      else if k = ''FILTER_KEY'' then asStr v (\<lambda>s c. c\<lparr>FilterKey := s\<rparr>) c
      else if k = ''FILTER_VAL'' then asStr v (\<lambda>s c. c\<lparr>FilterVal := s\<rparr>) c
      else Some c)"

definition parseCommand :: "bytes \<Rightarrow> WSCommand option" where
  "parseCommand raw =
     Option.bind (Unmarshal (str raw))
       (\<lambda>j. decodeStruct wsField j \<lparr>Action = [], cTopic = [], cPayload = [], FilterKey = [], FilterVal = []\<rparr>)"

definition wsResponse :: "string \<Rightarrow> string \<Rightarrow> string \<Rightarrow> json" where
  "wsResponse status msg topic = JObj ((''status'', JStr status) # omitempty ''message'' msg @ omitempty ''topic'' topic)"

definition ws_send :: "bytes \<Rightarrow> wsClient \<Rightarrow> wsClient" where
  "ws_send frame c = c\<lparr>wSent := wSent c @ [frame]\<rparr>"

definition sendJSON :: "json \<Rightarrow> wsClient \<Rightarrow> wsClient" where
  "sendJSON j c = ws_send (ws_frame (Marshal j)) c"

definition sendError :: "string \<Rightarrow> wsClient \<Rightarrow> wsClient" where
  "sendError msg c = sendJSON (wsResponse ''error'' msg []) c"

definition handleCommand :: "time \<Rightarrow> bytes \<Rightarrow> wsClient \<Rightarrow> Broker \<Rightarrow> (wsClient \<times> Broker) run" where
  "handleCommand now raw c b =
     (case parseCommand raw of
        None \<Rightarrow> Ret (sendError ''invalid json format'' c, b)
      | Some cmd \<Rightarrow>
         (if Action cmd = ''ping'' then Ret (sendJSON (wsResponse ''pong'' [] []) c, b)
          else if Action cmd = ''publish'' then
            (if cTopic cmd = [] then Ret (sendError ''topic required'' c, b)
             else bind_run (Publish now (cTopic cmd) (plain_request (bytesOf (cPayload cmd))) b)
                    (\<lambda>(err, b). case err of
                       Some e \<Rightarrow> Ret (sendError e c, b)
                     | None \<Rightarrow> Ret (sendJSON (wsResponse ''published'' [] (cTopic cmd)) c, b)))
          else if Action cmd = ''subscribe'' then
            (if cTopic cmd = [] then Ret (sendError ''topic required'' c, b)
             else if mget (wSpies c) (cTopic cmd) \<noteq> None then Ret (sendError ''already subscribed to this topic'' c, b)
             else case AddSpy (cTopic cmd) b of
               (Inl e, b) \<Rightarrow> Ret (sendError e c, b)
             | (Inr spyChan, b) \<Rightarrow>
                 Ret (sendJSON (wsResponse ''subscribed'' [] (cTopic cmd)) (c\<lparr>wSpies := mput (cTopic cmd) spyChan (wSpies c)\<rparr>), b))
          else Ret (sendError ''unknown action'' c, b)))"

text \<open>
  One turn of the forwarding goroutine of a subscription; \<open>closing\<close> tells that it saw the end of
  the connection, \<open>writeOk\<close> whether its write succeeds.
\<close>

definition ws_forward ::
    "time_text \<Rightarrow> (bytes \<Rightarrow> (string, string) gomap option) \<Rightarrow> bool \<Rightarrow> bool \<Rightarrow> string \<Rightarrow> string \<Rightarrow> nat \<Rightarrow> wsClient \<Rightarrow> Broker
       \<Rightarrow> bool \<times> wsClient \<times> Broker" where
  "ws_forward tt decode closing writeOk filterKey filterVal ch c b =
     (if closing then (False, c, b)
      else case buf (chans b ! ch) of
        [] \<Rightarrow> (\<not> chClosed (chans b ! ch), c, b)
      | msg # _ \<Rightarrow>
         (if filterKey \<noteq> [] \<and> \<not> MatchJSONFilter decode (Payload msg) filterKey filterVal then (True, c, receive ch b)
          else (writeOk, ws_send (ws_frame (Marshal (messageJSON tt msg))) c, receive ch b)))"

subsection \<open>The read loop\<close>

function ws_loop ::
    "(nat \<Rightarrow> time) \<Rightarrow> (nat \<Rightarrow> Broker \<Rightarrow> Broker) \<Rightarrow> nat \<Rightarrow> bytes \<Rightarrow> wsClient \<Rightarrow> Broker \<Rightarrow> (wsClient \<times> Broker) run" where
  "ws_loop clock rest k stream c b =
     (case ws_next stream of
        WsEnd \<Rightarrow> Ret (c, b)
      | WsPing s \<Rightarrow> ws_loop clock rest (Suc k) s (ws_send pongFrame c) b
      | WsSkip s \<Rightarrow> ws_loop clock rest (Suc k) s c b
      | WsText payload s \<Rightarrow>
          bind_run (handleCommand (clock k) payload c (rest k b)) (\<lambda>(c, b). ws_loop clock rest (Suc k) s c b))"
  by pat_completeness auto

termination
  using ws_next_reads by (relation "measure (\<lambda>(_, _, _, stream, _). length stream)") auto

declare ws_loop.simps [simp del]

definition ws_cleanup :: "wsClient \<Rightarrow> Broker \<Rightarrow> Broker" where
  "ws_cleanup c b = fold (\<lambda>(topic, ch). RemoveSpy topic ch) (wSpies c) b"

definition ws_readPump ::
    "(nat \<Rightarrow> time) \<Rightarrow> (nat \<Rightarrow> Broker \<Rightarrow> Broker) \<Rightarrow> bytes \<Rightarrow> Broker \<Rightarrow> (wsClient \<times> Broker) run" where
  "ws_readPump clock rest stream b =
     bind_run (ws_loop clock rest 0 stream \<lparr>wSpies = [], wSent = []\<rparr> b) (\<lambda>(c, b). Ret (c, ws_cleanup c b))"

subsection \<open>The server\<close>

text \<open>The connected clients, by a number for each.\<close>

definition AddClient :: "nat \<Rightarrow> (nat, unit) gomap \<Rightarrow> (nat, unit) gomap" where
  "AddClient c clients = mput c () clients"

definition RemoveClient :: "nat \<Rightarrow> (nat, unit) gomap \<Rightarrow> (nat, unit) gomap" where
  "RemoveClient c clients = mdel c clients"

definition ActiveClientCount :: "(nat, unit) gomap \<Rightarrow> int" where
  "ActiveClientCount clients = int (length clients)"

definition wsMagicString :: string where
  "wsMagicString = ''258EAFA5-E914-47DA-95CA-C5AB0DC85B11''"

text \<open>
  The upgrade: an error response, or the bytes written to the connection that was taken over.
  \<open>hijack\<close> is what taking it over gives.
\<close>

definition newline :: string where
  "newline = [CHR 0x0D, CHR 0x0A]"

definition HandleWS :: "(bytes \<Rightarrow> bytes) \<Rightarrow> error option option \<Rightarrow> http_request \<Rightarrow> http_response + string" where
  "HandleWS sha1 hijack r =
     (if Header_Get r ''Upgrade'' \<noteq> ''websocket'' then Inl (Error ''Requires WebSocket protocol'' 400)
      else if Header_Get r ''Sec-WebSocket-Key'' = [] then Inl (Error ''Missing Sec-WebSocket-Key'' 400)
      else case hijack of
        None \<Rightarrow> Inl (Error ''Server does not support connection hijacking'' 500)
      | Some (Some e) \<Rightarrow> Inl (Error e 500)
      | Some None \<Rightarrow>
         (let acceptKey = b64_encode (sha1 (bytesOf (Header_Get r ''Sec-WebSocket-Key'' @ wsMagicString))) in
          Inr (''HTTP/1.1 101 Switching Protocols'' @ newline @ ''Upgrade: websocket'' @ newline
               @ ''Connection: Upgrade'' @ newline @ ''Sec-WebSocket-Accept: '' @ acceptKey @ newline @ newline)))"

subsection \<open>Reading frames\<close>

lemma length_bigEndian [simp]: "length (bigEndian k n) = k"
  by (simp add: bigEndian_def)

lemma fromBigEndian_bigEndian: "fromBigEndian (bigEndian k n) = n mod 256 ^ k"
proof (induction k)
  case (Suc k)
  have low: "foldl (\<lambda>n b. n * 256 + unat b) a (bigEndian k n) = a * 256 ^ k + foldl (\<lambda>n b. n * 256 + unat b) 0 (bigEndian k n)" for a
  proof -
    have "foldl (\<lambda>n b. n * 256 + unat b) a bs = a * 256 ^ length bs + foldl (\<lambda>n b. n * 256 + unat b) 0 bs" for bs :: bytes
    proof (induction bs arbitrary: a)
      case (Cons x bs)
      show ?case using Cons [of "a * 256 + unat x"] Cons [of "unat x"] by (simp add: algebra_simps)
    qed simp
    then show ?thesis by simp
  qed
  have "unat (of_nat (n div 256 ^ k) :: byte) = n div 256 ^ k mod 256"
    by (simp add: unsigned_of_nat take_bit_eq_mod)
  then have "fromBigEndian (bigEndian (Suc k) n) = n div 256 ^ k mod 256 * 256 ^ k + n mod 256 ^ k"
    using low [of "n div 256 ^ k mod 256"] Suc by (simp add: bigEndian_def fromBigEndian_def)
  also have "\<dots> = n mod (256 ^ k * 256)" 
    unfolding mod_mult2_eq by (simp add: mult.commute)
  also have "256 ^ k * 256 = (256 ^ Suc k :: nat)" by simp
  finally show ?case .
qed (simp add: bigEndian_def fromBigEndian_def)

lemma length_applyMask [simp]: "length (applyMask k p) = length p"
  by (simp add: applyMask_def)

lemma applyMask_twice [simp]: "applyMask k (applyMask k p) = p"
  by (rule nth_equalityI) (simp_all add: applyMask_def xor.assoc)

text \<open>The length announced by a header, and what follows it.\<close>

definition header_length :: "bytes \<Rightarrow> (bool \<times> nat \<times> bytes) option" where
  "header_length s =
     (case s of [] \<Rightarrow> None
      | h # s \<Rightarrow> map_option (\<lambda>(n, s). (h AND 0x80 \<noteq> 0, n, s)) (ws_length (unat (h AND 0x7F)) s))"

lemma or_80_bits: "m < 128 \<Longrightarrow> unat ((of_nat m OR 0x80 :: byte) AND 0x7F) = m \<and> (of_nat m OR 0x80 :: byte) AND 0x80 \<noteq> 0"
  using or_80 [of m] by (simp add: and_7F and_80)

lemma plain_bits: "m < 128 \<Longrightarrow> unat ((of_nat m OR 0 :: byte) AND 0x7F) = m \<and> (of_nat m OR 0 :: byte) AND 0x80 = 0"
  using unat_byte [of m] by (simp add: and_7F and_80)

lemma header_length_ws:
  assumes "n < 2 ^ 64" and "mb = 0 \<or> mb = 0x80"
  shows "header_length (ws_header mb n @ r) = Some (mb \<noteq> 0, n, r)"
proof -
  have bits: "m < 128 \<Longrightarrow> unat ((of_nat m OR mb) AND 0x7F) = m \<and> ((of_nat m OR mb) AND 0x80 \<noteq> 0) = (mb \<noteq> 0)" for m
    using assms(2) or_80_bits [of m] plain_bits [of m] by auto
  have two: "unat ((126 OR mb) AND 0x7F) = 126" "((126 OR mb) AND 0x80 \<noteq> 0) = (mb \<noteq> 0)"
      "unat ((127 OR mb) AND 0x7F) = 127" "((127 OR mb) AND 0x80 \<noteq> 0) = (mb \<noteq> 0)"
    using bits [of 126] bits [of 127] by simp_all
  consider "n \<le> 125" | "125 < n" "n \<le> 65535" | "65535 < n" by linarith
  then show ?thesis
  proof cases
    case 1
    then show ?thesis using bits [of n] by (simp add: ws_header_def header_length_def ws_length_def)
  next
    case 2
    then show ?thesis using two fromBigEndian_bigEndian [of 2 n]
      by (simp add: ws_header_def header_length_def ws_length_def)
  next
    case 3
    then show ?thesis using two fromBigEndian_bigEndian [of 8 n] assms(1)
      by (simp add: ws_header_def header_length_def ws_length_def)
  qed
qed

lemma ws_next_header:
  assumes "header_length s = Some (masked, n, s')" and "h AND 0x0F = opCodeText"
  shows "ws_next (h # s) =
     (if n > ws_maxPayload \<or> (masked \<and> length s' < 4) then WsEnd
      else let t = (if masked then drop 4 s' else s') in
        if length t < n then WsEnd
        else WsText (if masked then applyMask (take 4 s') (take n t) else take n t) (drop n t))"
proof -
  obtain x t where s: "s = x # t" using assms(1) by (cases s) (auto simp: header_length_def)
  have l: "ws_length (unat (x AND 0x7F)) t = Some (n, s')" "(x AND 0x80 \<noteq> 0) = masked"
    using assms(1) s by (auto simp: header_length_def)
  have o: "opCodeText \<noteq> opCodeClose" "opCodeText \<noteq> opCodePing" "opCodeText \<noteq> opCodePong"
    by (simp_all add: opCodeText_def opCodeClose_def opCodePing_def opCodePong_def)
  show ?thesis using l o assms(2) by (simp add: ws_next_def s Let_def)
qed

subsection \<open>The gateway and the broker\<close>

lemma handleCommand_calls:
  assumes "broker_inv b"
  shows "\<exists>c' b'. handleCommand now raw c b = Ret (c', b') \<and> broker_calls b b'"
proof (cases "parseCommand raw")
  case (Some cmd)
  obtain e b1 where p: "Publish now (cTopic cmd) (plain_request (bytesOf (cPayload cmd))) b = Ret (e, b1)"
    by (rule Publish_returns [OF assms])
  obtain r b2 where a: "AddSpy (cTopic cmd) b = (r, b2)" by (rule prod.exhaust)
  show ?thesis
    using p a Some Publish_calls [OF p] AddSpy_calls [OF a] by (cases e; cases r) (simp_all add: handleCommand_def)
qed (simp add: handleCommand_def)

definition ws_turn ::
    "(nat \<Rightarrow> time) \<Rightarrow> (nat \<Rightarrow> Broker \<Rightarrow> Broker) \<Rightarrow> nat \<Rightarrow> bytes \<Rightarrow> wsClient \<Rightarrow> Broker
       \<Rightarrow> ((nat \<times> bytes) option \<times> wsClient \<times> Broker) run" where
  "ws_turn clock rest k s c b =
     (case ws_next s of
        WsEnd \<Rightarrow> Ret (None, c, b)
      | WsPing s \<Rightarrow> Ret (Some (Suc k, s), ws_send pongFrame c, b)
      | WsSkip s \<Rightarrow> Ret (Some (Suc k, s), c, b)
      | WsText p s \<Rightarrow> bind_run (handleCommand (clock k) p c (rest k b)) (\<lambda>(c, b). Ret (Some (Suc k, s), c, b)))"

sublocale environment \<subseteq> ws_conn: connection_loop "ws_loop clock rest" "ws_turn clock rest" for clock
proof unfold_locales
  fix k s c b
  show "ws_loop clock rest k s c b = bind_run (ws_turn clock rest k s c b)
      (\<lambda>(r, c, b). case r of None \<Rightarrow> Ret (c, b) | Some (k, s) \<Rightarrow> ws_loop clock rest k s c b)"
  proof (cases "ws_next s")
    case (WsText p t)
    then show ?thesis
      by (cases "handleCommand (clock k) p c (rest k b)") (simp_all add: ws_loop.simps [of _ _ k s] ws_turn_def split_beta)
  qed (simp_all add: ws_loop.simps [of _ _ k s] ws_turn_def)
next
  fix k s c b k' s' c' b'
  assume t: "ws_turn clock rest k s c b = Ret (Some (k', s'), c', b')"
  then have "ws_next s = WsPing s' \<or> ws_next s = WsSkip s' \<or> (\<exists>p. ws_next s = WsText p s')"
    by (auto simp: ws_turn_def split: ws_event.splits elim!: bind_run.elims)
  then show "length s' < length s" using ws_next_reads by blast
next
  fix k s c and b :: Broker
  assume i: "broker_inv b"
  show "\<exists>r c' b'. ws_turn clock rest k s c b = Ret (r, c', b') \<and> broker_calls b b'"
  proof (cases "ws_next s")
    case (WsText p t)
    obtain c1 b1 where "handleCommand (clock k) p c (rest k b) = Ret (c1, b1)" "broker_calls (rest k b) b1"
      using handleCommand_calls [OF rest_inv [OF i]] by blast
    with rest_calls [of b k] WsText show ?thesis by (auto simp: ws_turn_def intro: rtranclp_trans)
  qed (simp_all add: ws_turn_def)
qed

context environment
begin

lemmas ws_loop_calls = ws_conn.loop_calls

end

text \<open>
  The WebSocket gateway keeps the broker alive. Whatever bytes a client sends, and whatever the
  rest of the program does to the broker between two frames by broker operations, serving the
  connection returns, and its effect on the broker is a sequence of broker operations.
\<close>

theorem ws_connection_is_broker_calls:
  assumes "broker_inv b" and "\<And>k b. broker_calls b (rest k b)"
  shows "\<exists>c' b'. ws_readPump clock rest stream b = Ret (c', b') \<and> broker_calls b b' \<and> broker_inv b'"
proof -
  have "environment rest" using assms(2) by unfold_locales
  from environment.ws_loop_calls [OF this assms(1)]
  obtain c' b' where l: "ws_loop clock rest 0 stream \<lparr>wSpies = [], wSent = []\<rparr> b = Ret (c', b')" "broker_calls b b'" by blast
  then have "broker_calls b (ws_cleanup c' b')"
    using RemoveSpies_calls [of b' "wSpies c'"] unfolding ws_cleanup_def by (rule_tac rtranclp_trans)
  with l assms(1) show ?thesis by (auto simp: ws_readPump_def intro: broker_calls_inv)
qed

theorem ws_connection_is_broker_calls_witness:
  "\<exists>c' b'. ws_readPump (\<lambda>_. 0) (\<lambda>_ b. RemoveSpy ''t'' 0 b) [0x81, 2, 123, 125] (sample_broker None) = Ret (c', b') \<and> broker_inv b'"
  using ws_connection_is_broker_calls [of "sample_broker None" "\<lambda>_ b. RemoveSpy ''t'' 0 b" "\<lambda>_. 0" "[0x81, 2, 123, 125]"]
    broker_init_inv [OF sample_broker_init] RemoveSpy_calls by blast

end
