(* ===== verification/WsClient.thy ===== *)
theory WsClient
  imports Ws
begin

text \<open>
  The WebSocket client of the SDK (\<^verbatim>\<open>client/ws.go\<close>) and what it and the gateway make of each other's
  frames. The random bytes of masks and the outcomes of writes are arguments; a handler is a
  number, and \<open>called\<close> lists the calls of handlers.
\<close>

subsection \<open>Writing\<close>

record WSClient =
  handlers :: "(string, nat) gomap"
  called :: "(nat \<times> message) list"
  written :: "bytes list"

definition wsCommandJSON :: "string \<Rightarrow> string \<Rightarrow> string \<Rightarrow> json" where
  "wsCommandJSON action topic payload =
     JObj ((''action'', JStr action) # omitempty ''topic'' topic @ omitempty ''payload'' payload)"

definition clientFrame :: "bytes \<Rightarrow> string \<Rightarrow> bytes" where
  "clientFrame maskKey payload =
     [0x81] @ ws_header 0x80 (length payload) @ maskKey @ applyMask maskKey (bytesOf payload)"

definition writeFrame :: "bytes result \<Rightarrow> error option \<Rightarrow> string \<Rightarrow> WSClient \<Rightarrow> error option \<times> WSClient" where
  "writeFrame rnd out payload c =
     (case rnd of
        Inl e \<Rightarrow> (Some e, c)
      | Inr maskKey \<Rightarrow> (case out of None \<Rightarrow> (None, c\<lparr>written := written c @ [clientFrame maskKey payload]\<rparr>) | Some e \<Rightarrow> (Some e, c)))"

definition pingFrame :: "bytes \<Rightarrow> bytes" where
  "pingFrame maskKey = [0x89, 0x80] @ maskKey"

definition writePingFrame :: "bytes result \<Rightarrow> error option \<Rightarrow> WSClient \<Rightarrow> error option \<times> WSClient" where
  "writePingFrame rnd out c =
     (case rnd of
        Inl e \<Rightarrow> (Some e, c)
      | Inr maskKey \<Rightarrow> (case out of None \<Rightarrow> (None, c\<lparr>written := written c @ [pingFrame maskKey]\<rparr>) | Some e \<Rightarrow> (Some e, c)))"

definition ws_Subscribe :: "bytes result \<Rightarrow> error option \<Rightarrow> string \<Rightarrow> nat \<Rightarrow> WSClient \<Rightarrow> error option \<times> WSClient" where
  "ws_Subscribe rnd out topic handler c =
     writeFrame rnd out (Marshal (wsCommandJSON ''subscribe'' topic [])) (c\<lparr>handlers := mput topic handler (handlers c)\<rparr>)"

definition ws_Unsubscribe :: "bytes result \<Rightarrow> error option \<Rightarrow> string \<Rightarrow> WSClient \<Rightarrow> error option \<times> WSClient" where
  "ws_Unsubscribe rnd out topic c =
     (let exists = (mget (handlers c) topic \<noteq> None); c = c\<lparr>handlers := mdel topic (handlers c)\<rparr> in
      if \<not> exists then (None, c)
      else writeFrame rnd out (Marshal (wsCommandJSON ''unsubscribe'' topic [])) c)"

definition ws_Publish :: "bytes result \<Rightarrow> error option \<Rightarrow> string \<Rightarrow> bytes \<Rightarrow> WSClient \<Rightarrow> error option \<times> WSClient" where
  "ws_Publish rnd out topic payload c =
     writeFrame rnd out (Marshal (wsCommandJSON ''publish'' topic (str payload))) c"

subsection \<open>Reading\<close>

definition MaxFrameSize :: nat where
  "MaxFrameSize = 16 * 1024 * 1024"

definition eof :: "bytes \<Rightarrow> error" where
  "eof s = (if s = [] then ''EOF'' else ''unexpected EOF'')"

definition readFrame :: "bytes \<Rightarrow> (byte \<times> bytes \<times> bytes) result" where
  "readFrame stream =
     (if length stream < 2 then Inl (eof stream)
      else
        (let opCode = stream ! 0 AND 0x0F; b1 = stream ! 1; s = drop 2 stream in
         case ws_length (unat (b1 AND 0x7F)) s of
           None \<Rightarrow> Inl (eof s)
         | Some (len, s) \<Rightarrow>
            (if len > MaxFrameSize
             then Inl (''frame size '' @ Itoa (int len) @ '' exceeds safety limit of '' @ Itoa (int MaxFrameSize) @ '' bytes'')
             else
               (let isMasked = (b1 AND 0x80 \<noteq> 0) in
                if isMasked \<and> length s < 4 then Inl (eof s)
                else
                  (let maskKey = take 4 s; s = (if isMasked then drop 4 s else s) in
                   if length s < len then Inl (eof s)
                   else Inr (opCode, if isMasked then applyMask maskKey (take len s) else take len s, drop len s))))))"

text \<open>
  What the read loop does with a frame: the result tells whether it reconnects. A document with a
  status is an answer of the gateway and is dropped.
\<close>

definition handleFrame :: "time_text \<Rightarrow> byte \<Rightarrow> bytes \<Rightarrow> WSClient \<Rightarrow> bool \<times> WSClient" where
  "handleFrame tt opCode payload c =
     (if opCode = 0x8 then (True, c)
      else if opCode = 0xA then (False, c)
      else case Unmarshal (str payload) of
        None \<Rightarrow> (False, c)
      | Some j \<Rightarrow>
         (case (case j of JObj kvs \<Rightarrow> Some kvs | JNull \<Rightarrow> Some [] | _ \<Rightarrow> None) of
            None \<Rightarrow> (False, c)
          | Some raw \<Rightarrow>
             (if map_of raw ''status'' \<noteq> None then (False, c)
              else case decodeMessage tt j of
                None \<Rightarrow> (False, c)
              | Some msg \<Rightarrow>
                 (let msg = (case b64_decode (str (Payload msg)) of Some decoded \<Rightarrow> msg\<lparr>Payload := decoded\<rparr> | None \<Rightarrow> msg) in
                  case mget (handlers c) (message.Topic msg) of
                    None \<Rightarrow> (False, c)
                  | Some handler \<Rightarrow> (False, c\<lparr>called := called c @ [(handler, msg)]\<rparr>)))))"

subsection \<open>Reconnecting\<close>

definition resubscribe :: "string \<Rightarrow> (bytes result \<times> error option) \<Rightarrow> WSClient \<Rightarrow> error option \<times> WSClient" where
  "resubscribe topic w c = writeFrame (fst w) (snd w) (Marshal (wsCommandJSON ''subscribe'' topic [])) c"

fun resubscribeAll :: "(string \<times> bytes result \<times> error option) list \<Rightarrow> WSClient \<Rightarrow> error option \<times> WSClient" where
  "resubscribeAll [] c = (None, c)"
| "resubscribeAll ((topic, w) # ts) c =
     (case resubscribe topic w c of (Some e, c) \<Rightarrow> (Some e, c) | (None, c) \<Rightarrow> resubscribeAll ts c)"

text \<open>
  An attempt to reconnect: the client was stopped, the dial failed, or the writes of the
  resubscriptions had these outcomes.
\<close>

datatype attempt = Stopped | DialFailed | Dialed "string \<Rightarrow> bytes result \<times> error option"

definition second :: time where
  "second = 1000000000"

definition nextBackoff :: "time \<Rightarrow> time" where
  "nextBackoff backoff = (let backoff = backoff * 2 in if backoff > 32 * second then 32 * second else backoff)"

text \<open>The waits, what came of it (\<^const>\<open>None\<close> while the loop goes on), and the client.\<close>

fun reconnect :: "attempt list \<Rightarrow> time \<Rightarrow> WSClient \<Rightarrow> time list \<times> error option option \<times> WSClient" where
  "reconnect [] backoff c = ([], None, c)"
| "reconnect (Stopped # as) backoff c = ([], Some (Some ''client stopped intentionally''), c)"
| "reconnect (DialFailed # as) backoff c =
     (case reconnect as (nextBackoff backoff) c of (ws, r) \<Rightarrow> (backoff # ws, r))"
| "reconnect (Dialed w # as) backoff c =
     (case resubscribeAll (map (\<lambda>t. (t, w t)) (mkeys (handlers c))) c of
        (None, c) \<Rightarrow> ([backoff], Some None, c)
      | (Some e, c) \<Rightarrow> (case reconnect as (nextBackoff backoff) c of (ws, r) \<Rightarrow> (backoff # ws, r)))"

definition handleReconnection :: "attempt list \<Rightarrow> WSClient \<Rightarrow> time list \<times> error option option \<times> WSClient" where
  "handleReconnection as c = reconnect as (1 * second) c"

text \<open>The upgrade request; the connection is used when the answer has status 101.\<close>

definition handshakeRequest :: "string \<Rightarrow> string \<Rightarrow> bytes \<Rightarrow> string" where
  "handshakeRequest addr apiKey keyBytes =
     (let path = (if apiKey \<noteq> [] then ''/ws?token='' @ apiKey else ''/ws'') in
      ''GET '' @ path @ '' HTTP/1.1'' @ newline @ ''Host: '' @ addr @ newline @ ''Upgrade: websocket'' @ newline
      @ ''Connection: Upgrade'' @ newline @ ''Sec-WebSocket-Key: '' @ b64_encode keyBytes @ newline
      @ ''Sec-WebSocket-Version: 13'' @ newline @ newline)"

definition handshakeError :: "int \<Rightarrow> error option" where
  "handshakeError status =
     (if status \<noteq> 101 then Some (''websocket handshake failed: unexpected status '' @ Itoa status) else None)"

subsection \<open>Frames between client and gateway\<close>

lemma or_81 [simp]: "0x80 OR opCodeText = (0x81 :: byte)" "(0x81 :: byte) AND 0x0F = opCodeText"
  by (simp_all add: opCodeText_def)

lemma clientFrame_read:
  assumes "length maskKey = 4" and "length p < 2 ^ 64"
  shows "ws_next (clientFrame maskKey p @ r) = (if length p \<le> ws_maxPayload then WsText (bytesOf p) r else WsEnd)"
proof -
  let ?s = "maskKey @ applyMask maskKey (bytesOf p) @ r"
  have h: "header_length (ws_header 0x80 (length p) @ ?s) = Some (True, length p, ?s)"
    using header_length_ws [of "length p" "0x80" ?s] assms(2) by simp
  have "clientFrame maskKey p @ r = 0x81 # ws_header 0x80 (length p) @ ?s" by (simp add: clientFrame_def)
  then show ?thesis using ws_next_header [OF h or_81(2)] assms(1) by (simp add: Let_def)
qed

lemma serverFrame_read:
  assumes "length p < 2 ^ 64"
  shows "length p \<le> MaxFrameSize \<Longrightarrow> readFrame (ws_frame p @ r) = Inr (opCodeText, bytesOf p, r)"
    and "length p > MaxFrameSize \<Longrightarrow> \<exists>e. readFrame (ws_frame p @ r) = Inl e"
proof -
  let ?s = "bytesOf p @ r"
  have h: "header_length (ws_header 0 (length p) @ ?s) = Some (False, length p, ?s)"
    using header_length_ws [of "length p" 0 ?s] assms by simp
  then obtain x t where x: "ws_header 0 (length p) @ ?s = x # t" "ws_length (unat (x AND 0x7F)) t = Some (length p, ?s)" "x AND 0x80 = 0"
    by (cases "ws_header 0 (length p) @ ?s") (auto simp: header_length_def)
  have f: "ws_frame p @ r = 0x81 # x # t" using x(1) by (simp add: ws_frame_def)
  show "length p \<le> MaxFrameSize \<Longrightarrow> readFrame (ws_frame p @ r) = Inr (opCodeText, bytesOf p, r)"
    unfolding f using x(2,3) by (simp add: readFrame_def Let_def opCodeText_def)
  show "length p > MaxFrameSize \<Longrightarrow> \<exists>e. readFrame (ws_frame p @ r) = Inl e"
    unfolding f using x(2,3) by (simp add: readFrame_def Let_def)
qed

text \<open>Both directions are codecs of texts.\<close>

definition gatewayReads :: "bytes \<Rightarrow> (string \<times> bytes) option" where
  "gatewayReads s = (case ws_next s of WsText p r \<Rightarrow> Some (str p, r) | _ \<Rightarrow> None)"

definition clientReads :: "bytes \<Rightarrow> (string \<times> bytes) option" where
  "clientReads s = (case readFrame s of Inr (opCode, p, r) \<Rightarrow> if opCode = opCodeText then Some (str p, r) else None | Inl e \<Rightarrow> None)"

interpretation to_gateway: prefix_codec "clientFrame maskKey" gatewayReads "\<lambda>p. length maskKey = 4 \<and> length p \<le> ws_maxPayload" for maskKey
  by unfold_locales (simp add: gatewayReads_def clientFrame_read ws_maxPayload_def)

interpretation to_client: prefix_codec ws_frame clientReads "\<lambda>p. length p \<le> MaxFrameSize"
  by unfold_locales (simp add: clientReads_def serverFrame_read(1) MaxFrameSize_def)

text \<open>
  C25: Frames arrive. A text of at most 2 MiB that the client frames under any mask is read back
  by the gateway, with exactly the bytes that follow it left to read; a longer one ends the
  connection. A text of at most 16 MiB that the gateway frames is read back by the client in the same way, and
  a longer one is an error.
\<close>

theorem ws_frames_roundtrip:
  assumes "length maskKey = 4" and "length p < 2 ^ 64"
  shows "ws_next (clientFrame maskKey p @ r) = (if length p \<le> 2097152 then WsText (bytesOf p) r else WsEnd)
    \<and> (if length p \<le> 16777216 then readFrame (ws_frame p @ r) = Inr (1, bytesOf p, r) else (\<exists>e. readFrame (ws_frame p @ r) = Inl e))"
  using clientFrame_read [OF assms, of r] serverFrame_read [OF assms(2), of r]
  by (simp add: ws_maxPayload_def MaxFrameSize_def opCodeText_def)

theorem ws_frames_roundtrip_witness:
  "ws_next (clientFrame [1, 2, 3, 4] ''hello'' @ [7]) = WsText (bytesOf ''hello'') [7]
    \<and> readFrame (ws_frame (replicate 300 CHR ''x'') @ [9]) = Inr (1, bytesOf (replicate 300 CHR ''x''), [9])"
  using ws_frames_roundtrip [of "[1, 2, 3, 4]" "''hello''" "[7]"] ws_frames_roundtrip [of "[1, 2, 3, 4]" "replicate 300 CHR ''x''" "[9]"]
  by simp

subsection \<open>Publishing\<close>

lemma coerce_action [simp]: "coerce ''action'' = ''action''" "coerce ''publish'' = ''publish''"
  by (rule coerce_ascii, simp add: ord_def)+

lemma foldName_action: "foldName ''action'' = ''ACTION''"
  by code_simp

lemma wsField_tags:
  "wsField ''ACTION'' v c = asStr v (\<lambda>s c. c\<lparr>Action := s\<rparr>) c"
  "wsField ''TOPIC'' v c = asStr v (\<lambda>s c. c\<lparr>cTopic := s\<rparr>) c"
  "wsField ''PAYLOAD'' v c = asStr v (\<lambda>s c. c\<lparr>cPayload := s\<rparr>) c"
  by (simp_all add: wsField_def)

lemma wsCommandJSON_ok: "numbers_ok (wsCommandJSON a t p)" "int (depth (wsCommandJSON a t p)) \<le> maxNestingDepth"
  by (simp_all add: wsCommandJSON_def omitempty_def maxNestingDepth_def)

lemma parse_publish:
  assumes "t \<noteq> []"
  shows "parseCommand (bytesOf (Marshal (wsCommandJSON ''publish'' t p)))
    = Some \<lparr>Action = ''publish'', cTopic = coerce t, cPayload = coerce p, FilterKey = [], FilterVal = []\<rparr>"
proof -
  have "Unmarshal (Marshal (wsCommandJSON ''publish'' t p)) = Some (coerced (wsCommandJSON ''publish'' t p))"
    using Unmarshal_Marshal(1) wsCommandJSON_ok by blast
  then show ?thesis using assms
    by (cases "p = []") (simp_all add: parseCommand_def wsCommandJSON_def omitempty_def coerce_tags foldName_tags foldName_action
        decodeStruct_Cons decodeStruct_Nil wsField_tags)
qed

lemma coerce_not_Nil: "s \<noteq> [] \<Longrightarrow> coerce s \<noteq> []"
  by (subst coerce.simps) (auto simp: take_eq_Nil2)



subsection \<open>Keeping alive\<close>

text \<open>The gateway does not read the mask of a ping: the next round takes it for a frame.\<close>

lemma ping_leaves_mask:
  "ws_loop clock rest k (pingFrame maskKey @ s) c b = ws_loop clock rest (Suc k) (maskKey @ s) (ws_send pongFrame c) b"
proof -
  have "ws_next (pingFrame maskKey @ s) = WsPing (maskKey @ s)"
    by (simp add: ws_next_def pingFrame_def opCodeClose_def opCodePing_def)
  then show ?thesis by (subst ws_loop.simps) simp
qed

text \<open>
  C40: A keep-alive can cut the connection. When the random mask of a client's ping starts with a byte
  whose low four bits are 8, one mask in sixteen, the gateway answers the ping and then ends the
  connection, whatever commands the client sent after the ping; the broker is not touched any more but
  for the removal of the client's subscriptions.
\<close>

theorem ws_keepalive_closes_connection:
  assumes "writePingFrame (Inr (m0 # ms)) None c0 = (None, c1)" and "m0 AND 0x0F = 8" and "length ms = 3"
  shows "\<exists>frame. written c1 = written c0 @ [frame]
    \<and> ws_loop clock rest k (frame @ s) c b = Ret (ws_send pongFrame c, b)"
proof -
  have w: "written c1 = written c0 @ [pingFrame (m0 # ms)]" using assms(1) by (auto simp: writePingFrame_def)
  have "ws_next ((m0 # ms) @ s) = WsEnd" using assms(2,3) by (simp add: ws_next_def opCodeClose_def)
  then have "ws_loop clock rest (Suc k) ((m0 # ms) @ s) (ws_send pongFrame c) b = Ret (ws_send pongFrame c, b)"
    by (subst ws_loop.simps) simp
  with w ping_leaves_mask [of clock rest k "m0 # ms" s c b] show ?thesis by auto
qed

theorem ws_keepalive_closes_connection_witness:
  "\<exists>frame. ws_loop (\<lambda>_. 0) (\<lambda>_ b. b) 0 (frame @ clientFrame [1, 2, 3, 4] ''lost'') \<lparr>wSpies = [], wSent = []\<rparr> (sample_broker None)
     = Ret (\<lparr>wSpies = [], wSent = [pongFrame]\<rparr>, sample_broker None)"
proof -
  obtain c1 where "writePingFrame (Inr [0x38, 1, 2, 3]) None \<lparr>handlers = [], called = [], written = []\<rparr> = (None, c1)"
    by (simp add: writePingFrame_def)
  from ws_keepalive_closes_connection [OF this, of "\<lambda>_. 0" "\<lambda>_ b. b" 0 "clientFrame [1, 2, 3, 4] ''lost''"
      "\<lparr>wSpies = [], wSent = []\<rparr>" "sample_broker None"]
  show ?thesis by (auto simp: ws_send_def)
qed

subsection \<open>Receiving\<close>

text \<open>
  The client decodes payloads twice. Let the gateway forward a message of a topic for which the
  client has a handler. The handler is called with that message, except that a payload which is
  itself a valid base64 text is replaced by what it decodes to.
\<close>

theorem ws_client_decodes_twice:
  assumes "times_read tt" and "- (2 ^ 63) \<le> RetryCount m" and "RetryCount m < 2 ^ 63" and "Valid (ID m)" and "Valid (message.Topic m)"
    and "length (Marshal (messageJSON tt m)) \<le> 16777216" and "mget (handlers c) (message.Topic m) = Some h"
    and "ws_forward tt decode False True [] [] ch w b = (True, w', b')" and "buf (chans b ! ch) = m # ms"
  shows "\<exists>frame payload. wSent w' = wSent w @ [frame] \<and> readFrame (frame @ r) = Inr (1, payload, r)
    \<and> handleFrame tt 1 payload c = (False, c\<lparr>called := called c @ [(h, m\<lparr>Headers := readHeaders (Headers m),
        Payload := (case b64_decode (str (Payload m)) of Some p \<Rightarrow> p | None \<Rightarrow> Payload m)\<rparr>)]\<rparr>)"
proof -
  let ?text = "Marshal (messageJSON tt m)" and ?m = "m\<lparr>Headers := readHeaders (Headers m)\<rparr>"
  have w: "wSent w' = wSent w @ [ws_frame ?text]" using assms(8,9) by (auto simp: ws_forward_def ws_send_def)
  have f: "readFrame (ws_frame ?text @ r) = Inr (1, bytesOf ?text, r)"
    using serverFrame_read(1) [of ?text r] assms(6) by (simp add: MaxFrameSize_def opCodeText_def)
  have u: "Unmarshal ?text = Some (coerced (messageJSON tt m))" by (rule Unmarshal_messageJSON(1))
  have d: "decodeMessage tt (coerced (messageJSON tt m)) = Some ?m"
    using decode_messageJSON [OF assms(1-3)] assms(4,5) by (simp add: coerce_valid)
  obtain kvs where k: "coerced (messageJSON tt m) = JObj kvs" by (simp add: messageJSON_def messageMembers_def)
  have "map_of kvs ''status'' = None"
    using k by (auto simp: messageJSON_def messageMembers_def optTime_def headersJSON_def coerce_tags split: option.splits if_splits)
  then have "handleFrame tt 1 (bytesOf ?text) c = (False, c\<lparr>called := called c @ [(h, m\<lparr>Headers := readHeaders (Headers m),
        Payload := (case b64_decode (str (Payload m)) of Some p \<Rightarrow> p | None \<Rightarrow> Payload m)\<rparr>)]\<rparr>)"
    using u d k assms(7) by (simp add: handleFrame_def Let_def split: option.split)
  with w f show ?thesis by blast
qed

theorem ws_client_decodes_twice_witness:
  "\<exists>frame payload c'. readFrame (frame @ []) = Inr (1, payload, [])
    \<and> handleFrame decimal_time 1 payload \<lparr>handlers = [(''q'', 5)], called = [], written = []\<rparr> = (False, c')
    \<and> map (Payload \<circ> snd) (called c') = [[0xB5, 0xEB, 0x2D]]"
proof -
  let ?m = "emptyMessage\<lparr>Topic := ''q'', Payload := bytesOf ''test''\<rparr>"
  let ?b = "(sample_broker None)\<lparr>chans := [\<lparr>cap = 1024, buf = [?m], chClosed = False\<rparr>]\<rparr>"
  let ?c = "\<lparr>handlers = [(''q'', 5 :: nat)], called = [], written = []\<rparr>" and ?w = "\<lparr>wSpies = [], wSent = []\<rparr>"
  have "length (Marshal (messageJSON decimal_time ?m)) < 100" by code_simp
  then have l: "length (Marshal (messageJSON decimal_time ?m)) \<le> 16777216" by simp
  obtain w' b' where f: "ws_forward decimal_time (\<lambda>_. None) False True [] [] 0 ?w ?b = (True, w', b')"
    by (simp add: ws_forward_def)
  have v: "Valid (ID ?m)" "Valid (message.Topic ?m)" by code_simp+
  have "mget (handlers ?c) (message.Topic ?m) = Some 5" "buf (chans ?b ! 0) = ?m # []"
      "- (2 ^ 63) \<le> RetryCount ?m" "RetryCount ?m < 2 ^ 63" by (simp_all add: mget_def emptyMessage_def)
  from ws_client_decodes_twice [OF times_read_decimal this(3,4) v l this(1) f this(2), of "[]"]
  obtain frame payload where "readFrame (frame @ []) = Inr (1, payload, [])"
      "handleFrame decimal_time 1 payload ?c = (False, ?c\<lparr>called := called ?c @ [(5, ?m\<lparr>Headers := readHeaders (Headers ?m),
        Payload := (case b64_decode (str (Payload ?m)) of Some p \<Rightarrow> p | None \<Rightarrow> Payload ?m)\<rparr>)]\<rparr>)" by blast
  moreover have "b64_decode (str (Payload ?m)) = Some [0xB5, 0xEB, 0x2D]" by code_simp
  ultimately show ?thesis by (intro exI [of _ frame] exI [of _ payload]) simp
qed

subsection \<open>Waiting\<close>

lemma nextBackoff_bounds: "second \<le> w \<Longrightarrow> w \<le> 32 * second \<Longrightarrow> second \<le> nextBackoff w \<and> nextBackoff w \<le> 32 * second"
  by (simp add: nextBackoff_def second_def)

text \<open>The waits between attempts are one second at first, double each time, and stay at 32 seconds.\<close>

lemma reconnect_waits:
  "w = min (2 ^ n) 32 * second \<Longrightarrow> reconnect as w c = (ws, r) \<Longrightarrow> i < length ws \<Longrightarrow> ws ! i = min (2 ^ (n + i)) 32 * second"
proof (induction as w c arbitrary: n i ws r rule: reconnect.induct)
  case (3 as w c)
  obtain ws' r' where e: "reconnect as (nextBackoff w) c = (ws', r')" by (rule prod.exhaust)
  have nb: "nextBackoff w = min (2 ^ Suc n) 32 * second" using "3.prems"(1) by (auto simp: nextBackoff_def second_def min_def)
  show ?case
  proof (cases i)
    case (Suc j)
    then show ?thesis using "3.IH" [OF nb e] "3.prems" e by auto
  qed (use "3.prems" e in auto)
next
  case (4 u as w c)
  obtain o' c' where s: "resubscribeAll (map (\<lambda>t. (t, u t)) (mkeys (handlers c))) c = (o', c')" by (rule prod.exhaust)
  obtain ws' r' where e: "reconnect as (nextBackoff w) c' = (ws', r')" by (rule prod.exhaust)
  have nb: "nextBackoff w = min (2 ^ Suc n) 32 * second" using "4.prems"(1) by (auto simp: nextBackoff_def second_def min_def)
  show ?case
  proof (cases o')
    case None
    then show ?thesis using "4.prems" s by auto
  next
    case (Some x)
    show ?thesis
    proof (cases i)
      case (Suc j)
      then show ?thesis using "4.IH" [OF s [symmetric] Some nb e] "4.prems" s e Some by auto
    qed (use "4.prems" s e Some in auto)
  qed
qed auto

end
