(* ===== verification/Duration.thy ===== *)
theory Duration
  imports JsonDoc
begin

text \<open>
  \<^verbatim>\<open>time.ParseDuration\<close>: a sign and a sequence of decimal numbers with units. Fractions are computed
  exactly where Go uses a \<^verbatim>\<open>float64\<close>.
\<close>

definition unitMap :: "string \<Rightarrow> int option" where
  "unitMap u =
     (if u = ''ns'' then Some 1
      else if u = ''us'' \<or> u = [CHR 0xC2, CHR 0xB5, CHR ''s''] \<or> u = [CHR 0xCE, CHR 0xBC, CHR ''s''] then Some 1000
      else if u = ''ms'' then Some 1000000
      else if u = ''s'' then Some 1000000000
      else if u = ''m'' then Some 60000000000
      else if u = ''h'' then Some 3600000000000
      else None)"

definition decimal :: "string \<Rightarrow> int" where
  "decimal ds = foldl (\<lambda>n c. n * 10 + (int (ord c) - 48)) 0 ds"

text \<open>One number with its unit: its value in nanoseconds and what follows it.\<close>

definition duration_part :: "string \<Rightarrow> (int \<times> string) option" where
  "duration_part s =
     (let ip = takeWhile digit s; s = dropWhile digit s;
          dot = (s \<noteq> [] \<and> hd s = CHR ''.'');
          fp = (if dot then takeWhile digit (tl s) else []);
          s = (if dot then dropWhile digit (tl s) else s);
          u = takeWhile (\<lambda>c. c \<noteq> CHR ''.'' \<and> \<not> digit c) s;
          s = dropWhile (\<lambda>c. c \<noteq> CHR ''.'' \<and> \<not> digit c) s in
      if decimal ip > 2 ^ 63 \<or> (ip = [] \<and> fp = []) \<or> u = [] then None
      else case unitMap u of
        None \<Rightarrow> None
      | Some unit \<Rightarrow>
         (let v = decimal ip * unit + decimal fp * unit div 10 ^ length fp in
          if v > 2 ^ 63 then None else Some (v, s)))"

lemma duration_part_length: "duration_part s = Some (v, r) \<Longrightarrow> length r < length s"
proof -
  assume a: "duration_part s = Some (v, r)"
  define t where "t = (if dropWhile digit s \<noteq> [] \<and> hd (dropWhile digit s) = CHR ''.'' then dropWhile digit (tl (dropWhile digit s)) else dropWhile digit s)"
  let ?P = "\<lambda>c. c \<noteq> CHR ''.'' \<and> \<not> digit c"
  have r: "r = dropWhile ?P t" "takeWhile ?P t \<noteq> []"
    using a by (auto simp: duration_part_def Let_def t_def split: if_splits option.splits)
  have "length (dropWhile ?P t) + length (takeWhile ?P t) = length t"
    by (metis add.commute length_append takeWhile_dropWhile_id)
  then have "length r < length t" using r by (cases "takeWhile ?P t") auto
  moreover have "length t \<le> length s"
    using length_dropWhile_le [of digit s] length_dropWhile_le [of digit "tl (dropWhile digit s)"] by (auto simp: t_def)
  ultimately show ?thesis by simp
qed

function duration_sum :: "int \<Rightarrow> string \<Rightarrow> int option" where
  "duration_sum d s =
     (if s = [] then Some d
      else case duration_part s of
        None \<Rightarrow> None
      | Some (v, r) \<Rightarrow> if d + v > 2 ^ 63 then None else duration_sum (d + v) r)"
  by pat_completeness auto

termination
  by (relation "measure (\<lambda>(_, s). length s)") (auto dest: duration_part_length)

declare duration_sum.simps [simp del]

definition ParseDuration :: "string \<Rightarrow> time option" where
  "ParseDuration s =
     (let neg = (s \<noteq> [] \<and> hd s = CHR ''-''); s = (if s \<noteq> [] \<and> (hd s = CHR ''-'' \<or> hd s = CHR ''+'') then tl s else s) in
      if s = ''0'' then Some 0
      else if s = [] then None
      else case duration_sum 0 s of
        None \<Rightarrow> None
      | Some d \<Rightarrow> if neg then Some (- d) else if d > 2 ^ 63 - 1 then None else Some d)"

lemma ParseDuration_samples: "ParseDuration ''1h30m'' = Some 5400000000000" "ParseDuration ''-1.5s'' = Some (- 1500000000)" "ParseDuration ''5'' = None"
  by code_simp+

end
