(* ===== verification/DurationText.thy ===== *)
theory DurationText
  imports Duration MessageJson
begin

text \<open>
  \<^verbatim>\<open>Duration.String\<close>, and that \<^verbatim>\<open>ParseDuration\<close> reads it back.
\<close>

definition padded :: "nat \<Rightarrow> nat \<Rightarrow> string" where
  "padded prec v = map (\<lambda>i. digit_char (v div 10 ^ i mod 10)) (rev [0..<prec])"

text \<open>\<^verbatim>\<open>fmtFrac\<close>: the last digits without their trailing zeros, and no dot when none is left.\<close>

definition trimmed :: "nat \<Rightarrow> nat \<Rightarrow> string" where
  "trimmed prec v = rev (dropWhile (\<lambda>c. c = CHR ''0'') (rev (padded prec v)))"

definition dotted :: "string \<Rightarrow> string" where
  "dotted ds = (if ds = [] then [] else CHR ''.'' # ds)"

definition micro :: string where
  "micro = [CHR 0xC2, CHR 0xB5, CHR ''s'']"

definition duration_String :: "time \<Rightarrow> string" where
  "duration_String d =
     (let u = nat \<bar>d\<bar>; sign = (if d < 0 then ''-'' else []) in
      if u = 0 then ''0s''
      else if u < 1000000000 then
        sign @ (if u < 1000 then nat_digits u @ ''ns''
                else if u < 1000000 then nat_digits (u div 1000) @ dotted (trimmed 3 u) @ micro
                else nat_digits (u div 1000000) @ dotted (trimmed 6 u) @ ''ms'')
      else
        (let secs = u div 1000000000; mins = secs div 60; hours = mins div 60 in
         sign @ (if hours > 0 then nat_digits hours @ ''h'' else []) @ (if mins > 0 then nat_digits (mins mod 60) @ ''m'' else [])
              @ nat_digits (secs mod 60) @ dotted (trimmed 9 u) @ ''s''))"

lemma decimal_append: "decimal (xs @ ys) = decimal xs * 10 ^ length ys + decimal ys"
proof -
  have "foldl (\<lambda>n c. n * 10 + (int (ord c) - 48)) a ys = a * 10 ^ length ys + foldl (\<lambda>n c. n * 10 + (int (ord c) - 48)) 0 ys" for a
  proof (induction ys arbitrary: a)
    case (Cons y ys)
    show ?case using Cons [of "a * 10 + (int (ord y) - 48)"] Cons [of "int (ord y) - 48"] by (simp add: algebra_simps)
  qed simp
  note f = this
  show ?thesis unfolding decimal_def foldl_append by (rule f)
qed

lemma decimal_digit: "d < 10 \<Longrightarrow> decimal [digit_char d] = int d"
  by (simp add: decimal_def digit_char_def)

lemma decimal_nat_digits: "decimal (nat_digits n) = int n"
proof (induction n rule: nat_digits.induct)
  case (1 n)
  then show ?case
    by (subst nat_digits.simps) (auto simp: decimal_append decimal_digit zdiv_int zmod_int)
qed

lemma decimal_padded: "decimal (padded prec v) = int (v mod 10 ^ prec)"
proof (induction prec)
  case 0
  then show ?case by (simp add: padded_def decimal_def)
next
  case (Suc p)
  have "padded (Suc p) v = [digit_char (v div 10 ^ p mod 10)] @ padded p v" by (simp add: padded_def)
  moreover have "length (padded p v) = p" by (simp add: padded_def)
  ultimately have "decimal (padded (Suc p) v) = int (v div 10 ^ p mod 10 * 10 ^ p + v mod 10 ^ p)"
    using Suc by (simp only: decimal_append decimal_digit) (simp add: decimal_digit)
  also have "v div 10 ^ p mod 10 * 10 ^ p + v mod 10 ^ p = v mod (10 ^ p * 10)"
    unfolding mod_mult2_eq by (simp add: mult.commute)
  finally show ?case by (simp add: mult.commute)
qed

lemma trimmed_spec: "\<exists>k. decimal (trimmed prec v) * 10 ^ k = int (v mod 10 ^ prec) \<and> length (trimmed prec v) + k = prec"
proof -
  define z where "z = takeWhile (\<lambda>c. c = CHR ''0'') (rev (padded prec v))"
  have "rev (padded prec v) = z @ rev (trimmed prec v)" by (simp add: z_def trimmed_def)
  then have p: "padded prec v = trimmed prec v @ rev z" by (metis rev_append rev_rev_ident)
  have "decimal zs = 0" if "set zs \<subseteq> {CHR ''0''}" for zs
    using that by (induction zs rule: rev_induct) (simp_all add: decimal_append, simp_all add: decimal_def ord_def)
  moreover have "set (rev z) \<subseteq> {CHR ''0''}" by (auto simp: z_def dest: set_takeWhileD)
  ultimately have "decimal (padded prec v) = decimal (trimmed prec v) * 10 ^ length z" by (simp add: p decimal_append)
  moreover have "length (trimmed prec v) + length z = prec" using arg_cong [OF p, of length] by (simp add: padded_def)
  ultimately show ?thesis using decimal_padded by metis
qed

lemma trimmed_digits: "list_all digit (trimmed prec v)"
proof -
  have "list_all digit (padded prec v)" by (auto simp: padded_def list_all_iff digit_digit_char)
  then show ?thesis by (auto simp: trimmed_def list_all_iff dest: set_dropWhileD)
qed

lemma takeWhile_all: "list_all P xs \<Longrightarrow> ys = [] \<or> \<not> P (hd ys) \<Longrightarrow> takeWhile P (xs @ ys) = xs \<and> dropWhile P (xs @ ys) = ys"
  by (induction xs) (cases ys; auto)+

text \<open>One number with its unit.\<close>

lemma duration_part_eq:
  assumes "list_all digit ip" and "ip \<noteq> []" and "list_all digit fp" and "unitMap u = Some unit"
    and "list_all (\<lambda>c. c \<noteq> CHR ''.'' \<and> \<not> digit c) u" and "u \<noteq> []" and "rest = [] \<or> digit (hd rest)"
    and "decimal ip \<le> 2 ^ 63" and "decimal ip * unit + decimal fp * unit div 10 ^ length fp \<le> 2 ^ 63"
  shows "duration_part (ip @ dotted fp @ u @ rest) = Some (decimal ip * unit + decimal fp * unit div 10 ^ length fp, rest)"
proof -
  let ?P = "\<lambda>c. c \<noteq> CHR ''.'' \<and> \<not> digit c"
  have u: "\<not> digit (hd (u @ rest))" "hd (u @ rest) \<noteq> CHR ''.''" using assms(5,6) by (cases u; auto)+
  have "\<not> digit (CHR ''.'')" by (simp add: digit_def ord_def)
  then have 1: "takeWhile digit (ip @ dotted fp @ u @ rest) = ip" "dropWhile digit (ip @ dotted fp @ u @ rest) = dotted fp @ u @ rest"
    using takeWhile_all [OF assms(1), of "dotted fp @ u @ rest"] u by (auto simp: dotted_def)
  have 2: "takeWhile digit (fp @ u @ rest) = fp" "dropWhile digit (fp @ u @ rest) = u @ rest"
    using takeWhile_all [OF assms(3), of "u @ rest"] u by auto
  have 3: "takeWhile ?P (u @ rest) = u" "dropWhile ?P (u @ rest) = rest"
    using takeWhile_all [OF assms(5), of rest] assms(7) by auto
  show ?thesis
    using assms(2,4,6,8,9) u(2) 1 2 3 unfolding duration_part_def Let_def 1
    by (cases "fp = []") (simp_all add: dotted_def decimal_def)
qed

definition unit_text :: "string \<Rightarrow> bool" where
  "unit_text u \<longleftrightarrow> u \<noteq> [] \<and> list_all (\<lambda>c. c \<noteq> CHR ''.'' \<and> \<not> digit c) u"

lemma units: "unit_text ''ns''" "unit_text micro" "unit_text ''ms''" "unit_text ''s''" "unit_text ''m''" "unit_text ''h''"
  by code_simp+

lemma unitMap_units:
  "unitMap ''ns'' = Some 1" "unitMap micro = Some 1000" "unitMap ''ms'' = Some 1000000" "unitMap ''s'' = Some 1000000000"
  "unitMap ''m'' = Some 60000000000" "unitMap ''h'' = Some 3600000000000"
  by code_simp+

lemma duration_sum_fraction:
  assumes "unit_text u" and "unitMap u = Some (10 ^ prec)" and "rest = [] \<or> digit (hd rest)" and "0 \<le> d"
    and "d + int (n * 10 ^ prec + v mod 10 ^ prec) \<le> 2 ^ 63"
  shows "duration_sum d (nat_digits n @ dotted (trimmed prec v) @ u @ rest) = duration_sum (d + int (n * 10 ^ prec + v mod 10 ^ prec)) rest"
proof -
  obtain k where k: "decimal (trimmed prec v) * 10 ^ k = int (v mod 10 ^ prec)" "length (trimmed prec v) + k = prec"
    using trimmed_spec by blast
  let ?l = "length (trimmed prec v)"
  have "(10 :: int) ^ (?l + k) = 10 ^ k * 10 ^ ?l" by (simp add: power_add mult.commute)
  then have "decimal (trimmed prec v) * 10 ^ prec = int (v mod 10 ^ prec) * 10 ^ ?l"
    unfolding k(2) by (simp add: k(1) [symmetric] mult.assoc)
  then have f: "decimal (trimmed prec v) * 10 ^ prec div 10 ^ ?l = int (v mod 10 ^ prec)" by simp
  have "int n \<le> int n * 10 ^ prec" by (simp add: mult_le_cancel_left1)
  then have "int n \<le> 2 ^ 63" using assms(4,5) by simp
  then have "duration_part (nat_digits n @ dotted (trimmed prec v) @ u @ rest) = Some (int (n * 10 ^ prec + v mod 10 ^ prec), rest)"
    using duration_part_eq [OF nat_digits_json nat_digits_nonempty trimmed_digits assms(2) _ _ assms(3), of n prec v] assms(1,4,5) f
    by (simp add: unit_text_def decimal_nat_digits)
  then show ?thesis using assms(5) by (subst duration_sum.simps) simp
qed

lemma duration_sum_whole:
  assumes "unit_text u" and "unitMap u = Some unit" and "0 < unit" and "rest = [] \<or> digit (hd rest)" and "0 \<le> d" and "d + int n * unit \<le> 2 ^ 63"
  shows "duration_sum d (nat_digits n @ u @ rest) = duration_sum (d + int n * unit) rest"
proof -
  have "int n \<le> int n * unit" using assms(3) by (simp add: mult_le_cancel_left1)
  then have "int n \<le> 2 ^ 63" using assms(5,6) by simp
  then have "duration_part (nat_digits n @ dotted [] @ u @ rest) = Some (int n * unit, rest)"
    using duration_part_eq [OF nat_digits_json nat_digits_nonempty _ assms(2) _ _ assms(4), of "[]" n] assms(1,5,6)
    by (simp add: unit_text_def decimal_nat_digits) (simp add: decimal_def)
  then show ?thesis using assms(6) by (subst duration_sum.simps) (simp add: dotted_def)
qed

lemma nat_digits_hd: "digit (hd (nat_digits n @ s))"
  using nat_digits_json [of n] by (cases "nat_digits n") auto

lemma ParseDuration_number:
  assumes "duration_sum 0 (nat_digits n @ u # s) = Some d" and "d < 2 ^ 63"
  shows "ParseDuration (nat_digits n @ u # s) = Some d"
proof -
  obtain c cs where c: "nat_digits n = c # cs" by (cases "nat_digits n") auto
  have "digit c" using nat_digits_hd [of n "[]"] c by simp
  then have "c \<noteq> CHR ''-'' \<and> c \<noteq> CHR ''+''" by (auto simp: digit_def ord_def)
  then show ?thesis using assms c by (simp add: ParseDuration_def)
qed

lemma duration_String_small:
  assumes "0 < u" and "u < 1000000000"
  shows "ParseDuration (duration_String (int u)) = Some (int u)"
proof -
  have p: "ParseDuration (nat_digits n @ dotted (trimmed prec u) @ t) = Some (int (n * 10 ^ prec + u mod 10 ^ prec))"
    if t: "unit_text t" "unitMap t = Some (10 ^ prec)" and b: "n * 10 ^ prec + u mod 10 ^ prec = u" for n prec t
  proof -
    have "dotted (trimmed prec u) @ t \<noteq> []" using t(1) by (simp add: unit_text_def)
    then obtain x y where xy: "dotted (trimmed prec u) @ t = x # y" by (cases "dotted (trimmed prec u) @ t") auto
    have l: "int (n * 10 ^ prec + u mod 10 ^ prec) < 2 ^ 63" unfolding b using assms(2) by simp
    have "duration_sum 0 (nat_digits n @ dotted (trimmed prec u) @ t) = Some (int (n * 10 ^ prec + u mod 10 ^ prec))"
      using duration_sum_fraction [OF t, of "[]" 0 n u] l by (simp add: duration_sum.simps [of _ "[]"])
    then show ?thesis using ParseDuration_number [of n x y] l xy by simp
  qed
  have w: "ParseDuration (nat_digits u @ ''ns'') = Some (int u)"
    using duration_sum_whole [OF units(1) unitMap_units(1), of "[]" 0 u] assms ParseDuration_number [of u "CHR ''n''" "''s''" "int u"]
    by (simp add: duration_sum.simps [of _ "[]"])
  consider "u < 1000" | "1000 \<le> u" "u < 1000000" | "1000000 \<le> u" by linarith
  then show ?thesis
  proof cases
    case 1
    then show ?thesis using w assms by (simp add: duration_String_def)
  next
    case 2
    then show ?thesis using p [of micro 3 "u div 1000"] units unitMap_units assms by (simp add: duration_String_def)
  next
    case 3
    then show ?thesis using p [of "''ms''" 6 "u div 1000000"] units unitMap_units assms by (simp add: duration_String_def)
  qed
qed

lemma clock_sum:
  "((h * 60 + m mod 60) * 60 + s mod 60) * 1000000000 + u mod 1000000000 = (u :: nat)"
  if "s = u div 1000000000" "m = s div 60" "h = m div 60"
  using that by (metis (no_types) div_mult_mod_eq)

lemma duration_String_large:
  assumes "1000000000 \<le> u" and "int u < 2 ^ 63"
  shows "ParseDuration (duration_String (int u)) = Some (int u)"
proof -
  define s m h where "s = u div 1000000000" and "m = s div 60" and "h = m div 60"
  note sum = clock_sum [OF s_def m_def h_def]
  let ?S = "nat_digits (s mod 60) @ dotted (trimmed 9 u) @ ''s''"
  let ?M = "(if m > 0 then nat_digits (m mod 60) @ ''m'' else []) @ ?S"
  let ?H = "(if h > 0 then nat_digits h @ ''h'' else []) @ ?M"
  have total: "int h * 3600000000000 + int (m mod 60) * 60000000000 + int (s mod 60 * 10 ^ 9 + u mod 10 ^ 9) = int u"
    using arg_cong [OF sum, of int] by (simp add: algebra_simps)
  have S: "duration_sum d ?S = Some (d + int (s mod 60 * 10 ^ 9 + u mod 10 ^ 9))"
    if "0 \<le> d" "d + int (s mod 60 * 10 ^ 9 + u mod 10 ^ 9) \<le> 2 ^ 63" for d
    using duration_sum_fraction [OF units(4), of 9 "[]" d "s mod 60" u] that unitMap_units(4) by (simp add: duration_sum.simps [of _ "[]"])
  have M: "duration_sum d ?M = Some (d + int (m mod 60) * 60000000000 + int (s mod 60 * 10 ^ 9 + u mod 10 ^ 9))"
    if "0 \<le> d" "d + int (m mod 60) * 60000000000 + int (s mod 60 * 10 ^ 9 + u mod 10 ^ 9) \<le> 2 ^ 63" for d
    using duration_sum_whole [OF units(5) unitMap_units(5), of ?S d "m mod 60"] S [of "d + int (m mod 60) * 60000000000"] S [of d]
      nat_digits_hd that by (cases "m > 0") simp_all
  have "digit (hd ?M)" using nat_digits_hd by simp
  then have H: "duration_sum 0 ?H = Some (int u)"
    using duration_sum_whole [OF units(6) unitMap_units(6), of ?M 0 h] M [of "int h * 3600000000000"] M [of 0] total assms(2)
    by (cases "h > 0") simp_all
  obtain x y where "dotted (trimmed 9 u) @ ''s'' = x # y" by (cases "dotted (trimmed 9 u) @ ''s''") auto
  then have "\<exists>n x y. ?H = nat_digits n @ x # y" by (cases "h > 0"; cases "m > 0") auto
  then have "ParseDuration ?H = Some (int u)" using ParseDuration_number H assms(2) by metis
  moreover have "duration_String (int u) = ?H"
    using assms(1) unfolding duration_String_def Let_def h_def m_def s_def by simp
  ultimately show ?thesis by simp
qed

text \<open>The text of a positive duration is read back as that duration.\<close>

lemma ParseDuration_String: "0 < d \<Longrightarrow> d < 2 ^ 63 \<Longrightarrow> ParseDuration (duration_String d) = Some d"
  using duration_String_small [of "nat d"] duration_String_large [of "nat d"] by (cases "d < 1000000000") simp_all

end
