(* ===== verification/Rest.thy ===== *)
theory Rest
  imports Ws Duration RateLimit Cluster
begin

text \<open>
  The HTTP server (\<^verbatim>\<open>internal/transport/rest/server.go\<close>): the middleware, the handlers and the routes.
  A request runs on the state of the server; a handler that blocks lets the rest of the program run
  on the broker. Response headers, the pages of the dashboard and the process statistics are not
  modelled.
\<close>

subsection \<open>State and environment\<close>

record Server =
  broker :: Broker
  clusterNode :: "Node option"
  rateLimiter :: "ipRateLimiter option"
  inFlight :: int
  draining :: bool
  wsClients :: "(nat, unit) gomap"

text \<open>
  The configuration, and what the server calls outside: hash functions, the parser of addresses, name
  resolution, the texts of instants, the decoder of the payload filter, and the leader.
\<close>

record rest_env =
  apiKey :: string \<comment> \<open>\<^verbatim>\<open>TINYMQ_API_KEY\<close>\<close>
  trustProxy :: bool \<comment> \<open>\<^verbatim>\<open>TINYMQ_TRUST_PROXY_HEADERS\<close>\<close>
  defaultPolicy :: string \<comment> \<open>\<^verbatim>\<open>TINYMQ_DEFAULT_POLICY\<close>\<close>
  clusterEnv :: cluster_env
  version :: string
  startTime :: time
  timeText :: time_text
  filterDecode :: "bytes \<Rightarrow> (string, string) gomap option"
  sha256 :: "bytes \<Rightarrow> bytes"
  sha1 :: "bytes \<Rightarrow> bytes"
  ParseRequestURI :: "string \<Rightarrow> (string \<times> string) option" \<comment> \<open>scheme and host name\<close>
  LookupIP :: "string \<Rightarrow> bytes list option"
  addressParses :: "string \<Rightarrow> bool" \<comment> \<open>\<^verbatim>\<open>url.Parse\<close> of the leader's address succeeds\<close>
  leaderAnswer :: "string \<Rightarrow> http_request \<Rightarrow> http_response"
  page :: "TopicStat list \<Rightarrow> int \<Rightarrow> string" \<comment> \<open>the dashboard template\<close>
  staticFS :: "(string, string) gomap" \<comment> \<open>the embedded directory \<^verbatim>\<open>static\<close>\<close>
  dirList :: "string \<Rightarrow> string"

text \<open>What wakes a long poll, and the circumstances of one request.\<close>

datatype wake = Arrived | TimedOut | Gone

record request_ctx =
  now :: time
  waiting :: "Broker \<Rightarrow> Broker" \<comment> \<open>the rest of the program while a poll waits\<close>
  woken :: wake
  turns :: "(Broker \<Rightarrow> Broker) list" \<comment> \<open>the rest of the program between two rounds of a stream\<close>
  flushes :: bool
  hijacking :: "error option option"
  connId :: nat

type_synonym handler = "http_request \<Rightarrow> Server \<Rightarrow> (http_response \<times> Server) run"

definition respond :: "int \<Rightarrow> string \<Rightarrow> Server \<Rightarrow> (http_response \<times> Server) run" where
  "respond status body s = Ret (\<lparr>Status = status, RespBody = body\<rparr>, s)"

definition fail :: "string \<Rightarrow> int \<Rightarrow> Server \<Rightarrow> (http_response \<times> Server) run" where
  "fail msg status s = Ret (Error msg status, s)"

text \<open>\<^verbatim>\<open>json.NewEncoder(w).Encode\<close>\<close>

definition encode :: "json \<Rightarrow> string" where
  "encode j = Marshal j @ [CHR 0x0A]"

definition strings :: "(string \<times> string) list \<Rightarrow> json" where
  "strings kvs = JObj (map (\<lambda>(k, v). (k, JStr v)) kvs)"

definition maxBody :: nat where
  "maxBody = 2 * 2 ^ 20"

subsection \<open>Middleware\<close>

text \<open>The request as the proxy sends it on; the connection headers, which the proxy library sets, are left as they are.\<close>

definition forwardedRequest :: "http_request \<Rightarrow> http_request" where
  "forwardedRequest r =
     r\<lparr>Header := mput ''X-Real-Ip'' [RemoteAddr r]
        (mput ''X-Forwarded-For'' [RemoteAddr r @ (case SplitHostPort (RemoteAddr r) of Some ip \<Rightarrow> '', '' @ ip | None \<Rightarrow> [])]
          (Header r))\<rparr>"

definition leaderProxy :: "rest_env \<Rightarrow> handler \<Rightarrow> handler" where
  "leaderProxy env next r s =
     (case clusterNode s of
        None \<Rightarrow> next r s
      | Some n \<Rightarrow>
         (if IsLeader n then next r s
          else
            (let leaderAddr = GetLeaderHTTP (clusterEnv env) n in
             if leaderAddr \<noteq> [] then
               (if addressParses env leaderAddr then Ret (leaderAnswer env leaderAddr (forwardedRequest r), s) else Panic)
             else fail ''Cluster is electing a new leader, please retry'' 503 s)))"

definition trackInFlight :: "handler \<Rightarrow> handler" where
  "trackInFlight next r s =
     (if draining s then fail ''Server is draining, please retry against another node'' 503 s
      else bind_run (next r (s\<lparr>inFlight := inFlight s + 1\<rparr>)) (\<lambda>(resp, s). Ret (resp, s\<lparr>inFlight := inFlight s - 1\<rparr>)))"

definition MarkDraining :: "Server \<Rightarrow> Server" where
  "MarkDraining s = s\<lparr>draining := True\<rparr>"

definition InFlightCount :: "Server \<Rightarrow> int" where
  "InFlightCount s = inFlight s"

definition authorized :: "string \<Rightarrow> http_request \<Rightarrow> bool" where
  "authorized token r \<longleftrightarrow>
     token = []
     \<or> (HasPrefix (Header_Get r ''Authorization'') ''Bearer '' \<and> TrimPrefix (Header_Get r ''Authorization'') ''Bearer '' = token)
     \<or> (case BasicAuth r of Some (_, pwd) \<Rightarrow> pwd = token | None \<Rightarrow> False)
     \<or> (Query_Get r ''token'' \<noteq> [] \<and> Query_Get r ''token'' = token)"

definition checkAuth :: "rest_env \<Rightarrow> handler \<Rightarrow> handler" where
  "checkAuth env next r s = (if authorized (apiKey env) r then next r s else fail ''unauthorized'' 401 s)"

definition withAuth :: "rest_env \<Rightarrow> request_ctx \<Rightarrow> handler \<Rightarrow> handler" where
  "withAuth env ctx next r s =
     (case rateLimiter s of
        None \<Rightarrow> checkAuth env next r s
      | Some rl \<Rightarrow>
         (case rl_Allow (extractIP (trustProxy env) (Header_Get r ''X-Real-IP'') (RemoteAddr r)) (now ctx) rl of
            (True, rl) \<Rightarrow> checkAuth env next r (s\<lparr>rateLimiter := Some rl\<rparr>)
          | (False, rl) \<Rightarrow>
              fail ''{\"error\":\"rate_limit_exceeded\",\"retry_after_seconds\":1}'' 429 (s\<lparr>rateLimiter := Some rl\<rparr>)))"

subsection \<open>Publishing\<close>

definition extractTopicFromPath :: "http_request \<Rightarrow> string \<Rightarrow> string" where
  "extractTopicFromPath r pre =
     (if \<not> HasPrefix (Path r) pre then [] else TrimSuffix (TrimPrefix (Path r) pre) ''/'')"

definition idempotencyKey :: "rest_env \<Rightarrow> http_request \<Rightarrow> string" where
  "idempotencyKey env r =
     (if Query_Get r ''idempotency'' = ''auto'' then hex_bytes (sha256 env (Body r)) else Header_Get r ''Idempotency-Key'')"

definition userHeaders :: "http_request \<Rightarrow> (string, string) gomap" where
  "userHeaders r =
     fold (\<lambda>(k, v) hs. if HasPrefix (ToUpper k) ''X-MQ-'' then mput k (case v of [] \<Rightarrow> [] | x # _ \<Rightarrow> x) hs else hs) (Header r) []"

text \<open>The instant a parameter with a duration means; a bad duration counts as none.\<close>

definition instantAfter :: "time \<Rightarrow> string \<Rightarrow> time option" where
  "instantAfter t param = (if param = [] then None else map_option (\<lambda>d. t + d) (ParseDuration param))"

definition publishRequest :: "time \<Rightarrow> http_request \<Rightarrow> publish_req" where
  "publishRequest t r =
     \<lparr>pPayload = Body r, pHeaders = userHeaders r,
      pPriority = (if Query_Get r ''priority'' = [] then ''normal'' else Query_Get r ''priority''),
      pExpiresAt = instantAfter t (Query_Get r ''ttl''), pDeliverAt = instantAfter t (Query_Get r ''delay''),
      pBroadcast = (Query_Get r ''broadcast'' = ''true''), pReplication = False\<rparr>"

definition publishStatus :: "error \<Rightarrow> int" where
  "publishStatus e =
     (if Contains e ''capacity'' \<or> Contains e ''limit'' then 429 else if Contains e ''invalid topic'' then 400 else 500)"

definition handlePublish :: "rest_env \<Rightarrow> request_ctx \<Rightarrow> handler" where
  "handlePublish env ctx r s =
     (if Method r \<noteq> ''POST'' then fail ''Method not allowed'' 405 s
      else
        (let topic = extractTopicFromPath r ''/publish/'' in
         if topic = [] then fail ''Topic is required. Usage: POST /publish/{topic}'' 400 s
         else if length (Body r) > maxBody then fail ''Payload too large or unreadable (Max 2MB)'' 413 s
         else if Body r = [] then fail ''Payload is empty'' 400 s
         else
           (let iKey = idempotencyKey env r in
            case (if iKey \<noteq> [] then IsIdempotent (now ctx) iKey (broker s) else (False, broker s)) of
              (True, b) \<Rightarrow>
                respond 200 (encode (strings [(''reason'', ''idempotency_key_exists''), (''status'', ''ignored''), (''topic'', topic)]))
                  (s\<lparr>broker := b\<rparr>)
            | (False, b) \<Rightarrow>
                bind_run (Publish (now ctx) topic (publishRequest (now ctx) r) b)
                  (\<lambda>(err, b). case err of
                     Some e \<Rightarrow> fail e (publishStatus e) (s\<lparr>broker := b\<rparr>)
                   | None \<Rightarrow> respond 202 (encode (strings [(''status'', ''accepted''), (''topic'', topic)])) (s\<lparr>broker := b\<rparr>)))))"

subsection \<open>Consuming\<close>

definition qolJSON :: "rest_env \<Rightarrow> message \<Rightarrow> json" where
  "qolJSON env m =
     JObj (messageMembers (timeText env) m @ [(''payload_encoding'', JStr ''base64'')]
           @ omitempty ''payload_text'' (if Valid (str (Payload m)) then str (Payload m) else []))"

definition respondWithQoL :: "rest_env \<Rightarrow> message list \<Rightarrow> int \<Rightarrow> Server \<Rightarrow> (http_response \<times> Server) run" where
  "respondWithQoL env msgs limit s =
     (let batchRes = map (qolJSON env) msgs in
      respond 200 (encode (if limit = 1 \<and> length batchRes = 1 then hd batchRes else if batchRes = [] then JNull else JArr batchRes)) s)"

definition consumeLimit :: "http_request \<Rightarrow> int" where
  "consumeLimit r =
     (if Query_Get r ''limit'' = [] then 1
      else case Atoi (Query_Get r ''limit'') of
        Some n \<Rightarrow> (if n > 0 then min n 1000 else 1)
      | None \<Rightarrow> 1)"

definition notFound :: string where
  "notFound = ''{\"status\": \"not_found\", \"message\": \"Topic does not exist\"}''"

definition noMessages :: "string \<Rightarrow> Server \<Rightarrow> (http_response \<times> Server) run" where
  "noMessages topic s = (if TopicExists topic (broker s) then respond 204 [] s else respond 404 notFound s)"

text \<open>
  The wait for a message on the channel of the request. A message that has arrived is taken; a
  timeout and a client that left stop the waiting, the latter with no response.
\<close>

definition poll :: "request_ctx \<Rightarrow> string \<Rightarrow> nat \<Rightarrow> Broker \<Rightarrow> message list option \<times> Broker" where
  "poll ctx topic c b =
     (let b = waiting ctx b in
      if woken ctx = Gone then (None, RemoveWaitingConsumer topic c b)
      else case (woken ctx, buf (chans b ! c)) of
        (Arrived, m # _) \<Rightarrow> (Some [m], receive c b)
      | _ \<Rightarrow> (Some [], RemoveWaitingConsumer topic c b))"

definition filtered :: "rest_env \<Rightarrow> http_request \<Rightarrow> message list \<Rightarrow> message list" where
  "filtered env r msgs =
     (let filterKey = Query_Get r ''filter_key''; filterVal = Query_Get r ''filter_val'' in
      if filterKey = [] then msgs
      else filter (\<lambda>m. MatchJSONFilter (filterDecode env) (Payload m) filterKey filterVal) msgs)"

definition autoAck :: "request_ctx \<Rightarrow> http_request \<Rightarrow> string \<Rightarrow> message list \<Rightarrow> Broker \<Rightarrow> Broker" where
  "autoAck ctx r topic msgs b =
     (if Query_Get r ''auto_ack'' = ''true'' then fold (\<lambda>m b. snd (Ack (now ctx) topic (ID m) b)) msgs b else b)"

text \<open>The part after the topic is known: one consumption, the wait, the filter and the answer.\<close>

definition consumeFrom :: "rest_env \<Rightarrow> request_ctx \<Rightarrow> string \<Rightarrow> http_request \<Rightarrow> Server \<Rightarrow> (http_response \<times> Server) run" where
  "consumeFrom env ctx topic r s =
     (let limit = consumeLimit r;
          timeout = (if Query_Get r ''timeout'' = [] then 0 else case ParseDuration (Query_Get r ''timeout'') of Some t \<Rightarrow> t | None \<Rightarrow> 0) in
      case newChan 1 (broker s) of
        (notifyChan, b) \<Rightarrow>
          (case Consume (now ctx) topic limit notifyChan b of
             ((msgs, ok), b) \<Rightarrow>
               (case (if \<not> ok \<and> timeout > 0 then poll ctx topic notifyChan b else (Some (if ok then msgs else []), b)) of
                  (None, b) \<Rightarrow> respond 200 [] (s\<lparr>broker := b\<rparr>)
                | (Some msgs, b) \<Rightarrow>
                    (let msgs = filtered env r msgs in
                     if msgs = [] then noMessages topic (s\<lparr>broker := b\<rparr>)
                     else respondWithQoL env msgs limit (s\<lparr>broker := autoAck ctx r topic msgs b\<rparr>)))))"

definition handleConsume :: "rest_env \<Rightarrow> request_ctx \<Rightarrow> handler" where
  "handleConsume env ctx r s =
     (if Method r \<noteq> ''GET'' then fail ''Method not allowed'' 405 s
      else
        (let topic = extractTopicFromPath r ''/consume/'' in
         if topic = [] then fail ''Topic is required'' 400 s
         else if Query_Get r ''peek'' = ''true'' then
           (let msgs = Peek topic (consumeLimit r) (broker s) in
            if msgs = [] then noMessages topic s else respondWithQoL env msgs (consumeLimit r) s)
         else if Query_Get r ''group'' \<noteq> [] then
           (case CreateGroup topic (Query_Get r ''group'') (broker s) of
              (Inl e, b) \<Rightarrow> fail e 400 (s\<lparr>broker := b\<rparr>)
            | (Inr vt, b) \<Rightarrow> consumeFrom env ctx vt r (s\<lparr>broker := b\<rparr>))
         else consumeFrom env ctx topic r s))"

definition handleAck :: "request_ctx \<Rightarrow> handler" where
  "handleAck ctx r s =
     (case SplitN (TrimPrefix (Path r) ''/ack/'') ''/'' 2 of
        [topic, msgID] \<Rightarrow>
          (if topic = [] \<or> msgID = [] then fail ''Topic and Message ID required'' 400 s
           else
             (case Ack (now ctx) topic msgID (broker s) of
                (False, b) \<Rightarrow> respond 404 ''{\"status\": \"error\", \"message\": \"Message not found\"}'' (s\<lparr>broker := b\<rparr>)
              | (True, b) \<Rightarrow> respond 200 ''{\"status\": \"success\", \"message\": \"Message acknowledged\"}'' (s\<lparr>broker := b\<rparr>)))
      | _ \<Rightarrow> fail ''Topic and Message ID required'' 400 s)"

text \<open>A body is decoded up to the limit of its reader.\<close>

definition limitedBody :: "http_request \<Rightarrow> string" where
  "limitedBody r = str (take maxBody (Body r))"

definition handleRequeue :: "rest_env \<Rightarrow> request_ctx \<Rightarrow> handler" where
  "handleRequeue env ctx r s =
     (if Method r \<noteq> ''POST'' then fail ''Method not allowed'' 405 s
      else case Option.bind (Decode (limitedBody r)) (decodeMessage (timeText env)) of
        None \<Rightarrow> fail ''Invalid message format'' 400 s
      | Some msg \<Rightarrow>
         (if ID msg = [] \<or> message.Topic msg = [] \<or> \<not> IsValidTopicName (message.Topic msg) \<or> \<not> TopicExists (message.Topic msg) (broker s)
          then fail ''Invalid or missing topic/id'' 400 s
          else bind_run (Requeue (now ctx) msg (broker s)) (\<lambda>b. respond 202 ''{\"status\": \"requeued\"}'' (s\<lparr>broker := b\<rparr>))))"

subsection \<open>Webhooks\<close>

text \<open>The classes of addresses of \<^verbatim>\<open>net.IP\<close>, of 4 or 16 bytes.\<close>

definition To4 :: "bytes \<Rightarrow> bytes option" where
  "To4 ip =
     (if length ip = 4 then Some ip
      else if length ip = 16 \<and> take 12 ip = replicate 10 0 @ [0xFF, 0xFF] then Some (drop 12 ip) else None)"

definition IsLoopback :: "bytes \<Rightarrow> bool" where
  "IsLoopback ip = (case To4 ip of Some ip4 \<Rightarrow> ip4 ! 0 = 127 | None \<Rightarrow> ip = replicate 15 0 @ [1])"

definition IsPrivate :: "bytes \<Rightarrow> bool" where
  "IsPrivate ip =
     (case To4 ip of
        Some ip4 \<Rightarrow> ip4 ! 0 = 10 \<or> (ip4 ! 0 = 172 \<and> ip4 ! 1 AND 0xF0 = 16) \<or> (ip4 ! 0 = 192 \<and> ip4 ! 1 = 168)
      | None \<Rightarrow> length ip = 16 \<and> ip ! 0 AND 0xFE = 0xFC)"

definition IsLinkLocalUnicast :: "bytes \<Rightarrow> bool" where
  "IsLinkLocalUnicast ip =
     (case To4 ip of
        Some ip4 \<Rightarrow> ip4 ! 0 = 169 \<and> ip4 ! 1 = 254
      | None \<Rightarrow> length ip = 16 \<and> ip ! 0 = 0xFE \<and> ip ! 1 AND 0xC0 = 0x80)"

definition validateWebhookURL :: "rest_env \<Rightarrow> string \<Rightarrow> error option" where
  "validateWebhookURL env rawURL =
     (case ParseRequestURI env rawURL of
        None \<Rightarrow> Some ''only valid http/https URLs are allowed''
      | Some (scheme, host) \<Rightarrow>
         (if scheme \<noteq> ''http'' \<and> scheme \<noteq> ''https'' then Some ''only valid http/https URLs are allowed''
          else case LookupIP env host of
            None \<Rightarrow> Some ''could not resolve webhook hostname''
          | Some ips \<Rightarrow>
             (if list_ex (\<lambda>ip. IsLoopback ip \<or> IsPrivate ip \<or> IsLinkLocalUnicast ip) ips
              then Some ''webhook URL resolves to a forbidden private/internal network address'' else None)))"

definition webhookField :: "string \<Rightarrow> json \<Rightarrow> string \<times> string \<Rightarrow> (string \<times> string) option" where
  "webhookField k v x =
     (if k = ''URL'' then asStr v (\<lambda>u (_, s). (u, s)) x else if k = ''SECRET'' then asStr v (\<lambda>s (u, _). (u, s)) x else Some x)"

definition handleRegisterWebhook :: "rest_env \<Rightarrow> handler" where
  "handleRegisterWebhook env r s =
     (let topic = extractTopicFromPath r ''/webhook/'' in
      if topic = [] then fail ''Topic required'' 400 s
      else case Option.bind (Decode (str (Body r))) (\<lambda>j. decodeStruct webhookField j ([], [])) of
        None \<Rightarrow> fail ''Invalid JSON'' 400 s
      | Some (url, secret) \<Rightarrow>
         (if url = [] then fail ''Invalid JSON'' 400 s
          else case validateWebhookURL env url of
            Some e \<Rightarrow> fail (''Security rejection: '' @ e) 403 s
          | None \<Rightarrow> respond 201 ''{\"status\": \"webhook_registered\"}'' (s\<lparr>broker := snd (RegisterWebhook topic url secret (broker s))\<rparr>)))"

subsection \<open>Topics and queues\<close>

record topic_payload =
  tName :: string
  tPolicy :: string
  tRetain :: string

definition topicField :: "string \<Rightarrow> json \<Rightarrow> topic_payload \<Rightarrow> topic_payload option" where
  "topicField k v x =
     (if k = ''NAME'' then asStr v (\<lambda>a x. x\<lparr>tName := a\<rparr>) x
      else if k = ''POLICY'' then asStr v (\<lambda>a x. x\<lparr>tPolicy := a\<rparr>) x
      else if k = ''RETAIN'' then asStr v (\<lambda>a x. x\<lparr>tRetain := a\<rparr>) x else Some x)"

definition handleCreateTopic :: "rest_env \<Rightarrow> handler" where
  "handleCreateTopic env r s =
     (case Option.bind (Decode (str (Body r))) (\<lambda>j. decodeStruct topicField j \<lparr>tName = [], tPolicy = [], tRetain = []\<rparr>) of
        None \<Rightarrow> fail ''Invalid JSON'' 400 s
      | Some p \<Rightarrow>
         (let policy = (if tPolicy p = [] then defaultPolicy env else tPolicy p) in
          case (if tRetain p = [] then Some 0 else ParseDuration (tRetain p)) of
            None \<Rightarrow> fail ''Invalid retain duration (use Go duration format: 1h, 30m, etc.)'' 400 s
          | Some retention \<Rightarrow>
             (case CreateTopic (tName p) policy retention (broker s) of
                (Some e, b) \<Rightarrow> fail e 409 (s\<lparr>broker := b\<rparr>)
              | (None, b) \<Rightarrow> respond 201 ''{\"status\": \"topic_created\"}'' (s\<lparr>broker := b\<rparr>))))"

definition statJSON :: "TopicStat \<Rightarrow> json" where
  "statJSON st =
     JObj [(''Name'', JStr (sName st)), (''MessageCount'', JNum (Itoa (MessageCount st))),
           (''WaitingConsumers'', JNum (Itoa (WaitingConsumers st))), (''IsDLQ'', JBool (IsDLQ st)), (''HasWebhooks'', JBool (HasWebhooks st))]"

definition handleStats :: handler where
  "handleStats r s =
     (case GetStats (broker s) of
        (stats, totalWebhooks) \<Rightarrow>
          respond 200 (encode (JObj [(''stats'', JArr (map statJSON stats)), (''total_webhooks'', JNum (Itoa totalWebhooks))])) s)"

definition handleListQueues :: handler where
  "handleListQueues r s = respond 200 (encode (JArr (map statJSON (fst (GetStats (broker s)))))) s"

definition handleDashboard :: "rest_env \<Rightarrow> handler" where
  "handleDashboard env r s = (case GetStats (broker s) of (stats, totalWebhooks) \<Rightarrow> respond 200 (page env stats totalWebhooks) s)"

definition line_break :: string where
  "line_break = [CHR 0x0A]"

definition gauge :: "string \<Rightarrow> string \<Rightarrow> string" where
  "gauge name help = ''# HELP '' @ name @ '' '' @ help @ line_break @ ''# TYPE '' @ name @ '' gauge'' @ line_break"

definition handleMetrics :: handler where
  "handleMetrics r s =
     (case GetStats (broker s) of
        (stats, totalWebhooks) \<Rightarrow>
          respond 200
            (gauge ''tinymq_topics_total'' ''Total Queue/Topics active on Memory'' @ ''tinymq_topics_total '' @ Itoa (int (length stats)) @ line_break @ line_break
             @ gauge ''tinymq_webhooks_total'' ''Subscribed URLs'' @ ''tinymq_webhooks_total '' @ Itoa totalWebhooks @ line_break @ line_break
             @ (if stats = [] then []
                else gauge ''tinymq_topic_messages'' ''Messages held in RAM''
                     @ concat (map (\<lambda>st. ''tinymq_topic_messages{topic=\"'' @ sName st @ ''\"} '' @ Itoa (MessageCount st) @ line_break) stats)
                     @ line_break @ gauge ''tinymq_topic_consumers'' ''Consumers waiting in Long-Polling''
                     @ concat (map (\<lambda>st. ''tinymq_topic_consumers{topic=\"'' @ sName st @ ''\"} '' @ Itoa (WaitingConsumers st) @ line_break) stats)))
            s)"

definition handleDrain :: handler where
  "handleDrain r s =
     (if Method r \<noteq> ''POST'' then fail ''Method not allowed'' 405 s
      else respond 200 (encode (JObj [(''in_flight_requests'', JNum (Itoa (inFlight s))), (''status'', JStr ''draining'')])) (s\<lparr>draining := True\<rparr>))"

text \<open>
  The rounds of an event stream: before each, the rest of the program runs; a message that is there is
  taken and written when the filter lets it pass.
\<close>

fun streamEvents :: "rest_env \<Rightarrow> http_request \<Rightarrow> nat \<Rightarrow> (Broker \<Rightarrow> Broker) list \<Rightarrow> Broker \<Rightarrow> string \<times> Broker" where
  "streamEvents env r ch [] b = ([], b)"
| "streamEvents env r ch (t # ts) b =
     (let b = t b in
      case buf (chans b ! ch) of
        [] \<Rightarrow> streamEvents env r ch ts b
      | msg # _ \<Rightarrow>
         (case streamEvents env r ch ts (receive ch b) of
            (body, b) \<Rightarrow>
              (concat (map (\<lambda>m. ''data: '' @ Marshal (messageJSON (timeText env) m) @ line_break @ line_break) (filtered env r [msg])) @ body, b)))"

definition handleStream :: "rest_env \<Rightarrow> request_ctx \<Rightarrow> handler" where
  "handleStream env ctx r s =
     (let topic = extractTopicFromPath r ''/stream/'' in
      if topic = [] then fail ''Topic required'' 400 s
      else if \<not> flushes ctx then fail ''Streaming unsupported'' 500 s
      else case AddSpy topic (broker s) of
        (Inl e, b) \<Rightarrow> fail e 400 (s\<lparr>broker := b\<rparr>)
      | (Inr spyChan, b) \<Rightarrow>
         (case streamEvents env r spyChan (turns ctx) b of
            (body, b) \<Rightarrow>
              respond 200 (''data: '' @ Marshal (strings [(''status'', ''connected''), (''topic'', topic)]) @ line_break @ line_break @ body)
                (s\<lparr>broker := RemoveSpy topic spyChan b\<rparr>)))"

record queue_publish =
  qQueue :: string
  qPayload :: string
  qTTL :: string
  qDelay :: string
  qBroadcast :: bool

definition queueField :: "string \<Rightarrow> json \<Rightarrow> queue_publish \<Rightarrow> queue_publish option" where
  "queueField k v x =
     (if k = ''QUEUE'' then asStr v (\<lambda>a x. x\<lparr>qQueue := a\<rparr>) x
      else if k = ''PAYLOAD'' then asStr v (\<lambda>a x. x\<lparr>qPayload := a\<rparr>) x
      else if k = ''TTL'' then asStr v (\<lambda>a x. x\<lparr>qTTL := a\<rparr>) x
      else if k = ''DELAY'' then asStr v (\<lambda>a x. x\<lparr>qDelay := a\<rparr>) x
      else if k = ''BROADCAST'' then asBool v (\<lambda>a x. x\<lparr>qBroadcast := a\<rparr>) x else Some x)"

definition emptyQueuePublish :: queue_publish where
  "emptyQueuePublish = \<lparr>qQueue = [], qPayload = [], qTTL = [], qDelay = [], qBroadcast = False\<rparr>"

definition handleQueuePublish :: "request_ctx \<Rightarrow> handler" where
  "handleQueuePublish ctx r s =
     (case Option.bind (Decode (limitedBody r)) (\<lambda>j. decodeStruct queueField j emptyQueuePublish) of
        None \<Rightarrow> fail ''Invalid payload'' 400 s
      | Some q \<Rightarrow>
         (if qQueue q = [] then fail ''Invalid payload'' 400 s
          else
            bind_run
              (Publish (now ctx) (qQueue q)
                 \<lparr>pPayload = bytesOf (qPayload q), pHeaders = [], pPriority = ''normal'', pExpiresAt = instantAfter (now ctx) (qTTL q),
                  pDeliverAt = instantAfter (now ctx) (qDelay q), pBroadcast = qBroadcast q, pReplication = False\<rparr> (broker s))
              (\<lambda>(err, b). case err of
                 Some e \<Rightarrow> fail e 429 (s\<lparr>broker := b\<rparr>)
               | None \<Rightarrow> respond 202 (encode (strings [(''queue'', qQueue q), (''status'', ''accepted'')])) (s\<lparr>broker := b\<rparr>))))"

definition queueNameField :: "string \<Rightarrow> json \<Rightarrow> string \<Rightarrow> string option" where
  "queueNameField k v x = (if k = ''QUEUE'' then asStr v (\<lambda>a _. a) x else Some x)"

definition handleQueueConsume :: "rest_env \<Rightarrow> request_ctx \<Rightarrow> handler" where
  "handleQueueConsume env ctx r s =
     (case Option.bind (Decode (str (Body r))) (\<lambda>j. decodeStruct queueNameField j []) of
        None \<Rightarrow> fail ''Invalid payload'' 400 s
      | Some queue \<Rightarrow>
         (if queue = [] then fail ''Invalid payload'' 400 s
          else
            (case newChan 1 (broker s) of
               (notifyChan, b) \<Rightarrow>
                 (case Consume (now ctx) queue 1 notifyChan b of
                    ((msgs, ok), b) \<Rightarrow>
                      (if \<not> ok \<or> msgs = [] then respond 204 [] (s\<lparr>broker := b\<rparr>)
                       else respond 200 (encode (messageJSON (timeText env) (hd msgs)))
                              (s\<lparr>broker := snd (Ack (now ctx) queue (ID (hd msgs)) b)\<rparr>))))))"

definition handleQueuePeek :: "rest_env \<Rightarrow> handler" where
  "handleQueuePeek env r s =
     (let limit = (if Query_Get r ''limit'' = [] then 10
                   else case Atoi (Query_Get r ''limit'') of Some n \<Rightarrow> if n > 0 then n else 10 | None \<Rightarrow> 10) in
      respond 200 (encode (JArr (map (messageJSON (timeText env)) (Peek (Query_Get r ''queue'') limit (broker s))))) s)"

definition handleQueuePurge :: handler where
  "handleQueuePurge r s =
     (case Purge (Query_Get r ''queue'') (broker s) of
        (Some e, b) \<Rightarrow> fail e 404 (s\<lparr>broker := b\<rparr>)
      | (None, b) \<Rightarrow> respond 200 [] (s\<lparr>broker := b\<rparr>))"

definition handleQueueDelete :: handler where
  "handleQueueDelete r s =
     (case DeleteTopic (Query_Get r ''queue'') (broker s) of
        (Some e, b) \<Rightarrow> fail e 404 (s\<lparr>broker := b\<rparr>)
      | (None, b) \<Rightarrow> respond 200 [] (s\<lparr>broker := b\<rparr>))"

definition groupField :: "string \<Rightarrow> json \<Rightarrow> string \<times> string \<Rightarrow> (string \<times> string) option" where
  "groupField k v x =
     (if k = ''TOPIC'' then asStr v (\<lambda>t (_, g). (t, g)) x else if k = ''GROUP'' then asStr v (\<lambda>g (t, _). (t, g)) x else Some x)"

definition handleGroups :: handler where
  "handleGroups r s =
     (if Method r = ''GET'' then
        (let topic = Query_Get r ''topic'' in
         if topic = [] then fail ''topic query parameter is required'' 400 s
         else respond 200 (encode (JObj [(''groups'', JArr (map JStr (GetGroups topic (broker s)))), (''topic'', JStr topic)])) s)
      else if Method r = ''POST'' then
        (case Option.bind (Decode (str (Body r))) (\<lambda>j. decodeStruct groupField j ([], [])) of
           None \<Rightarrow> fail ''invalid JSON body'' 400 s
         | Some (topic, grp) \<Rightarrow>
            (if topic = [] \<or> grp = [] then fail ''topic and group are required'' 400 s
             else case CreateGroup topic grp (broker s) of
               (Inl e, b) \<Rightarrow> fail e 400 (s\<lparr>broker := b\<rparr>)
             | (Inr vt, b) \<Rightarrow> respond 201 (encode (strings [(''status'', ''created''), (''virtual_topic'', vt)])) (s\<lparr>broker := b\<rparr>)))
      else fail ''Method not allowed'' 405 s)"

definition handleGetWebhooks :: handler where
  "handleGetWebhooks r s = respond 200 (encode (JArr (map JStr (GetWebhooks (Query_Get r ''queue'') (broker s))))) s"

definition handleQueueRedrive :: "request_ctx \<Rightarrow> handler" where
  "handleQueueRedrive ctx r s =
     (if Method r \<noteq> ''POST'' then fail ''Method not allowed'' 405 s
      else if Query_Get r ''queue'' = [] then fail ''Queue parameter required'' 400 s
      else
        bind_run (RedriveDLQ (now ctx) (Query_Get r ''queue'') (broker s))
          (\<lambda>((redriven, err), b). case err of
             Some e \<Rightarrow> fail e 404 (s\<lparr>broker := b\<rparr>)
           | None \<Rightarrow> respond 200 (encode (JObj [(''redriven_messages'', JNum (Itoa redriven)), (''status'', JStr ''success'')])) (s\<lparr>broker := b\<rparr>)))"

subsection \<open>Health\<close>

definition handleHealthz :: "rest_env \<Rightarrow> request_ctx \<Rightarrow> handler" where
  "handleHealthz env ctx r s =
     (let uptime = (''uptime_seconds'', JNum (Itoa ((now ctx - startTime env) div 1000000000))); vsn = (''version'', JStr (version env)) in
      case clusterNode s of
        None \<Rightarrow> respond 200 (encode (JObj [(''status'', JStr ''ok''), uptime, vsn])) s
      | Some n \<Rightarrow>
         (let electing = (RoleString n \<noteq> ''leader'' \<and> GetLeaderHTTP (clusterEnv env) n = []) in
          respond (if electing then 503 else 200)
            (encode (JObj [(''cluster_role'', JStr (RoleString n)), (''cluster_term'', JNum (Itoa (CurrentTerm n))),
                           (''status'', JStr (if electing then ''electing'' else ''ok'')), uptime, vsn])) s))"

definition handleClusterStatus :: "rest_env \<Rightarrow> handler" where
  "handleClusterStatus env r s =
     (case clusterNode s of
        None \<Rightarrow> respond 200 (encode (JObj [(''clustering_enabled'', JBool False)])) s
      | Some n \<Rightarrow>
          respond 200
            (encode (JObj [(''clustering_enabled'', JBool True), (''leader_http'', JStr (GetLeaderHTTP (clusterEnv env) n)),
               (''peers'', JArr (map (\<lambda>(a, alive, seen). JObj [(''address'', JStr a), (''alive'', JBool alive), (''last_seen'', JStr (fmtTime (timeText env) seen))])
                                   (GetPeersSnapshot n))),
               (''role'', JStr (RoleString n)), (''term'', JNum (Itoa (CurrentTerm n)))])) s)"

definition handleWS :: "rest_env \<Rightarrow> request_ctx \<Rightarrow> handler" where
  "handleWS env ctx r s =
     (case HandleWS (sha1 env) (hijacking ctx) r of
        Inl resp \<Rightarrow> Ret (resp, s)
      | Inr text \<Rightarrow> respond 101 text (s\<lparr>wsClients := AddClient (connId ctx) (wsClients s)\<rparr>))"

definition cleanSegment :: "string \<Rightarrow> string list \<Rightarrow> string list" where
  "cleanSegment seg acc = (if seg = [] \<or> seg = ''.'' then acc else if seg = ''..'' then butlast acc else acc @ [seg])"

text \<open>
  \<^verbatim>\<open>http.FileServerFS\<close> on the files of an embedded directory: a file, the list of a directory, or a
  redirect that puts the final slash right.
\<close>

definition FileServerFS :: "(string, string) gomap \<Rightarrow> (string \<Rightarrow> string) \<Rightarrow> string \<Rightarrow> http_response" where
  "FileServerFS files listing upath =
     (let name = Join (fold cleanSegment (Split upath ''/'') []) ''/''; slash = HasSuffix (''/'' @ upath) ''/'' in
      if HasSuffix (''/'' @ upath) ''/index.html'' then \<lparr>Status = 301, RespBody = []\<rparr>
      else case mget files name of
        Some content \<Rightarrow> if slash then \<lparr>Status = 301, RespBody = []\<rparr> else \<lparr>Status = 200, RespBody = content\<rparr>
      | None \<Rightarrow>
         (if name = [] \<or> list_ex (\<lambda>f. HasPrefix f (name @ ''/'')) (mkeys files)
          then (if slash then \<lparr>Status = 200, RespBody = listing name\<rparr> else \<lparr>Status = 301, RespBody = []\<rparr>)
          else Error ''404 page not found'' 404))"

definition handleStatic :: "rest_env \<Rightarrow> handler" where
  "handleStatic env r s = Ret (FileServerFS (staticFS env) (dirList env) (TrimPrefix (Path r) ''/static/''), s)"

subsection \<open>Routes\<close>

definition handleQueues :: "rest_env \<Rightarrow> handler" where
  "handleQueues env r s =
     (if Method r = ''GET'' then handleListQueues r s
      else if Method r = ''POST'' then leaderProxy env (handleCreateTopic env) r s
      else fail ''Method not allowed'' 405 s)"

definition handleGroupsProxied :: "rest_env \<Rightarrow> handler" where
  "handleGroupsProxied env r s = (if Method r = ''POST'' then leaderProxy env handleGroups r s else handleGroups r s)"

text \<open>The handlers behind the proxy and the authentication, and those behind the authentication only.\<close>

definition proxiedRoutes :: "rest_env \<Rightarrow> request_ctx \<Rightarrow> (string \<times> handler) list" where
  "proxiedRoutes env ctx =
     [(''/publish/'', handlePublish env ctx), (''/consume/'', handleConsume env ctx), (''/ack/'', handleAck ctx),
      (''/requeue'', handleRequeue env ctx), (''/webhook/'', handleRegisterWebhook env), (''/api/topics'', handleCreateTopic env),
      (''/stream/'', handleStream env ctx), (''/api/queues/publish'', handleQueuePublish ctx),
      (''/api/queues/consume'', handleQueueConsume env ctx), (''/api/queues/peek'', handleQueuePeek env),
      (''/api/queues/purge'', handleQueuePurge), (''/api/queues/delete'', handleQueueDelete),
      (''/api/queues/redrive'', handleQueueRedrive ctx), (''/api/queues/webhooks'', handleGetWebhooks), (''/ws'', handleWS env ctx)]"

definition localRoutes :: "rest_env \<Rightarrow> (string \<times> handler) list" where
  "localRoutes env =
     [(''/dashboard'', handleDashboard env), (''/static/'', handleStatic env), (''/metrics'', handleMetrics), (''/api/stats'', handleStats),
      (''/api/queues'', handleQueues env), (''/api/cluster/status'', handleClusterStatus env), (''/api/drain'', handleDrain),
      (''/api/groups'', handleGroupsProxied env)]"

definition routes :: "rest_env \<Rightarrow> request_ctx \<Rightarrow> (string \<times> handler) list" where
  "routes env ctx =
     (''/healthz'', handleHealthz env ctx)
     # map (\<lambda>(p, h). (p, leaderProxy env (withAuth env ctx h))) (proxiedRoutes env ctx)
     @ map (\<lambda>(p, h). (p, withAuth env ctx h)) (localRoutes env)"

text \<open>
  \<^verbatim>\<open>http.ServeMux\<close>: a pattern that ends in a slash stands for the paths below it. A path that is not
  clean is redirected, and so is one that lacks only the final slash of a pattern.
\<close>

definition pathMatches :: "string \<Rightarrow> string \<Rightarrow> bool" where
  "pathMatches pattern path = (if HasSuffix pattern ''/'' then HasPrefix path pattern else path = pattern)"

definition cleanPath :: "string \<Rightarrow> string" where
  "cleanPath p =
     (let np = ''/'' @ Join (fold cleanSegment (Split p ''/'') []) ''/'' in
      if HasSuffix p ''/'' \<and> np \<noteq> ''/'' then np @ ''/'' else np)"

definition findRoute :: "(string \<times> handler) list \<Rightarrow> string \<Rightarrow> handler option" where
  "findRoute rs path = map_option snd (find (\<lambda>(p, h). pathMatches p path) rs)"

definition serveMux :: "(string \<times> handler) list \<Rightarrow> handler" where
  "serveMux rs r s =
     (case findRoute rs (cleanPath (Path r)) of
        None \<Rightarrow>
          (if list_ex (\<lambda>(p, h). p = cleanPath (Path r) @ ''/'') rs
           then respond 301 (cleanPath (Path r) @ ''/'') s
           else if cleanPath (Path r) \<noteq> Path r then respond 301 (cleanPath (Path r)) s
           else fail ''404 page not found'' 404 s)
      | Some h \<Rightarrow> if cleanPath (Path r) \<noteq> Path r then respond 301 (cleanPath (Path r)) s else h r s)"

definition NewServer :: "Broker \<Rightarrow> Node option \<Rightarrow> rat \<Rightarrow> Server" where
  "NewServer b c rt =
     \<lparr>broker = b, clusterNode = c, rateLimiter = (if rt > 0 then Some (newIPRateLimiter rt) else None), inFlight = 0,
      draining = False, wsClients = []\<rparr>"

definition ServeHTTP :: "rest_env \<Rightarrow> request_ctx \<Rightarrow> handler" where
  "ServeHTTP env ctx = trackInFlight (serveMux (routes env ctx))"

end
