(* ===== verification/Url.thy ===== *)
theory Url
  imports Http "HOL-Library.List_Lexorder" "HOL-Library.Char_ord"
begin

text \<open>
  What the clients use of \<^verbatim>\<open>net/url\<close>: escaping the segments of a path, encoding a query, and reading the
  target of a request.
\<close>

definition pathUnreserved :: "char \<Rightarrow> bool" where
  "pathUnreserved c \<longleftrightarrow> unreserved c \<or> c \<in> set ''$&+=:@''"

definition percent :: "char \<Rightarrow> string" where
  "percent c = [CHR ''%'', upper_hex (ord c div 16), upper_hex (ord c mod 16)]"

definition PathEscape :: "string \<Rightarrow> string" where
  "PathEscape s = concat (map (\<lambda>c. if pathUnreserved c then [c] else percent c) s)"

fun pathUnescape :: "string \<Rightarrow> string option" where
  "pathUnescape [] = Some []"
| "pathUnescape (c # r) =
     (if c = CHR ''%''
      then (case r of
              a # b # r' \<Rightarrow>
                (case (hexval a, hexval b) of
                   (Some x, Some y) \<Rightarrow> map_option ((#) (char_of (16 * x + y))) (pathUnescape r')
                 | _ \<Rightarrow> None)
            | _ \<Rightarrow> None)
      else map_option ((#) c) (pathUnescape r))"

definition control :: "char \<Rightarrow> bool" where
  "control c \<longleftrightarrow> ord c < 0x20 \<or> ord c = 0x7F"

text \<open>
  The path and the raw query of a request to an address that ends in the given text, which starts with a
  slash; \<^const>\<open>None\<close> when the address cannot be parsed. The fragment is not sent.
\<close>

definition parseTarget :: "string \<Rightarrow> (string \<times> string) option" where
  "parseTarget target =
     (case (case Cut target ''#'' of None \<Rightarrow> (target, []) | Some x \<Rightarrow> x) of
        (u, fragment) \<Rightarrow>
          (if list_ex control u \<or> pathUnescape fragment = None then None
           else case (case Cut u ''?'' of None \<Rightarrow> (u, []) | Some x \<Rightarrow> x) of
             (path, query) \<Rightarrow> map_option (\<lambda>p. (p, query)) (pathUnescape path)))"

text \<open>\<^verbatim>\<open>Values.Set\<close> and \<^verbatim>\<open>Values.Encode\<close>.\<close>

definition Values_Set :: "string \<Rightarrow> string \<Rightarrow> (string \<times> string) list \<Rightarrow> (string \<times> string) list" where
  "Values_Set k v q = filter (\<lambda>(k', _). k' \<noteq> k) q @ [(k, v)]"

definition Values_Encode :: "(string \<times> string) list \<Rightarrow> string" where
  "Values_Encode q = Join (map (\<lambda>(k, v). QueryEscape k @ ''='' @ QueryEscape v) (sort_key fst q)) ''&''"

subsection \<open>Reading back\<close>

lemma pathUnescape_char: "pathUnescape (percent c @ r) = map_option ((#) c) (pathUnescape r)"
proof -
  have "hexval (upper_hex (ord c div 16)) = Some (ord c div 16)" "hexval (upper_hex (ord c mod 16)) = Some (ord c mod 16)"
    using ord_bound [of c] by (auto intro!: hexval_upper)
  then show ?thesis by (simp add: percent_def)
qed

lemma pathUnescape_PathEscape [simp]: "pathUnescape (PathEscape s) = Some s"
proof (induction s)
  case (Cons c s)
  have "pathUnreserved c \<Longrightarrow> c \<noteq> CHR ''%''" by (auto simp: pathUnreserved_def unreserved_def letter_def ord_def)
  with Cons show ?case by (simp add: PathEscape_def pathUnescape_char)
qed (simp add: PathEscape_def)

lemma pathUnescape_plain: "CHR ''%'' \<notin> set s \<Longrightarrow> pathUnescape s = Some s"
  by (induction s) auto

lemma pathUnescape_append: "CHR ''%'' \<notin> set s \<Longrightarrow> pathUnescape (s @ t) = map_option ((@) s) (pathUnescape t)"
proof (induction s)
  case Nil
  show ?case by (cases "pathUnescape t") simp_all
next
  case (Cons c s)
  then have "c \<noteq> CHR ''%''" "pathUnescape (s @ t) = map_option ((@) s) (pathUnescape t)" by auto
  then show ?case by (cases "pathUnescape t") simp_all
qed

text \<open>An escaped text has only letters, digits and a few marks.\<close>

definition escape_set :: "char \<Rightarrow> bool" where
  "escape_set c \<longleftrightarrow> letter 65 c \<or> letter 97 c \<or> (48 \<le> ord c \<and> ord c \<le> 57) \<or> c \<in> set ''-_.~+%''"

lemma upper_hex_set: "n < 16 \<Longrightarrow> escape_set (upper_hex n)"
proof -
  assume "n < 16"
  then have "n \<in> set [0..<16]" by simp
  moreover have "list_all (\<lambda>n. escape_set (upper_hex n)) [0..<16]" by code_simp
  ultimately show ?thesis unfolding list_all_iff by blast
qed

lemma QueryEscape_set: "list_all escape_set (QueryEscape s)"
proof -
  have "escape_set (upper_hex (ord c div 16))" "escape_set (upper_hex (ord c mod 16))" for c
    using ord_bound [of c] by (auto intro!: upper_hex_set)
  moreover have "escape_set (CHR ''%'')" "escape_set (CHR ''+'')" by code_simp+
  ultimately have "list_all escape_set (escape_char c)" for c
    by (auto simp: escape_char_def unreserved_def escape_set_def)
  then show ?thesis by (induction s) (simp_all add: QueryEscape_def)
qed

lemma escape_set_not: "escape_set c \<Longrightarrow> c \<noteq> CHR ''&'' \<and> c \<noteq> CHR ''='' \<and> c \<noteq> CHR '';'' \<and> c \<noteq> CHR ''#'' \<and> c \<noteq> CHR ''?''"
  by (auto simp: escape_set_def letter_def ord_def)

lemma QueryEscape_not:
  "CHR ''&'' \<notin> set (QueryEscape s)" "CHR ''='' \<notin> set (QueryEscape s)" "CHR '';'' \<notin> set (QueryEscape s)"
  using QueryEscape_set [of s] escape_set_not by (auto simp: list_all_iff)

lemma query_pair_escaped: "query_pair (QueryEscape k @ ''='' @ QueryEscape v) = Some (k, v)"
  using QueryEscape_not Cut_char [of "CHR ''=''" "QueryEscape k" "QueryEscape v"] by (simp add: query_pair_def)

definition query_text :: "string \<times> string \<Rightarrow> string" where
  "query_text = (\<lambda>(k, v). QueryEscape k @ ''='' @ QueryEscape v)"

lemma ParseQuery_pairs:
  assumes "q \<noteq> []"
  shows "ParseQuery (Join (map query_text q) ''&'') = q"
proof -
  have "\<forall>f \<in> set (map query_text q). CHR ''&'' \<notin> set f" using QueryEscape_not by (auto simp: query_text_def)
  then have "Split (Join (map query_text q) ''&'') ''&'' = map query_text q" using assms by (intro Split_Join_char) simp_all
  moreover have "List.map_filter query_pair (map query_text xs) = xs" for xs
    by (induction xs) (auto simp: query_text_def query_pair_escaped [simplified])
  ultimately show ?thesis by (simp add: ParseQuery_def)
qed

lemma ParseQuery_Encode: "ParseQuery (Values_Encode q) = sort_key fst q"
proof (cases "q = []")
  case True
  have "Split [] ''&'' = [[]]" by (rule Split_char_nosep) simp
  with True show ?thesis by (simp add: ParseQuery_def Values_Encode_def query_pair_def)
next
  case False
  then have "sort_key fst q \<noteq> []" using set_sort [of fst q] by (metis set_empty)
  from ParseQuery_pairs [OF this] show ?thesis by (simp add: Values_Encode_def query_text_def)
qed

lemma map_of_only: "map_of q k = map_of (filter (\<lambda>x. fst x = k) q) k"
  by (induction q) auto

lemma map_of_sort_key: "map_of (sort_key fst q) k = map_of q k"
  using map_of_only [of "sort_key fst q" k] map_of_only [of q k] sort_key_stable [of fst k q] by simp

text \<open>Targets without marks in their path, and with or without a query.\<close>

definition plain_char :: "char \<Rightarrow> bool" where
  "plain_char c \<longleftrightarrow> c \<noteq> CHR ''#'' \<and> c \<noteq> CHR ''?'' \<and> c \<noteq> CHR ''%'' \<and> \<not> control c"

lemma parseTarget_plain: "list_all plain_char p \<Longrightarrow> parseTarget p = Some (p, [])"
proof -
  assume p: "list_all plain_char p"
  then have "CHR ''#'' \<notin> set p" "CHR ''?'' \<notin> set p" "CHR ''%'' \<notin> set p" "\<not> list_ex control p"
    by (auto simp: list_all_iff list_ex_iff plain_char_def)
  then show ?thesis by (simp add: parseTarget_def Cut_char_None pathUnescape_plain)
qed

lemma parseTarget_query:
  assumes "list_all plain_char p" and "\<forall>c \<in> set q. c \<noteq> CHR ''#'' \<and> \<not> control c"
  shows "parseTarget (p @ ''?'' @ q) = Some (p, q)"
proof -
  have "CHR ''#'' \<notin> set (p @ ''?'' @ q)" "CHR ''?'' \<notin> set p" "CHR ''%'' \<notin> set p" "\<not> list_ex control (p @ ''?'' @ q)"
    using assms by (auto simp: list_all_iff list_ex_iff plain_char_def control_def ord_def)
  moreover from this have "Cut (p @ ''?'' @ q) ''?'' = Some (p, q)" using Cut_char by simp
  ultimately show ?thesis by (simp add: parseTarget_def Cut_char_None pathUnescape_plain)
qed

lemma escape_set_plain: "escape_set c \<Longrightarrow> c \<noteq> CHR ''#'' \<and> \<not> control c"
  by (auto simp: escape_set_def letter_def control_def ord_def)

end
