(* ===== verification/Client.thy ===== *)
theory Client
  imports DurationText Rest Url
begin

text \<open>
  The HTTP client library, \<^verbatim>\<open>client/client.go\<close>. What \<^verbatim>\<open>http.Client.Do\<close> does with a request is a parameter: it
  gets the server's origin and the request and returns a response or an error, in a state that stands for the
  world. The base address is the origin (scheme, host and port) followed by a path prefix, both
  already in the form in which \<^verbatim>\<open>net/url\<close> prints them. The texts of the errors of \<^verbatim>\<open>net/url\<close> and
  \<^verbatim>\<open>encoding/json\<close> are not modelled.
\<close>

record Client =
  sdkOrigin :: string
  sdkPrefix :: string
  sdkKey :: string

record PublishOptions =
  optTTL :: time
  optDelay :: time
  optBroadcast :: bool
  optPriority :: string
  optIdempotency :: string
  optHeaders :: "(string, string) gomap"

record SubscriptionOptions =
  optTimeout :: string
  optGroup :: string

type_synonym 's transport = "string \<Rightarrow> http_request \<Rightarrow> 's \<Rightarrow> http_response result \<times> 's"

definition urlError :: error where
  "urlError = ''invalid URL''"

definition jsonError :: error where
  "jsonError = ''invalid JSON''"

definition NewClient :: "string \<Rightarrow> string \<Rightarrow> string list \<Rightarrow> Client" where
  "NewClient origin path keys = \<lparr>sdkOrigin = origin, sdkPrefix = path, sdkKey = (case keys of [] \<Rightarrow> [] | k # _ \<Rightarrow> k)\<rparr>"

definition client_req :: "Client \<Rightarrow> string \<Rightarrow> string \<Rightarrow> bytes \<Rightarrow> http_request option" where
  "client_req c method endpoint body =
     map_option (\<lambda>(path, query).
       \<lparr>Method = method, Path = path, RawQuery = query,
        Header = (if sdkKey c \<noteq> [] then [(''Authorization'', [''Bearer '' @ sdkKey c])] else []), Body = body, RemoteAddr = []\<rparr>)
     (parseTarget (sdkPrefix c @ endpoint))"

text \<open>A request is sent and the answer is an error unless its status is accepted.\<close>

definition statusError :: "string \<Rightarrow> http_response \<Rightarrow> error" where
  "statusError what resp = what @ '' (status '' @ Itoa (Status resp) @ ''): '' @ RespBody resp"

definition transact :: "'s transport \<Rightarrow> Client \<Rightarrow> string \<Rightarrow> (int \<Rightarrow> bool) \<Rightarrow> http_request option \<Rightarrow> 's \<Rightarrow> string result \<times> 's" where
  "transact do c what accepted req s =
     (case req of
        None \<Rightarrow> (Inl urlError, s)
      | Some r \<Rightarrow>
         (case do (sdkOrigin c) r s of
            (Inl e, s) \<Rightarrow> (Inl e, s)
          | (Inr resp, s) \<Rightarrow> (if accepted (Status resp) then Inr (RespBody resp) else Inl (statusError what resp), s)))"

subsection \<open>Publishing\<close>

definition publishQuery :: "PublishOptions option \<Rightarrow> (string \<times> string) list \<Rightarrow> (string \<times> string) list" where
  "publishQuery opts q =
     (case opts of
        None \<Rightarrow> q
      | Some opts \<Rightarrow>
         (let q = (if optTTL opts > 0 then Values_Set ''ttl'' (duration_String (optTTL opts)) q else q);
              q = (if optDelay opts > 0 then Values_Set ''delay'' (duration_String (optDelay opts)) q else q);
              q = (if optBroadcast opts then Values_Set ''broadcast'' ''true'' q else q)
          in if optPriority opts \<noteq> [] then Values_Set ''priority'' (optPriority opts) q else q))"

definition publishHeaders :: "PublishOptions option \<Rightarrow> (string, string list) gomap" where
  "publishHeaders opts =
     (let headers = [(''Content-Type'', [''application/json''])] in
      case opts of
        None \<Rightarrow> headers
      | Some opts \<Rightarrow>
         (let headers = (if optIdempotency opts \<noteq> [] then mput ''Idempotency-Key'' [optIdempotency opts] headers else headers)
          in fold (\<lambda>(k, v). mput (CanonicalMIMEHeaderKey k) [v]) (optHeaders opts) headers))"

text \<open>The address is parsed, its query extended, printed and parsed again.\<close>

definition client_publishRequest :: "Client \<Rightarrow> string \<Rightarrow> bytes \<Rightarrow> PublishOptions option \<Rightarrow> http_request option" where
  "client_publishRequest c topic payload opts =
     map_option (\<lambda>r. r\<lparr>RawQuery := Values_Encode (publishQuery opts (ParseQuery (RawQuery r))),
       Header := fold (\<lambda>(k, v). mput k v) (publishHeaders opts) (Header r)\<rparr>)
     (client_req c ''POST'' (''/publish/'' @ topic) payload)"

definition client_Publish ::
  "'s transport \<Rightarrow> Client \<Rightarrow> string \<Rightarrow> bytes \<Rightarrow> PublishOptions option \<Rightarrow> 's \<Rightarrow> error option \<times> 's" where
  "client_Publish do c topic payload opts s =
     (case transact do c ''publish failed'' (\<lambda>code. code < 400) (client_publishRequest c topic payload opts) s of
        (Inl e, s) \<Rightarrow> (Some e, s)
      | (Inr _, s) \<Rightarrow> (None, s))"

subsection \<open>Consuming\<close>

definition decodeMessages :: "time_text \<Rightarrow> json \<Rightarrow> message list option" where
  "decodeMessages tt j = (case j of JNull \<Rightarrow> Some [] | JArr js \<Rightarrow> those (map (decodeMessage tt) js) | _ \<Rightarrow> None)"

definition decodeBody :: "(json \<Rightarrow> 'a option) \<Rightarrow> string \<Rightarrow> 'a result" where
  "decodeBody f body = (case Option.bind (Decode body) f of None \<Rightarrow> Inl jsonError | Some x \<Rightarrow> Inr x)"

definition subscribeEndpoint :: "string \<Rightarrow> SubscriptionOptions option \<Rightarrow> string" where
  "subscribeEndpoint topic opts =
     ''/consume/'' @ topic @ ''?auto_ack=true'' @
     (case opts of
        None \<Rightarrow> []
      | Some opts \<Rightarrow>
          (if optTimeout opts \<noteq> [] then ''&timeout='' @ optTimeout opts else []) @
          (if optGroup opts \<noteq> [] then ''&group='' @ optGroup opts else []))"

definition client_Subscribe ::
  "'s transport \<Rightarrow> time_text \<Rightarrow> Client \<Rightarrow> string \<Rightarrow> SubscriptionOptions option \<Rightarrow> 's \<Rightarrow> message list result \<times> 's" where
  "client_Subscribe do tt c topic opts s =
     (case transact do c ''subscribe failed'' (\<lambda>code. code < 400) (client_req c ''GET'' (subscribeEndpoint topic opts) []) s of
        (Inl e, s) \<Rightarrow> (Inl e, s)
      | (Inr body, s) \<Rightarrow> (if skip_ws body = [] then Inr [] else decodeBody (decodeMessages tt) body, s))"

definition client_Peek :: "'s transport \<Rightarrow> time_text \<Rightarrow> Client \<Rightarrow> string \<Rightarrow> int \<Rightarrow> 's \<Rightarrow> message list result \<times> 's" where
  "client_Peek do tt c topic limit s =
     (case transact do c ''peek failed'' (\<lambda>code. code = 200)
         (client_req c ''GET'' (''/api/queues/peek?queue='' @ QueryEscape topic @ ''&limit='' @ Itoa limit) []) s of
        (Inl e, s) \<Rightarrow> (Inl e, s)
      | (Inr body, s) \<Rightarrow> (decodeBody (decodeMessages tt) body, s))"

subsection \<open>Topics, groups and the cluster\<close>

definition jsonPost :: "Client \<Rightarrow> string \<Rightarrow> json \<Rightarrow> http_request option" where
  "jsonPost c endpoint j =
     map_option (\<lambda>r. r\<lparr>Header := mput ''Content-Type'' [''application/json''] (Header r)\<rparr>)
     (client_req c ''POST'' endpoint (bytesOf (Marshal j)))"

definition client_CreateTopic :: "'s transport \<Rightarrow> Client \<Rightarrow> string \<Rightarrow> string \<Rightarrow> time \<Rightarrow> 's \<Rightarrow> error option \<times> 's" where
  "client_CreateTopic do c topic policy retain s =
     (case transact do c ''failed to create topic'' (\<lambda>code. code < 400)
         (jsonPost c ''/api/topics'' (JObj ([(''name'', JStr topic), (''policy'', JStr policy)]
            @ omitempty ''retain'' (if retain > 0 then duration_String retain else [])))) s of
        (Inl e, s) \<Rightarrow> (Some e, s)
      | (Inr _, s) \<Rightarrow> (None, s))"

definition client_CreateGroup :: "'s transport \<Rightarrow> Client \<Rightarrow> string \<Rightarrow> string \<Rightarrow> 's \<Rightarrow> error option \<times> 's" where
  "client_CreateGroup do c topic grp s =
     (case transact do c ''failed to create group'' (\<lambda>code. code < 400)
         (jsonPost c ''/api/groups'' (JObj [(''topic'', JStr topic), (''group'', JStr grp)])) s of
        (Inl e, s) \<Rightarrow> (Some e, s)
      | (Inr _, s) \<Rightarrow> (None, s))"

text \<open>The values of the status stay JSON values.\<close>

definition decodeObject :: "json \<Rightarrow> (string, json) gomap option" where
  "decodeObject j = (case j of JNull \<Rightarrow> Some [] | JObj kvs \<Rightarrow> Some (fold (\<lambda>(k, v). mput k v) kvs []) | _ \<Rightarrow> None)"

definition client_ClusterStatus :: "'s transport \<Rightarrow> Client \<Rightarrow> 's \<Rightarrow> (string, json) gomap result \<times> 's" where
  "client_ClusterStatus do c s =
     (case transact do c ''cluster status failed'' (\<lambda>code. code = 200) (client_req c ''GET'' ''/api/cluster/status'' []) s of
        (Inl e, s) \<Rightarrow> (Inl e, s)
      | (Inr body, s) \<Rightarrow> (decodeBody decodeObject body, s))"

end
