(* ===== verification/Cli.thy ===== *)
theory Cli
  imports Client
begin

text \<open>
  The command line tool, \<^verbatim>\<open>cmd/tmq\<close>: its flags, the requests of the commands and what they make of the answers.
  What a command prints is a value of the type \<open>outcome\<close>, with one constructor for each message; the colours,
  the layout of tables and the wording are left out. Parsing an integer flag (\<^verbatim>\<open>strconv.ParseInt\<close> with base 0)
  is a parameter, as is the transport. Where the tool ignores an error of the JSON decoder, what the decoder had stored
  before the error is left out.
\<close>

subsection \<open>Flags\<close>

datatype flag_kind = BoolFlag | IntFlag | StringFlag

definition ParseBool :: "string \<Rightarrow> bool option" where
  "ParseBool s =
     (if s \<in> {''1'', ''t'', ''T'', ''true'', ''TRUE'', ''True''} then Some True
      else if s \<in> {''0'', ''f'', ''F'', ''false'', ''FALSE'', ''False''} then Some False else None)"

definition flagOk :: "(string \<Rightarrow> int option) \<Rightarrow> flag_kind \<Rightarrow> string \<Rightarrow> bool" where
  "flagOk parseInt kind v \<longleftrightarrow>
     (case kind of BoolFlag \<Rightarrow> ParseBool v \<noteq> None | IntFlag \<Rightarrow> parseInt v \<noteq> None | StringFlag \<Rightarrow> True)"

text \<open>
  \<^verbatim>\<open>FlagSet.Parse\<close>: the values of the flags and the rest of the arguments, which begins at the first argument that is no
  flag; \<^const>\<open>None\<close> when the process exits with the usage.
\<close>

fun flagParse ::
  "(string \<Rightarrow> int option) \<Rightarrow> (string, flag_kind) gomap \<Rightarrow> string list \<Rightarrow> (string, string) gomap \<Rightarrow> ((string, string) gomap \<times> string list) option" where
  "flagParse parseInt known [] vals = Some (vals, [])"
| "flagParse parseInt known (s # args) vals =
     (if length s < 2 \<or> hd s \<noteq> CHR ''-'' then Some (vals, s # args)
      else if s = ''--'' then Some (vals, args)
      else
        (let name = (if s ! 1 = CHR ''-'' then drop 2 s else drop 1 s) in
         if name = [] \<or> hd name = CHR ''-'' \<or> hd name = CHR ''='' then None
         else
           (case (case Cut name ''='' of Some (n, v) \<Rightarrow> (n, Some v) | None \<Rightarrow> (name, None)) of
              (n, value) \<Rightarrow>
                (case (mget known n, value, args) of
                   (None, _, _) \<Rightarrow> None
                 | (Some kind, Some v, _) \<Rightarrow>
                     (if flagOk parseInt kind v then flagParse parseInt known args (mput n v vals) else None)
                 | (Some BoolFlag, None, _) \<Rightarrow> flagParse parseInt known args (mput n ''true'' vals)
                 | (Some kind, None, []) \<Rightarrow> None
                 | (Some kind, None, v # args') \<Rightarrow>
                     (if flagOk parseInt kind v then flagParse parseInt known args' (mput n v vals) else None)))))"

definition stringFlag :: "string \<Rightarrow> string \<Rightarrow> (string, string) gomap \<Rightarrow> string" where
  "stringFlag k dflt vals = (case mget vals k of None \<Rightarrow> dflt | Some v \<Rightarrow> v)"

definition boolFlag :: "string \<Rightarrow> bool \<Rightarrow> (string, string) gomap \<Rightarrow> bool" where
  "boolFlag k dflt vals = (case mget vals k of None \<Rightarrow> dflt | Some v \<Rightarrow> ParseBool v = Some True)"

definition intFlag :: "(string \<Rightarrow> int option) \<Rightarrow> string \<Rightarrow> int \<Rightarrow> (string, string) gomap \<Rightarrow> int" where
  "intFlag parseInt k dflt vals =
     (case mget vals k of None \<Rightarrow> dflt | Some v \<Rightarrow> (case parseInt v of Some n \<Rightarrow> n | None \<Rightarrow> dflt))"

subsection \<open>Requests and answers\<close>

record CLIMessage =
  cliID :: string
  cliTopic :: string
  cliPayload :: bytes
  cliTimestamp :: time
  cliRetryCount :: int

record ClusterPeer =
  peerAddress :: string
  peerAlive :: bool
  peerLastSeen :: time

record ClusterStatusResponse =
  ClusteringEnabled :: bool
  csRole :: string
  csTerm :: int
  csLeaderHTTP :: string
  csPeers :: "ClusterPeer list"

definition cliField :: "time_text \<Rightarrow> string \<Rightarrow> json \<Rightarrow> CLIMessage \<Rightarrow> CLIMessage option" where
  "cliField tt k v m =
     (if k = ''ID'' then asStr v (\<lambda>s m. m\<lparr>cliID := s\<rparr>) m
      else if k = ''TOPIC'' then asStr v (\<lambda>s m. m\<lparr>cliTopic := s\<rparr>) m
      else if k = ''PAYLOAD'' then map_option (\<lambda>p. m\<lparr>cliPayload := p\<rparr>) (asBytes v)
      else if k = ''TIMESTAMP'' then map_option (\<lambda>t. case t of None \<Rightarrow> m | Some t \<Rightarrow> m\<lparr>cliTimestamp := t\<rparr>) (asTime tt v None)
      else if k = ''RETRY_COUNT'' then asInt v (\<lambda>n m. m\<lparr>cliRetryCount := n\<rparr>) m
      else Some m)"

definition decodeCLI :: "time_text \<Rightarrow> json \<Rightarrow> CLIMessage option" where
  "decodeCLI tt j = decodeStruct (cliField tt) j \<lparr>cliID = [], cliTopic = [], cliPayload = [], cliTimestamp = 0, cliRetryCount = 0\<rparr>"

definition decodeSlice :: "(json \<Rightarrow> 'a option) \<Rightarrow> json \<Rightarrow> 'a list option" where
  "decodeSlice f j = (case j of JNull \<Rightarrow> Some [] | JArr js \<Rightarrow> those (map f js) | _ \<Rightarrow> None)"

definition parseMessagesPayload :: "time_text \<Rightarrow> string \<Rightarrow> CLIMessage list result" where
  "parseMessagesPayload tt body =
     (case Option.bind (Unmarshal body) (decodeSlice (decodeCLI tt)) of
        Some msgs \<Rightarrow> Inr msgs
      | None \<Rightarrow>
         (case Option.bind (Unmarshal body) (decodeCLI tt) of
            Some m \<Rightarrow> (if cliID m \<noteq> [] then Inr [m] else Inl ''incompatible JSON format'')
          | None \<Rightarrow> Inl ''incompatible JSON format''))"

definition DoAuthRequest :: "'s transport \<Rightarrow> Client \<Rightarrow> string \<Rightarrow> string \<Rightarrow> bytes option \<Rightarrow> 's \<Rightarrow> http_response result \<times> 's" where
  "DoAuthRequest do c method endpoint body s =
     (case parseTarget (sdkPrefix c @ endpoint) of
        None \<Rightarrow> (Inl urlError, s)
      | Some (path, query) \<Rightarrow>
          do (sdkOrigin c)
            \<lparr>Method = method, Path = path, RawQuery = query,
             Header = (case body of None \<Rightarrow> [] | Some _ \<Rightarrow> [(''Content-Type'', [''application/json''])])
               @ (if sdkKey c \<noteq> [] then [(''Authorization'', [''Bearer '' @ sdkKey c])] else []),
             Body = (case body of None \<Rightarrow> [] | Some b \<Rightarrow> b), RemoteAddr = []\<rparr> s)"

datatype outcome =
    OUsage
  | OExit
  | ONetwork error
  | OUnauthorized
  | OEmpty string
  | OBadJSON
  | OPublished string
  | ORejected int string
  | OMessages "CLIMessage list"
  | OPeeked string "CLIMessage list"
  | ONoTopics
  | OStats "TopicStat list"
  | OBadFlag
  | OCreated string string string
  | OError string
  | ORemoved string bool
  | OStatus int
  | OWebhooks string "string list"
  | OWebhookAdded
  | OGroups string "string list"
  | OGroupCreated string string
  | OInvalid
  | ORedriven string "json option"
  | ODrained string string
  | OStandalone
  | OCluster ClusterStatusResponse
  | OHelp

subsection \<open>Messages\<close>

definition HandlePublish :: "'s transport \<Rightarrow> (string \<Rightarrow> int option) \<Rightarrow> Client \<Rightarrow> string list \<Rightarrow> 's \<Rightarrow> outcome \<times> 's" where
  "HandlePublish do parseInt c args s =
     (case flagParse parseInt [(''ttl'', StringFlag), (''delay'', StringFlag), (''broadcast'', BoolFlag)] args [] of
        None \<Rightarrow> (OExit, s)
      | Some (vals, topic # payload # _) \<Rightarrow>
          (let params = (if stringFlag ''ttl'' [] vals \<noteq> [] then [(''ttl'', stringFlag ''ttl'' [] vals)] else [])
                 @ (if stringFlag ''delay'' [] vals \<noteq> [] then [(''delay'', stringFlag ''delay'' [] vals)] else [])
                 @ (if boolFlag ''broadcast'' False vals then [(''broadcast'', ''true'')] else [])
           in case DoAuthRequest do c ''POST'' (''/publish/'' @ PathEscape topic @ ''?'' @ Values_Encode params) (Some (bytesOf payload)) s of
             (Inl e, s) \<Rightarrow> (ONetwork e, s)
           | (Inr resp, s) \<Rightarrow>
               (if Status resp = 401 then OUnauthorized
                else if Status resp = 202 \<or> Status resp = 200 then OPublished topic
                else ORejected (Status resp) (RespBody resp), s))
      | Some _ \<Rightarrow> (OUsage, s))"

definition HandleConsume ::
  "'s transport \<Rightarrow> (string \<Rightarrow> int option) \<Rightarrow> time_text \<Rightarrow> Client \<Rightarrow> string list \<Rightarrow> 's \<Rightarrow> outcome \<times> 's" where
  "HandleConsume do parseInt tt c args s =
     (case flagParse parseInt [(''timeout'', StringFlag), (''limit'', IntFlag), (''auto-ack'', BoolFlag)] args [] of
        None \<Rightarrow> (OExit, s)
      | Some (vals, topic # _) \<Rightarrow>
          (let params = [(''timeout'', stringFlag ''timeout'' ''0s'' vals), (''limit'', Itoa (intFlag parseInt ''limit'' 1 vals)),
                 (''auto_ack'', if boolFlag ''auto-ack'' True vals then ''true'' else ''false'')]
           in case DoAuthRequest do c ''GET'' (''/consume/'' @ PathEscape topic @ ''?'' @ Values_Encode params) None s of
             (Inl e, s) \<Rightarrow> (ONetwork e, s)
           | (Inr resp, s) \<Rightarrow>
               (if Status resp = 401 then OUnauthorized
                else if Status resp = 404 then OEmpty topic
                else (case parseMessagesPayload tt (RespBody resp) of Inl _ \<Rightarrow> OBadJSON | Inr msgs \<Rightarrow> OMessages msgs), s))
      | Some _ \<Rightarrow> (OUsage, s))"

definition HandlePeek ::
  "'s transport \<Rightarrow> (string \<Rightarrow> int option) \<Rightarrow> time_text \<Rightarrow> Client \<Rightarrow> string list \<Rightarrow> 's \<Rightarrow> outcome \<times> 's" where
  "HandlePeek do parseInt tt c args s =
     (case flagParse parseInt [(''limit'', IntFlag)] args [] of
        None \<Rightarrow> (OExit, s)
      | Some (vals, topic # _) \<Rightarrow>
          (case DoAuthRequest do c ''GET'' (''/api/queues/peek?queue='' @ QueryEscape topic) None s of
             (Inl e, s) \<Rightarrow> (ONetwork e, s)
           | (Inr resp, s) \<Rightarrow>
               (if Status resp = 401 then OUnauthorized
                else (case Option.bind (Unmarshal (RespBody resp)) (decodeSlice (decodeCLI tt)) of
                   None \<Rightarrow> OBadJSON
                 | Some [] \<Rightarrow> OEmpty topic
                 | Some msgs \<Rightarrow> OPeeked topic (take (nat (intFlag parseInt ''limit'' 10 vals)) msgs)), s))
      | Some _ \<Rightarrow> (OUsage, s))"

text \<open>
  One line of \<^verbatim>\<open>tmq tail\<close>: the identifier's first eight bytes and the payload of the message it shows, if any.
  Slicing a shorter identifier panics.
\<close>

definition tailLine :: "time_text \<Rightarrow> string \<Rightarrow> (string \<times> bytes) option run" where
  "tailLine tt line =
     (if \<not> HasPrefix line ''data: '' then Ret None
      else
        (let data = TrimSpace (TrimPrefix line ''data: '') in
         if data = [] then Ret None
         else if (case Unmarshal data of Some (JObj kvs) \<Rightarrow> mget (fold (\<lambda>(k, v). mput k v) kvs []) ''status'' = Some (JStr ''connected'') | _ \<Rightarrow> False)
         then Ret None
         else
           (case Option.bind (Unmarshal data) (decodeCLI tt) of
              None \<Rightarrow> Ret None
            | Some m \<Rightarrow>
                (if cliID m = [] then Ret None
                 else if length (cliID m) < 8 then Panic
                 else Ret (Some (take 8 (cliID m), cliPayload m))))))"

subsection \<open>Administration\<close>

definition statField :: "string \<Rightarrow> json \<Rightarrow> TopicStat \<Rightarrow> TopicStat option" where
  "statField k v st =
     (if k = ''NAME'' then asStr v (\<lambda>x st. st\<lparr>sName := x\<rparr>) st
      else if k = ''MESSAGECOUNT'' then asInt v (\<lambda>x st. st\<lparr>MessageCount := x\<rparr>) st
      else if k = ''WAITINGCONSUMERS'' then asInt v (\<lambda>x st. st\<lparr>WaitingConsumers := x\<rparr>) st
      else if k = ''ISDLQ'' then asBool v (\<lambda>x st. st\<lparr>IsDLQ := x\<rparr>) st
      else if k = ''HASWEBHOOKS'' then asBool v (\<lambda>x st. st\<lparr>HasWebhooks := x\<rparr>) st
      else Some st)"

definition decodeStat :: "json \<Rightarrow> TopicStat option" where
  "decodeStat j = decodeStruct statField j \<lparr>sName = [], MessageCount = 0, WaitingConsumers = 0, IsDLQ = False, HasWebhooks = False\<rparr>"

text \<open>\<^verbatim>\<open>StatsResponse\<close>: the list and the number of webhooks.\<close>

definition statsField :: "string \<Rightarrow> json \<Rightarrow> TopicStat list \<times> int \<Rightarrow> (TopicStat list \<times> int) option" where
  "statsField k v x =
     (if k = ''STATS'' then map_option (\<lambda>l. (l, snd x)) (decodeSlice decodeStat v)
      else if k = ''TOTAL_WEBHOOKS'' then asInt v (\<lambda>n (l, _). (l, n)) x else Some x)"

definition HandleList :: "'s transport \<Rightarrow> Client \<Rightarrow> 's \<Rightarrow> outcome \<times> 's" where
  "HandleList do c s =
     (case DoAuthRequest do c ''GET'' ''/api/stats'' None s of
        (Inl e, s) \<Rightarrow> (ONetwork e, s)
      | (Inr resp, s) \<Rightarrow>
          (if Status resp = 401 then OUnauthorized
           else
             (let stats = (case Option.bind (Unmarshal (RespBody resp)) (\<lambda>j. decodeStruct statsField j ([], 0)) of
                    Some (st # sts, _) \<Rightarrow> st # sts
                  | _ \<Rightarrow> (case Option.bind (Unmarshal (RespBody resp)) (decodeSlice decodeStat) of Some l \<Rightarrow> l | None \<Rightarrow> []))
              in if stats = [] then ONoTopics else OStats stats), s))"

definition HandleCreate :: "'s transport \<Rightarrow> (string \<Rightarrow> int option) \<Rightarrow> Client \<Rightarrow> string list \<Rightarrow> 's \<Rightarrow> outcome \<times> 's" where
  "HandleCreate do parseInt c args s =
     (case flagParse parseInt [(''policy'', StringFlag), (''retention'', StringFlag)] args [] of
        None \<Rightarrow> (OExit, s)
      | Some (vals, topic # _) \<Rightarrow>
          (let policy = stringFlag ''policy'' [] vals; retention = stringFlag ''retention'' [] vals in
           if policy \<noteq> [] \<and> policy \<noteq> ''reject'' \<and> policy \<noteq> ''drop-oldest'' then (OBadFlag, s)
           else if retention \<noteq> [] \<and> ParseDuration retention = None then (OBadFlag, s)
           else
             (let payload = JObj ([(''name'', JStr topic)] @ omitempty ''policy'' policy @ omitempty ''retain'' retention) in
              case DoAuthRequest do c ''POST'' ''/api/topics'' (Some (bytesOf (Marshal payload))) s of
                (Inl e, s) \<Rightarrow> (ONetwork e, s)
              | (Inr resp, s) \<Rightarrow> (if Status resp = 201 then OCreated topic policy retention else OError (RespBody resp), s)))
      | Some _ \<Rightarrow> (OUsage, s))"

definition HandleRm :: "'s transport \<Rightarrow> Client \<Rightarrow> string list \<Rightarrow> bool \<Rightarrow> 's \<Rightarrow> outcome \<times> 's" where
  "HandleRm do c args isPurge s =
     (case args of
        [] \<Rightarrow> (OUsage, s)
      | topic # _ \<Rightarrow>
         (case DoAuthRequest do c ''DELETE''
             ((if isPurge then ''/api/queues/purge'' else ''/api/queues/delete'') @ ''?queue='' @ QueryEscape topic) None s of
            (Inl e, s) \<Rightarrow> (ONetwork e, s)
          | (Inr resp, s) \<Rightarrow> (if Status resp = 200 then ORemoved topic isPurge else OStatus (Status resp), s)))"

definition decodeStrings :: "json \<Rightarrow> string list option" where
  "decodeStrings = decodeSlice (\<lambda>j. asStr j (\<lambda>x _. x) [])"

definition HandleWebhook :: "'s transport \<Rightarrow> Client \<Rightarrow> string list \<Rightarrow> 's \<Rightarrow> outcome \<times> 's" where
  "HandleWebhook do c args s =
     (case args of
        action # topic # others \<Rightarrow>
          (if action = ''list'' then
             (case DoAuthRequest do c ''GET'' (''/api/queues/webhooks?queue='' @ QueryEscape topic) None s of
                (Inl e, s) \<Rightarrow> (ONetwork e, s)
              | (Inr resp, s) \<Rightarrow>
                  (OWebhooks topic (case Option.bind (Decode (RespBody resp)) decodeStrings of Some us \<Rightarrow> us | None \<Rightarrow> []), s))
           else
             (case (action = ''add'', others) of
                (True, [targetURL]) \<Rightarrow>
                  (case DoAuthRequest do c ''POST'' (''/webhook/'' @ PathEscape topic) (Some (bytesOf (''{\"url\":\"'' @ targetURL @ ''\"}''))) s of
                     (Inl e, s) \<Rightarrow> (ONetwork e, s)
                   | (Inr resp, s) \<Rightarrow> (if Status resp = 201 then OWebhookAdded else OError (RespBody resp), s))
              | _ \<Rightarrow> (OInvalid, s)))
      | _ \<Rightarrow> (OUsage, s))"

definition groupsField :: "string \<Rightarrow> json \<Rightarrow> string \<times> string list \<Rightarrow> (string \<times> string list) option" where
  "groupsField k v x =
     (if k = ''TOPIC'' then asStr v (\<lambda>t (_, g). (t, g)) x
      else if k = ''GROUPS'' then map_option (Pair (fst x)) (decodeStrings v) else Some x)"

definition HandleGroup :: "'s transport \<Rightarrow> Client \<Rightarrow> string list \<Rightarrow> 's \<Rightarrow> outcome \<times> 's" where
  "HandleGroup do c args s =
     (case args of
        action # topic # others \<Rightarrow>
          (if action = ''list'' then
             (case DoAuthRequest do c ''GET'' (''/api/groups?topic='' @ QueryEscape topic) None s of
                (Inl e, s) \<Rightarrow> (OError e, s)
              | (Inr resp, s) \<Rightarrow>
                  (case Option.bind (Decode (RespBody resp)) (\<lambda>j. decodeStruct groupsField j ([], [])) of
                     None \<Rightarrow> OBadJSON
                   | Some (_, gs) \<Rightarrow> OGroups topic gs, s))
           else if action = ''create'' then
             (case others of
                [] \<Rightarrow> (OUsage, s)
              | grp # _ \<Rightarrow>
                 (case DoAuthRequest do c ''POST'' ''/api/groups''
                     (Some (bytesOf (Marshal (JObj [(''group'', JStr grp), (''topic'', JStr topic)])))) s of
                    (Inl e, s) \<Rightarrow> (OError e, s)
                  | (Inr resp, s) \<Rightarrow> (if Status resp = 201 then OGroupCreated grp topic else OError (RespBody resp), s)))
           else (OInvalid, s))
      | _ \<Rightarrow> (OUsage, s))"

definition HandleRedrive :: "'s transport \<Rightarrow> Client \<Rightarrow> string \<Rightarrow> 's \<Rightarrow> outcome \<times> 's" where
  "HandleRedrive do c topic s =
     (case DoAuthRequest do c ''POST'' (''/api/queues/redrive?queue='' @ QueryEscape topic) None s of
        (Inl e, s) \<Rightarrow> (ONetwork e, s)
      | (Inr resp, s) \<Rightarrow>
          (if Status resp = 200
           then ORedriven topic (Option.bind (Option.bind (Unmarshal (RespBody resp)) decodeObject) (\<lambda>m. mget m ''redriven_messages''))
           else OError (TrimSpace (RespBody resp)), s))"

subsection \<open>The cluster\<close>

definition peerField :: "time_text \<Rightarrow> string \<Rightarrow> json \<Rightarrow> ClusterPeer \<Rightarrow> ClusterPeer option" where
  "peerField tt k v p =
     (if k = ''ADDRESS'' then asStr v (\<lambda>x p. p\<lparr>peerAddress := x\<rparr>) p
      else if k = ''ALIVE'' then asBool v (\<lambda>x p. p\<lparr>peerAlive := x\<rparr>) p
      else if k = ''LAST_SEEN'' then map_option (\<lambda>t. case t of None \<Rightarrow> p | Some t \<Rightarrow> p\<lparr>peerLastSeen := t\<rparr>) (asTime tt v None)
      else Some p)"

definition clusterField :: "time_text \<Rightarrow> string \<Rightarrow> json \<Rightarrow> ClusterStatusResponse \<Rightarrow> ClusterStatusResponse option" where
  "clusterField tt k v x =
     (if k = ''CLUSTERING_ENABLED'' then asBool v (\<lambda>a x. x\<lparr>ClusteringEnabled := a\<rparr>) x
      else if k = ''ROLE'' then asStr v (\<lambda>a x. x\<lparr>csRole := a\<rparr>) x
      else if k = ''TERM'' then asInt v (\<lambda>a x. x\<lparr>csTerm := a\<rparr>) x
      else if k = ''LEADER_HTTP'' then asStr v (\<lambda>a x. x\<lparr>csLeaderHTTP := a\<rparr>) x
      else if k = ''PEERS'' then
        map_option (\<lambda>l. x\<lparr>csPeers := l\<rparr>)
          (decodeSlice (\<lambda>j. decodeStruct (peerField tt) j \<lparr>peerAddress = [], peerAlive = False, peerLastSeen = 0\<rparr>) v)
      else Some x)"

definition printClusterStatus :: "'s transport \<Rightarrow> time_text \<Rightarrow> Client \<Rightarrow> 's \<Rightarrow> outcome \<times> 's" where
  "printClusterStatus do tt c s =
     (case DoAuthRequest do c ''GET'' ''/api/cluster/status'' None s of
        (Inl e, s) \<Rightarrow> (ONetwork e, s)
      | (Inr resp, s) \<Rightarrow>
          (if Status resp = 401 then OUnauthorized
           else (case Option.bind (Unmarshal (RespBody resp)) (\<lambda>j. decodeStruct (clusterField tt) j
                     \<lparr>ClusteringEnabled = False, csRole = [], csTerm = 0, csLeaderHTTP = [], csPeers = []\<rparr>) of
              None \<Rightarrow> OBadJSON
            | Some st \<Rightarrow> (if ClusteringEnabled st then OCluster st else OStandalone)), s))"

text \<open>With \<^verbatim>\<open>--watch\<close> the status is printed again and again; one round is modelled.\<close>

definition HandleCluster ::
  "'s transport \<Rightarrow> (string \<Rightarrow> int option) \<Rightarrow> time_text \<Rightarrow> Client \<Rightarrow> string list \<Rightarrow> 's \<Rightarrow> outcome \<times> 's" where
  "HandleCluster do parseInt tt c args s =
     (case args of
        [] \<Rightarrow> (OUsage, s)
      | cmd # others \<Rightarrow>
          (if cmd = ''status'' then printClusterStatus do tt c s
           else if cmd = ''peers'' then
             (case flagParse parseInt [(''watch'', BoolFlag)] others [] of None \<Rightarrow> (OExit, s) | Some _ \<Rightarrow> printClusterStatus do tt c s)
           else if cmd = ''drain'' then
             (case others of
                [] \<Rightarrow> (OUsage, s)
              | target # _ \<Rightarrow>
                 (case DoAuthRequest do (c\<lparr>sdkOrigin := target, sdkPrefix := []\<rparr>) ''POST'' ''/api/drain'' None s of
                    (Inl e, s) \<Rightarrow> (OError e, s)
                  | (Inr resp, s) \<Rightarrow> (ODrained target (RespBody resp), s)))
           else (OUsage, s)))"

subsection \<open>Commands\<close>

text \<open>
  The commands of the tool (\<^verbatim>\<open>main\<close>) that talk to a broker once; \<^const>\<open>None\<close> for the other commands. The shell splits its line
  itself, keeping the payload of \<^verbatim>\<open>pub\<close> in one piece.
\<close>

definition run_command ::
  "'s transport \<Rightarrow> (string \<Rightarrow> int option) \<Rightarrow> time_text \<Rightarrow> Client \<Rightarrow> string \<Rightarrow> string list \<Rightarrow> 's \<Rightarrow> (outcome \<times> 's) option" where
  "run_command do parseInt tt c cmd args s =
     (if cmd = ''status'' \<or> cmd = ''list'' then Some (HandleList do c s)
      else if cmd = ''pub'' \<or> cmd = ''publish'' then Some (HandlePublish do parseInt c args s)
      else if cmd = ''sub'' \<or> cmd = ''consume'' then Some (HandleConsume do parseInt tt c args s)
      else if cmd = ''peek'' then Some (HandlePeek do parseInt tt c args s)
      else if cmd = ''rm'' \<or> cmd = ''delete'' then Some (HandleRm do c args False s)
      else if cmd = ''purge'' then Some (HandleRm do c args True s)
      else if cmd = ''webhook'' then Some (HandleWebhook do c args s)
      else if cmd = ''cluster'' then Some (HandleCluster do parseInt tt c args s)
      else if cmd = ''create'' then Some (HandleCreate do parseInt c args s)
      else if cmd = ''group'' then Some (HandleGroup do c args s)
      else if cmd = ''dlq'' then
        Some (case args of a # topic # _ \<Rightarrow> if a = ''redrive'' then HandleRedrive do c topic s else (OUsage, s) | _ \<Rightarrow> (OUsage, s))
      else if cmd = ''help'' \<or> cmd = ''-h'' \<or> cmd = ''--help'' then Some (OHelp, s)
      else None)"

definition shellArgs :: "string \<Rightarrow> string \<times> string list" where
  "shellArgs input =
     (let parts = SplitN input '' '' 3; cmd = hd parts in
      (cmd,
       if length parts \<le> 1 then []
       else if (cmd = ''pub'' \<or> cmd = ''publish'') \<and> length parts = 3 then tl parts
       else Split (drop (length cmd + 1) input) '' ''))"

end
