(* ===== verification/RestProps.thy ===== *)
theory RestProps
  imports Rest BrokerProps BrokerQueues
begin

text \<open>
  What the HTTP server guarantees: a request returns, acts on the broker only by broker operations and
  leaves the count of requests as it was; no request acts without the key; a follower and a draining
  server leave the broker alone; what publishing, consuming and the webhook check do.
\<close>

subsection \<open>Handlers act by broker operations\<close>

definition acts :: "Server \<Rightarrow> (http_response \<times> Server) run \<Rightarrow> bool" where
  "acts s x \<longleftrightarrow> (\<exists>resp s'. x = Ret (resp, s') \<and> broker_calls (broker s) (broker s') \<and> inFlight s' = inFlight s)"

definition serves :: "handler \<Rightarrow> bool" where
  "serves h \<longleftrightarrow> (\<forall>r s. broker_inv (broker s) \<longrightarrow> acts s (h r s))"

text \<open>The rest of the program acts by broker operations too, and the addresses of leaders are well formed.\<close>

definition proper :: "rest_env \<Rightarrow> request_ctx \<Rightarrow> bool" where
  "proper env ctx \<longleftrightarrow> (\<forall>b. broker_calls b (waiting ctx b)) \<and> (\<forall>t \<in> set (turns ctx). \<forall>b. broker_calls b (t b))
     \<and> (\<forall>a. addressParses env a)"

named_theorems serving \<open>handlers that act by broker operations\<close>

lemma servesI: "(\<And>r s. broker_inv (broker s) \<Longrightarrow> acts s (h r s)) \<Longrightarrow> serves h"
  by (simp add: serves_def)

lemma acts_respond: "broker_calls (broker s) b \<Longrightarrow> acts s (respond code body (s\<lparr>broker := b\<rparr>))"
  by (simp add: acts_def respond_def)

lemma acts_fail: "broker_calls (broker s) b \<Longrightarrow> acts s (fail msg code (s\<lparr>broker := b\<rparr>))"
  by (simp add: acts_def fail_def)

lemma acts_same [simp]: "acts s (respond code body s)" "acts s (fail msg code s)" "acts s (Ret (resp, s))"
  by (simp_all add: acts_def respond_def fail_def)

lemma acts_after: "broker_calls (broker s) b \<Longrightarrow> acts (s\<lparr>broker := b\<rparr>) x \<Longrightarrow> acts s x"
  by (auto simp: acts_def)

lemma step_calls: "live_step b b' \<Longrightarrow> broker_calls b b'"
  by (rule r_into_rtranclp)

lemma calls_then: "live_step b' b'' \<Longrightarrow> broker_calls b b' \<Longrightarrow> broker_calls b b''"
  by (rule rtranclp.rtrancl_into_rtrancl)

lemma calls_trans: "broker_calls b b' \<Longrightarrow> broker_calls b' b'' \<Longrightarrow> broker_calls b b''"
  by (rule rtranclp_trans)

lemmas acting = acts_respond acts_fail step_calls

lemma leaderProxy_serves: "proper env ctx \<Longrightarrow> serves h \<Longrightarrow> serves (leaderProxy env h)"
  by (auto simp: serves_def leaderProxy_def Let_def proper_def split: option.split)

lemma checkAuth_serves: "serves h \<Longrightarrow> serves (checkAuth env h)"
  by (auto simp: serves_def checkAuth_def)

lemma withAuth_serves:
  assumes "serves h"
  shows "serves (withAuth env ctx h)"
proof (rule servesI)
  fix r and s :: Server
  assume i: "broker_inv (broker s)"
  note c = checkAuth_serves [OF assms, of env, unfolded serves_def, rule_format]
  have rl: "acts (s\<lparr>rateLimiter := x\<rparr>) y \<Longrightarrow> acts s y" for x y by (simp add: acts_def)
  have "acts s (checkAuth env h r (s\<lparr>rateLimiter := x\<rparr>))" for x by (rule rl [of x], rule c) (simp add: i)
  moreover have "acts s (fail msg code (s\<lparr>rateLimiter := x\<rparr>))" for msg code x by (rule rl [of x]) simp
  ultimately show "acts s (withAuth env ctx h r s)"
    using c [OF i, of r] by (simp add: withAuth_def split: option.split prod.split bool.split)
qed

lemma handlePublish_serves [serving]: "serves (handlePublish env ctx)"
proof (rule servesI)
  fix r and s :: Server
  assume i: "broker_inv (broker s)"
  define topic where "topic = extractTopicFromPath r ''/publish/''"
  obtain x b where k: "(if idempotencyKey env r \<noteq> [] then IsIdempotent (now ctx) (idempotencyKey env r) (broker s) else (False, broker s)) = (x, b)"
    by (rule prod.exhaust)
  have b: "broker_calls (broker s) b" using k step_calls [OF live_step.idempotent] by (auto split: if_splits)
  then have "broker_inv b" using i by (rule broker_calls_inv)
  then obtain e b' where p: "Publish (now ctx) topic (publishRequest (now ctx) r) b = Ret (e, b')" by (rule Publish_returns)
  have "broker_calls (broker s) b'" using b Publish_calls [OF p] by simp
  then show "acts s (handlePublish env ctx r s)"
    using b p k by (cases x; cases e) (simp_all add: handlePublish_def topic_def [symmetric] Let_def acting)
qed

text \<open>Consuming, with the wait for a message.\<close>

lemma poll_calls: "proper env ctx \<Longrightarrow> poll ctx topic c b = (m, b') \<Longrightarrow> broker_calls b b'"
  unfolding poll_def proper_def
  by (auto simp: Let_def split: if_splits wake.splits list.splits
      intro: rtranclp.rtrancl_into_rtrancl live_step.receive live_step.stop_waiting)

lemma autoAck_calls: "broker_calls b (autoAck ctx r topic msgs b)"
proof -
  have "broker_calls b (fold (\<lambda>m b. snd (Ack (now ctx) topic (ID m) b)) msgs b)"
  proof (induction msgs arbitrary: b)
    case (Cons m msgs)
    have "broker_calls b (snd (Ack (now ctx) topic (ID m) b))"
      by (rule step_calls, rule live_step.ack, rule prod.collapse [symmetric])
    from calls_trans [OF this Cons.IH] show ?case by simp
  qed simp
  then show ?thesis unfolding autoAck_def by simp
qed

lemma consumeFrom_acts:
  assumes p: "proper env ctx"
  shows "acts s (consumeFrom env ctx topic r s)"
proof -
  obtain c b1 where n: "newChan 1 (broker s) = (c, b1)" by (rule prod.exhaust)
  obtain msgs ok b2 where u: "Consume (now ctx) topic (consumeLimit r) c b1 = ((msgs, ok), b2)" by (metis prod.exhaust)
  have b2: "broker_calls (broker s) b2" using step_calls [OF live_step.consume [OF n _ u]] by simp
  define timeout where
    "timeout = (if Query_Get r ''timeout'' = [] then 0 else case ParseDuration (Query_Get r ''timeout'') of Some t \<Rightarrow> t | None \<Rightarrow> 0)"
  obtain ms b3 where w: "(if \<not> ok \<and> timeout > 0 then poll ctx topic c b2 else (Some (if ok then msgs else []), b2)) = (ms, b3)"
    by (rule prod.exhaust)
  have b3: "broker_calls (broker s) b3" using w b2 poll_calls [OF p, of topic c b2] by (auto split: if_splits intro: calls_trans)
  then have b4: "broker_calls (broker s) (autoAck ctx r topic m b3)" for m by (rule calls_trans) (rule autoAck_calls)
  show ?thesis
    using n u w b3 b4
    by (cases ms) (simp_all add: consumeFrom_def timeout_def [symmetric] Let_def respondWithQoL_def noMessages_def acting)
qed

lemma handleConsume_serves [serving]:
  assumes "proper env ctx"
  shows "serves (handleConsume env ctx)"
proof (rule servesI)
  fix r and s :: Server
  define topic where "topic = extractTopicFromPath r ''/consume/''"
  obtain vt b where g: "CreateGroup topic (Query_Get r ''group'') (broker s) = (vt, b)" by (rule prod.exhaust)
  have b: "broker_calls (broker s) b" using step_calls [OF live_step.group [OF g]] .
  have "acts s (consumeFrom env ctx t r s)" "acts s (consumeFrom env ctx t r (s\<lparr>broker := b\<rparr>))" for t
    using consumeFrom_acts [OF assms] acts_after [OF b] by blast+
  then show "acts s (handleConsume env ctx r s)"
    using b by (cases vt) (simp_all add: handleConsume_def topic_def [symmetric] g Let_def respondWithQoL_def noMessages_def acting)
qed

lemma handleAck_serves [serving]: "serves (handleAck ctx)"
  by (rule servesI) (auto simp: handleAck_def split: list.split prod.split bool.split intro!: acting live_step.ack)

lemma handleRequeue_serves [serving]: "serves (handleRequeue env ctx)"
proof (rule servesI)
  fix r and s :: Server
  assume i: "broker_inv (broker s)"
  have "\<exists>b. Requeue (now ctx) m (broker s) = Ret b" for m using Requeue_ok [OF i] by blast
  then obtain q where q: "Requeue (now ctx) m (broker s) = Ret (q m)" for m by metis
  then have "broker_calls (broker s) (q m)" for m using step_calls [OF live_step.requeue] by blast
  then show "acts s (handleRequeue env ctx r s)" by (simp add: handleRequeue_def q acting split: option.split)
qed

lemma handleRegisterWebhook_serves [serving]: "serves (handleRegisterWebhook env)"
  by (rule servesI)
    (auto simp: handleRegisterWebhook_def Let_def split: option.split prod.split intro!: acting live_step.webhook prod.collapse [symmetric])

lemma handleCreateTopic_serves [serving]: "serves (handleCreateTopic env)"
  by (rule servesI) (auto simp: handleCreateTopic_def Let_def split: option.split prod.split intro!: acting live_step.create)

lemma read_serves [serving]:
  "serves handleStats" "serves handleListQueues" "serves (handleDashboard env)" "serves handleMetrics" "serves (handleQueuePeek env)"
  "serves handleGetWebhooks" "serves (handleStatic env)" "serves (handleClusterStatus env)"
  by (rule servesI, simp add: handleStats_def handleListQueues_def handleDashboard_def handleMetrics_def handleQueuePeek_def Let_def
      handleGetWebhooks_def handleStatic_def handleClusterStatus_def split: prod.split option.split)+

lemma handleHealthz_serves [serving]: "serves (handleHealthz env ctx)"
  by (rule servesI) (simp add: handleHealthz_def Let_def split: option.split)

lemma handleDrain_serves [serving]: "serves handleDrain"
  by (rule servesI) (simp add: handleDrain_def acts_def respond_def fail_def)

lemma handleWS_serves [serving]: "serves (handleWS env ctx)"
  by (rule servesI) (simp add: handleWS_def acts_def respond_def split: sum.split)

lemma streamEvents_calls:
  "\<forall>t \<in> set ts. \<forall>b. broker_calls b (t b) \<Longrightarrow> streamEvents env r ch ts b = (body, b') \<Longrightarrow> broker_calls b b'"
proof (induction ts arbitrary: b body)
  case (Cons t ts)
  have t: "broker_calls b (t b)" using Cons.prems(1) by simp
  have ts: "\<forall>t \<in> set ts. \<forall>b. broker_calls b (t b)" using Cons.prems(1) by simp
  have "broker_calls b (receive ch (t b))" by (rule calls_then [OF live_step.receive t])
  with t Cons.prems(2) Cons.IH [OF ts] show ?case
    by (auto simp: Let_def split: list.splits prod.splits intro: calls_trans)
qed simp

lemma handleStream_serves [serving]:
  assumes "proper env ctx"
  shows "serves (handleStream env ctx)"
proof (rule servesI)
  fix r and s :: Server
  define topic where "topic = extractTopicFromPath r ''/stream/''"
  obtain c b where a: "AddSpy topic (broker s) = (c, b)" by (rule prod.exhaust)
  have b: "broker_calls (broker s) b" using AddSpy_calls [OF a] .
  have "broker_calls b b'" if "streamEvents env r ch (turns ctx) b = (body, b')" for ch body b'
    using streamEvents_calls [OF _ that] assms by (simp add: proper_def)
  then have "broker_calls (broker s) (RemoveSpy topic ch b')" if "streamEvents env r ch (turns ctx) b = (body, b')" for ch body b'
    using that b calls_then [OF live_step.remove_spy] by (blast intro: calls_trans)
  then show "acts s (handleStream env ctx r s)"
    using b by (cases c) (simp_all add: handleStream_def topic_def [symmetric] a Let_def acting split: prod.split)
qed

lemma handleQueuePublish_serves [serving]: "serves (handleQueuePublish ctx)"
proof (rule servesI)
  fix r and s :: Server
  assume i: "broker_inv (broker s)"
  have "acts s (bind_run (Publish t q req (broker s)) (\<lambda>(err, b). case err of
       Some e \<Rightarrow> fail e 429 (s\<lparr>broker := b\<rparr>) | None \<Rightarrow> respond 202 (body q) (s\<lparr>broker := b\<rparr>)))" for t q req body
  proof -
    obtain e b where p: "Publish t q req (broker s) = Ret (e, b)" by (rule Publish_returns [OF i])
    from Publish_calls [OF p] show ?thesis by (cases e) (simp_all add: p acting)
  qed
  note p = this [where body = "\<lambda>q. encode (strings [(''queue'', q), (''status'', ''accepted'')])"]
  show "acts s (handleQueuePublish ctx r s)" unfolding handleQueuePublish_def by (simp add: p split: option.split)
qed

lemma handleQueueConsume_serves [serving]: "serves (handleQueueConsume env ctx)"
proof (rule servesI)
  fix r and s :: Server
  obtain c b1 where n: "newChan 1 (broker s) = (c, b1)" by (rule prod.exhaust)
  have b2: "broker_calls (broker s) b2" if "Consume (now ctx) q 1 c b1 = (res, b2)" for q res b2
    using step_calls [OF live_step.consume [OF n _ that]] by simp
  have "broker_calls (broker s) (snd (Ack (now ctx) q i b2))" if "Consume (now ctx) q 1 c b1 = (res, b2)" for q i res b2
    by (rule calls_then [OF live_step.ack b2 [OF that]]) (rule prod.collapse [symmetric])
  with b2 show "acts s (handleQueueConsume env ctx r s)"
    unfolding handleQueueConsume_def n prod.case by (auto split: option.split prod.split intro!: acts_respond)
qed

lemma handleQueuePurge_serves [serving]: "serves handleQueuePurge"
  by (rule servesI) (auto simp: handleQueuePurge_def split: prod.split option.split intro!: acting live_step.purge)

lemma handleQueueDelete_serves [serving]: "serves handleQueueDelete"
  by (rule servesI) (auto simp: handleQueueDelete_def split: prod.split option.split intro!: acting live_step.delete)

lemma handleGroups_serves [serving]: "serves handleGroups"
  by (rule servesI)
    (auto simp: handleGroups_def Let_def split: option.split prod.split sum.split intro!: acting live_step.group)

lemma handleQueueRedrive_serves [serving]: "serves (handleQueueRedrive ctx)"
proof (rule servesI)
  fix r and s :: Server
  assume i: "broker_inv (broker s)"
  obtain res b where q: "RedriveDLQ (now ctx) (Query_Get r ''queue'') (broker s) = Ret (res, b)" using RedriveDLQ_ok [OF i] by blast
  from step_calls [OF live_step.redrive [OF q]] q show "acts s (handleQueueRedrive ctx r s)"
    by (auto simp: handleQueueRedrive_def acting split: prod.split option.split)
qed

lemma branch_serves [serving]:
  assumes "proper env ctx"
  shows "serves (handleQueues env)" and "serves (handleGroupsProxied env)"
  using leaderProxy_serves [OF assms handleCreateTopic_serves [of env]] leaderProxy_serves [OF assms handleGroups_serves]
    handleGroups_serves read_serves(2)
  by (auto simp: serves_def handleQueues_def handleGroupsProxied_def)

lemma routes_serve: "proper env ctx \<Longrightarrow> (p, h) \<in> set (routes env ctx) \<Longrightarrow> serves h"
  unfolding routes_def proxiedRoutes_def localRoutes_def
  by (auto intro!: leaderProxy_serves withAuth_serves serving)

lemma findRoute_in: "findRoute rs path = Some h \<Longrightarrow> \<exists>p. (p, h) \<in> set rs \<and> pathMatches p path"
  by (auto simp: findRoute_def find_Some_iff) (metis nth_mem)

lemma serveMux_serves: "(\<And>p h. (p, h) \<in> set rs \<Longrightarrow> serves h) \<Longrightarrow> serves (serveMux rs)"
  by (rule servesI) (auto simp: serveMux_def serves_def split: option.split dest: findRoute_in)

lemma trackInFlight_serves: "serves h \<Longrightarrow> serves (trackInFlight h)"
proof (rule servesI)
  fix r and s :: Server
  assume h: "serves h" and i: "broker_inv (broker s)"
  have "acts (s\<lparr>inFlight := inFlight s + 1\<rparr>) (h r (s\<lparr>inFlight := inFlight s + 1\<rparr>))"
    using h i by (simp add: serves_def)
  then show "acts s (trackInFlight h r s)" by (auto simp: trackInFlight_def acts_def fail_def)
qed

lemma ServeHTTP_serves: "proper env ctx \<Longrightarrow> serves (ServeHTTP env ctx)"
  unfolding ServeHTTP_def by (intro trackInFlight_serves serveMux_serves) (rule routes_serve)

text \<open>
  C12: Every HTTP request is answered: on whatever path and with whatever contents, the server returns a
  response, the handler has acted on the broker only by broker operations (so that all the invariants of
  the broker hold afterwards), and the count of requests in flight is what it was. The rest of the program
  acts by broker operations while a request waits, and the address of the leader can be parsed.
\<close>

theorem rest_requests_return:
  assumes "broker_inv (broker s)" and "proper env ctx"
  shows "\<exists>resp s'. ServeHTTP env ctx r s = Ret (resp, s') \<and> broker_calls (broker s) (broker s') \<and> broker_inv (broker s')
    \<and> InFlightCount s' = InFlightCount s"
proof -
  obtain resp s' where "ServeHTTP env ctx r s = Ret (resp, s')" "broker_calls (broker s) (broker s')" "inFlight s' = inFlight s"
    using ServeHTTP_serves [OF assms(2)] assms(1) unfolding serves_def acts_def by blast
  then show ?thesis using broker_calls_inv [OF _ assms(1)] by (auto simp: InFlightCount_def)
qed

text \<open>A server with one topic, on its own, and a request to it.\<close>

definition plain_env :: "string \<Rightarrow> rest_env" where
  "plain_env key =
     \<lparr>apiKey = key, trustProxy = False, defaultPolicy = [],
      clusterEnv = \<lparr>envLeader = [], envSecret = ''s'', envInsecure = [], envNodes = [], envSelf = [], envAdvertise = [],
        envTimeout = ''2s'', hostname = ''n1'', hmacHex = (\<lambda>k m. [])\<rparr>,
      version = ''3'', startTime = 0, timeText = decimal_time, filterDecode = (\<lambda>_. None), sha256 = (\<lambda>_. []), sha1 = (\<lambda>_. []),
      ParseRequestURI = (\<lambda>_. None), LookupIP = (\<lambda>_. None), addressParses = (\<lambda>_. True),
      leaderAnswer = (\<lambda>a r. Error ''no leader'' 502), page = (\<lambda>_ _. []), staticFS = [], dirList = (\<lambda>_. [])\<rparr>"

definition plain_ctx :: request_ctx where
  "plain_ctx = \<lparr>now = 1, waiting = (\<lambda>b. b), woken = TimedOut, turns = [], flushes = True, hijacking = None, connId = 0\<rparr>"

definition lone_server :: Server where
  "lone_server = NewServer (one_topic None) None 0"

definition plain_http :: "string \<Rightarrow> string \<Rightarrow> bytes \<Rightarrow> http_request" where
  "plain_http method path body =
     \<lparr>Method = method, Path = path, RawQuery = [], Header = [], Body = body, RemoteAddr = ''1.2.3.4:5''\<rparr>"

lemma plain_proper: "proper (plain_env key) plain_ctx"
  by (simp add: proper_def plain_env_def plain_ctx_def)

lemma lone_server_inv: "broker_inv (broker lone_server)"
  using brk.inv_reach [OF one_topic_reach] by (simp add: lone_server_def NewServer_def)

theorem rest_requests_return_witness:
  "\<exists>resp s'. ServeHTTP (plain_env ''k'') plain_ctx (plain_http ''GET'' ''/consume/q'' []) lone_server = Ret (resp, s')
     \<and> broker_calls (broker lone_server) (broker s') \<and> broker_inv (broker s') \<and> InFlightCount s' = InFlightCount lone_server"
  by (rule rest_requests_return [OF lone_server_inv plain_proper])

subsection \<open>The key\<close>

text \<open>What a request without the key can do.\<close>

definition refused :: "rest_env \<Rightarrow> http_request \<Rightarrow> Server \<Rightarrow> (http_response \<times> Server) run \<Rightarrow> bool" where
  "refused env r s x \<longleftrightarrow> (\<forall>resp s'. x = Ret (resp, s') \<longrightarrow>
     broker s' = broker s \<and> clusterNode s' = clusterNode s \<and> draining s' = draining s \<and> wsClients s' = wsClients s
     \<and> (Status resp \<in> {301, 401, 404, 429, 503} \<or> (\<exists>addr. resp = leaderAnswer env addr (forwardedRequest r))))"

lemma Status_Error [simp]: "Status (Error msg code) = code"
  by (simp add: Error_def)

lemma withAuth_refuses: "\<not> authorized (apiKey env) r \<Longrightarrow> refused env r s (withAuth env ctx h r s)"
  by (auto simp: refused_def withAuth_def checkAuth_def fail_def split: option.splits prod.splits bool.splits)

lemma leaderProxy_refuses: "(\<And>s. refused env r s (h r s)) \<Longrightarrow> refused env r s (leaderProxy env h r s)"
  by (auto simp: refused_def leaderProxy_def Let_def fail_def split: option.splits if_splits)

lemma routes_refuse:
  assumes "\<not> authorized (apiKey env) r" and "(p, h) \<in> set (routes env ctx)" and "pathMatches p path" and "path \<noteq> ''/healthz''"
  shows "refused env r s (h r s)"
proof (cases "(p, h) = (''/healthz'', handleHealthz env ctx)")
  case True
  then show ?thesis using assms(3,4) by (simp add: pathMatches_def HasSuffix_def)
next
  case False
  with assms(2) obtain h' where "h = withAuth env ctx h' \<or> h = leaderProxy env (withAuth env ctx h')"
    by (auto simp: routes_def)
  moreover have "refused env r s (leaderProxy env (withAuth env ctx h') r s)"
    by (rule leaderProxy_refuses) (rule withAuth_refuses [OF assms(1)])
  ultimately show ?thesis using withAuth_refuses [OF assms(1)] by auto
qed

lemma trackInFlight_refuses:
  "(\<And>s. refused env r s (h r s)) \<Longrightarrow> refused env r s (trackInFlight h r s)"
proof -
  assume h: "\<And>s. refused env r s (h r s)"
  show ?thesis
    using h [of "s\<lparr>inFlight := inFlight s + 1\<rparr>"]
    by (cases "h r (s\<lparr>inFlight := inFlight s + 1\<rparr>)") (auto simp: trackInFlight_def refused_def fail_def)
qed

text \<open>
  C8: Without the key nothing can be done over HTTP. When an API key is configured, a request that
  carries it neither as a bearer token nor as the password of basic authentication nor as the query
  parameter, on any path except the health check, leaves the broker, the cluster node, the drain
  flag and the list of web socket clients as they are; and it is answered by a refusal (unauthorized,
  too many requests, not available), by a redirect, as a path that does not exist, or by
  what the leader answers to the same request.
\<close>

theorem rest_needs_key:
  assumes "apiKey env \<noteq> []" and "\<not> authorized (apiKey env) r" and "cleanPath (Path r) \<noteq> ''/healthz''"
    and "ServeHTTP env ctx r s = Ret (resp, s')"
  shows "broker s' = broker s \<and> clusterNode s' = clusterNode s \<and> draining s' = draining s \<and> wsClients s' = wsClients s
     \<and> (Status resp \<in> {301, 401, 404, 429, 503} \<or> (\<exists>addr. resp = leaderAnswer env addr (forwardedRequest r)))"
proof -
  have "refused env r s (serveMux (routes env ctx) r s)" for s
    using routes_refuse [OF assms(2) _ _ assms(3)]
    by (auto simp: serveMux_def refused_def fail_def respond_def split: option.splits if_splits dest!: findRoute_in) blast+
  then have "refused env r s (ServeHTTP env ctx r s)" unfolding ServeHTTP_def by (rule trackInFlight_refuses)
  then show ?thesis using assms(4) by (simp add: refused_def)
qed

theorem rest_needs_key_witness:
  "\<exists>resp s'. ServeHTTP (plain_env ''k'') plain_ctx (plain_http ''POST'' ''/publish/q'' [1]) lone_server = Ret (resp, s')
     \<and> broker s' = broker lone_server \<and> draining s' = draining lone_server"
proof -
  have a: "apiKey (plain_env ''k'') \<noteq> []" "\<not> authorized (apiKey (plain_env ''k'')) (plain_http ''POST'' ''/publish/q'' [1])"
    "cleanPath (Path (plain_http ''POST'' ''/publish/q'' [1])) \<noteq> ''/healthz''"
    by code_simp+
  have "acts lone_server (ServeHTTP (plain_env ''k'') plain_ctx (plain_http ''POST'' ''/publish/q'' [1]) lone_server)"
    using ServeHTTP_serves [OF plain_proper] lone_server_inv by (simp add: serves_def)
  then obtain resp s' where "ServeHTTP (plain_env ''k'') plain_ctx (plain_http ''POST'' ''/publish/q'' [1]) lone_server = Ret (resp, s')"
    by (auto simp: acts_def)
  then show ?thesis using rest_needs_key [OF a] by blast
qed

subsection \<open>Followers and draining servers\<close>

lemma findRoute_append:
  "findRoute (xs @ ys) path = (case findRoute xs path of Some h \<Rightarrow> Some h | None \<Rightarrow> findRoute ys path)"
  by (induction xs) (auto simp: findRoute_def)

lemma findRoute_map: "findRoute (map (\<lambda>(p, h). (p, g h)) xs) path = map_option g (findRoute xs path)"
  by (induction xs) (auto simp: findRoute_def)

lemma findRoute_proxied:
  assumes "findRoute (proxiedRoutes env ctx) path = Some h"
  shows "findRoute (routes env ctx) path = Some (leaderProxy env (withAuth env ctx h))"
proof -
  obtain p where p: "(p, h) \<in> set (proxiedRoutes env ctx)" "pathMatches p path" using findRoute_in [OF assms] by blast
  have "path \<noteq> ''/healthz''"
    using p by (auto simp: proxiedRoutes_def pathMatches_def HasSuffix_def HasPrefix_def)
  then have "findRoute [(''/healthz'', handleHealthz env ctx)] path = None"
    by (simp add: findRoute_def pathMatches_def HasSuffix_def)
  moreover have "findRoute (routes env ctx) path = (case findRoute [(''/healthz'', handleHealthz env ctx)] path of
       Some h \<Rightarrow> Some h | None \<Rightarrow> findRoute (map (\<lambda>(p, h). (p, leaderProxy env (withAuth env ctx h))) (proxiedRoutes env ctx)
         @ map (\<lambda>(p, h). (p, withAuth env ctx h)) (localRoutes env)) path)"
    unfolding routes_def by (subst findRoute_append [symmetric]) simp
  ultimately show ?thesis
    using assms by (simp add: findRoute_append findRoute_map [of "\<lambda>h. leaderProxy env (withAuth env ctx h)"])
qed

text \<open>
  C18: A node that is not the leader leaves the requests on queues to the leader. A request on one of the
  routes that publish, consume, acknowledge, requeue, stream, manage topics, queues and webhooks or open
  a web socket is answered with what the leader answers to the request, its client address added to
  the headers, or, while no leader is known, as not available. The state of the follower does not
  change at all.
\<close>

theorem follower_forwards_requests:
  assumes "clusterNode s = Some n" and "\<not> IsLeader n" and "\<not> draining s" and "cleanPath (Path r) = Path r"
    and "findRoute (proxiedRoutes env ctx) (Path r) \<noteq> None" and "\<forall>a. addressParses env a"
  shows "ServeHTTP env ctx r s =
     Ret (if GetLeaderHTTP (clusterEnv env) n = [] then Error ''Cluster is electing a new leader, please retry'' 503
          else leaderAnswer env (GetLeaderHTTP (clusterEnv env) n) (forwardedRequest r), s)"
proof -
  obtain h where "findRoute (proxiedRoutes env ctx) (Path r) = Some h" using assms(5) by blast
  from findRoute_proxied [OF this] show ?thesis
    using assms by (simp add: ServeHTTP_def trackInFlight_def serveMux_def leaderProxy_def fail_def Let_def)
qed

text \<open>A node that follows the leader at \<open>10.0.0.1:80\<close>.\<close>

definition follower_server :: Server where
  "follower_server = lone_server\<lparr>clusterNode := Some
     \<lparr>Address = ''n2:7'', HttpPort = ''80'', LeaderHttp = ''10.0.0.1:80'', role = Follower, Peers = [], CurrentTerm = 1,
      VotedFor = [], votesReceived = 0, lastHeartbeatSeen = 0, clusterSecret = ''s'', isSynced = False, quorumSize = 2\<rparr>\<rparr>"

theorem follower_forwards_requests_witness:
  "ServeHTTP (plain_env ''k'') plain_ctx (plain_http ''POST'' ''/publish/q'' [1]) follower_server
   = Ret (Error ''no leader'' 502, follower_server)"
proof -
  define n where "n = the (clusterNode follower_server)"
  have a: "clusterNode follower_server = Some n" "\<not> IsLeader n" "\<not> draining follower_server"
    "GetLeaderHTTP (clusterEnv (plain_env ''k'')) n \<noteq> []"
    unfolding n_def by (simp_all add: follower_server_def lone_server_def NewServer_def IsLeader_def GetLeaderHTTP_def)
  have b: "cleanPath (Path (plain_http ''POST'' ''/publish/q'' [1])) = Path (plain_http ''POST'' ''/publish/q'' [1])" by code_simp
  have c: "findRoute (proxiedRoutes (plain_env ''k'') plain_ctx) (Path (plain_http ''POST'' ''/publish/q'' [1])) \<noteq> None"
    by (simp add: findRoute_def proxiedRoutes_def plain_http_def pathMatches_def HasSuffix_def)
  from follower_forwards_requests [OF a(1-3) b c] a(4) show ?thesis by (simp add: plain_env_def)
qed

subsection \<open>Publishing and consuming\<close>

text \<open>The server lets a request through to its handler.\<close>

definition admits :: "rest_env \<Rightarrow> Server \<Rightarrow> http_request \<Rightarrow> bool" where
  "admits env s r \<longleftrightarrow> \<not> draining s \<and> (case clusterNode s of None \<Rightarrow> True | Some n \<Rightarrow> IsLeader n) \<and> rateLimiter s = None
     \<and> authorized (apiKey env) r \<and> cleanPath (Path r) = Path r"

lemma admitted:
  assumes "admits env s r" and "findRoute (proxiedRoutes env ctx) (Path r) = Some h"
  shows "ServeHTTP env ctx r s =
     bind_run (h r (s\<lparr>inFlight := inFlight s + 1\<rparr>)) (\<lambda>(resp, s). Ret (resp, s\<lparr>inFlight := inFlight s - 1\<rparr>))"
  using assms findRoute_proxied [OF assms(2)]
  by (auto simp: admits_def ServeHTTP_def trackInFlight_def serveMux_def leaderProxy_def withAuth_def checkAuth_def split: option.splits)

lemma no_query: "RawQuery r = [] \<Longrightarrow> Query_Get r k = []"
proof -
  have "Split ([] :: string) ''&'' = [[]]" by (rule Split_char_nosep) simp
  then show "RawQuery r = [] \<Longrightarrow> Query_Get r k = []" by (simp add: Query_Get_def ParseQuery_def query_pair_def)
qed

lemma topic_of_path: "Path r = pre @ n \<Longrightarrow> \<not> HasSuffix n ''/'' \<Longrightarrow> extractTopicFromPath r pre = n"
  by (simp add: extractTopicFromPath_def TrimSuffix_def)

lemma publish_route: "Path r = ''/publish/'' @ n \<Longrightarrow> findRoute (proxiedRoutes env ctx) (Path r) = Some (handlePublish env ctx)"
  by (simp add: findRoute_def proxiedRoutes_def pathMatches_def HasSuffix_def)

lemma consume_route: "Path r = ''/consume/'' @ n \<Longrightarrow> findRoute (proxiedRoutes env ctx) (Path r) = Some (handleConsume env ctx)"
  by (simp add: findRoute_def proxiedRoutes_def pathMatches_def HasSuffix_def)

text \<open>A plain publish and a plain consumption, as requests.\<close>

definition publishes :: "string \<Rightarrow> http_request \<Rightarrow> bool" where
  "publishes n r \<longleftrightarrow> Method r = ''POST'' \<and> Path r = ''/publish/'' @ n \<and> RawQuery r = [] \<and> Header_Get r ''Idempotency-Key'' = []
     \<and> Body r \<noteq> [] \<and> length (Body r) \<le> maxBody"

definition consumes :: "string \<Rightarrow> http_request \<Rightarrow> bool" where
  "consumes n r \<longleftrightarrow> Method r = ''GET'' \<and> Path r = ''/consume/'' @ n \<and> RawQuery r = []"

lemma publishStatus_not_202: "publishStatus e \<noteq> 202"
  by (simp add: publishStatus_def)

lemma handlePublish_plain:
  assumes "publishes n r" and "n \<noteq> []" and "\<not> HasSuffix n ''/''"
  shows "handlePublish env ctx r s = bind_run (Publish (now ctx) n (publishRequest (now ctx) r) (broker s))
     (\<lambda>(err, b). case err of
        Some e \<Rightarrow> fail e (publishStatus e) (s\<lparr>broker := b\<rparr>)
      | None \<Rightarrow> respond 202 (encode (strings [(''status'', ''accepted''), (''topic'', n)])) (s\<lparr>broker := b\<rparr>))"
  using assms topic_of_path [of r "''/publish/''" n]
  by (simp add: publishes_def handlePublish_def idempotencyKey_def no_query Let_def)

lemma handleConsume_plain:
  assumes "consumes n r" and "n \<noteq> []" and "\<not> HasSuffix n ''/''"
  shows "handleConsume env ctx r s =
     (case Consume (now ctx) n 1 (length (chans (broker s))) (snd (newChan 1 (broker s))) of
        ((msgs, ok), b) \<Rightarrow>
          (if ok \<and> msgs \<noteq> [] then respondWithQoL env msgs 1 (s\<lparr>broker := b\<rparr>) else noMessages n (s\<lparr>broker := b\<rparr>)))"
  using assms topic_of_path [of r "''/consume/''" n]
  by (simp add: consumes_def handleConsume_def consumeFrom_def no_query Let_def consumeLimit_def filtered_def autoAck_def newChan_def
      split: prod.split)

lemma plain_publishRequest:
  "publishes n r \<Longrightarrow> \<not> pBroadcast (publishRequest t r) \<and> pDeliverAt (publishRequest t r) = None \<and> pExpiresAt (publishRequest t r) = None
     \<and> pPayload (publishRequest t r) = Body r \<and> pPriority (publishRequest t r) = ''normal''"
  by (simp add: publishes_def publishRequest_def no_query instantAfter_def)

text \<open>An existing topic without messages and groups, where no consumer waits for a message to it.\<close>

definition idle_topic :: "Broker \<Rightarrow> string \<Rightarrow> nat \<Rightarrow> bool" where
  "idle_topic b n q \<longleftrightarrow> publish_check n = None \<and> \<not> HasSuffix n ''/'' \<and> \<not> Contains n ''..'' \<and> boundTopics n b = []
     \<and> mget (Topics b) n = Some q \<and> queued (heap b ! q) = [] \<and> receiver (matchingWildcards n b @ [q]) b = None"

lemma plain_name: "publish_check n = None \<Longrightarrow> \<not> Contains n ''..'' \<Longrightarrow> n \<noteq> [] \<and> \<not> Contains n ''*'' \<and> IsValidTopicName n"
  using valid_topic_star_free [of n] by (auto simp: publish_check_def IsValidTopicName_def Contains_char split: if_splits)

lemma extract_empty: "queued t = [] \<Longrightarrow> extractMessages tm t limit = ([], [], t)"
  by (cases t) (simp add: queued_def extractMessages_def Let_def)

lemma NewUUID_ok: "broker_inv b \<Longrightarrow> \<exists>i. NewUUID (randOut b k) = Some i"
proof -
  assume "broker_inv b"
  then obtain x where "randOut b k = Some x" unfolding broker_inv_def by blast
  then show ?thesis by (simp add: NewUUID_def Let_def)
qed

text \<open>An accepted publish over HTTP, in terms of the broker.\<close>

lemma accepted_publish:
  assumes "admits env s r" and "publishes n r" and "n \<noteq> []" and "\<not> HasSuffix n ''/''"
    and "ServeHTTP env ctx r s = Ret (resp, s')" and "Status resp = 202"
  shows "\<exists>b. Publish (now ctx) n (publishRequest (now ctx) r) (broker s) = Ret (None, b) \<and> s' = s\<lparr>broker := b\<rparr>"
proof -
  have p: "Path r = ''/publish/'' @ n" using assms(2) by (simp add: publishes_def)
  let ?P = "Publish (now ctx) n (publishRequest (now ctx) r) (broker s)"
  have "bind_run (bind_run ?P (\<lambda>(err, b). case err of
        Some e \<Rightarrow> fail e (publishStatus e) (s\<lparr>inFlight := inFlight s + 1, broker := b\<rparr>)
      | None \<Rightarrow> respond 202 (encode (strings [(''status'', ''accepted''), (''topic'', n)])) (s\<lparr>inFlight := inFlight s + 1, broker := b\<rparr>)))
      (\<lambda>(resp, s). Ret (resp, s\<lparr>inFlight := inFlight s - 1\<rparr>)) = Ret (resp, s')"
    using admitted [OF assms(1) publish_route [OF p]] handlePublish_plain [OF assms(2-4)] assms(5) by simp
  then show ?thesis
    using assms(6) publishStatus_not_202
    by (cases ?P) (auto simp: fail_def respond_def split: option.splits prod.splits)
qed

lemma consume_answer:
  assumes "admits env s r" and "consumes n r" and "n \<noteq> []" and "\<not> HasSuffix n ''/''"
    and "Consume (now ctx) n 1 (length (chans (broker s))) (snd (newChan 1 (broker s))) = ((msgs, ok), b)"
  shows "msgs = [m] \<Longrightarrow> ok \<Longrightarrow> ServeHTTP env ctx r s = Ret (\<lparr>Status = 200, RespBody = encode (qolJSON env m)\<rparr>, s\<lparr>broker := b\<rparr>)"
    and "\<not> ok \<Longrightarrow> TopicExists n b \<Longrightarrow> ServeHTTP env ctx r s = Ret (\<lparr>Status = 204, RespBody = []\<rparr>, s\<lparr>broker := b\<rparr>)"
proof -
  have p: "Path r = ''/consume/'' @ n" using assms(2) by (simp add: consumes_def)
  note e = admitted [OF assms(1) consume_route [OF p], of ctx, unfolded handleConsume_plain [OF assms(2-4)]]
  show "msgs = [m] \<Longrightarrow> ok \<Longrightarrow> ServeHTTP env ctx r s = Ret (\<lparr>Status = 200, RespBody = encode (qolJSON env m)\<rparr>, s\<lparr>broker := b\<rparr>)"
    and "\<not> ok \<Longrightarrow> TopicExists n b \<Longrightarrow> ServeHTTP env ctx r s = Ret (\<lparr>Status = 204, RespBody = []\<rparr>, s\<lparr>broker := b\<rparr>)"
    using assms(5) by (simp_all add: e respondWithQoL_def noMessages_def respond_def)
qed

lemma idle_topic_publish:
  assumes "broker_inv b" and "publish_check n = None" and "boundTopics n b = []" and "mget (Topics b) n = Some q" and "queued (heap b ! q) = []"
    and "publishes n r" and "Publish t n (publishRequest t r) b = Ret (None, b')"
  shows "\<exists>i. Topics b' = Topics b \<and> (case receiver (matchingWildcards n b @ [q]) b of
       None \<Rightarrow> heap b' = (heap b)[q := enqueue ''normal'' (publish_message t n (publishRequest t r) (heap b ! q) i) (heap b ! q)]
     | Some (w, c) \<Rightarrow> buf (chans b' ! c) = [publish_message t n (publishRequest t r) (heap b ! q) i] \<and> c \<notin># waits b'
          \<and> map queued (heap b') = map queued (heap b))"
proof -
  obtain i where i: "NewUUID (randOut b (randTick b)) = Some i" using NewUUID_ok [OF assms(1)] by blast
  have room: "totalActiveMessages (heap b ! q) < maxMessages b"
    using assms(1,5) by (simp add: total_queued broker_inv_def)
  have f: "i \<notin> ID ` set (queued (heap b ! q))" using assms(5) by simp
  note req = plain_publishRequest [OF assms(6), of t]
  show ?thesis
    using publish_one_place [OF assms(1-4) room i f _ _ assms(7)] req by (auto simp: split: option.splits)
qed

text \<open>
  C14: What is published over HTTP is consumed over HTTP. Let a request with a body publish to an existing
  topic without messages, groups, retention or waiting consumers, and let the server accept it. The next
  plain consumption of the topic is answered with one message, the one that was published: it has the
  body as its payload and the topic's name, its JSON text is the body of the answer, and the queue of
  the topic is empty again.
\<close>

theorem rest_publish_consume:
  assumes "broker_inv (broker s)" and "idle_topic (broker s) n q" and "Retention (heap (broker s) ! q) \<le> 0"
    and "admits env s r1" and "publishes n r1" and "ServeHTTP env ctx1 r1 s = Ret (resp1, s1)" and "Status resp1 = 202"
    and "admits env s r2" and "consumes n r2"
  shows "\<exists>m s2. ServeHTTP env ctx2 r2 s1 = Ret (\<lparr>Status = 200, RespBody = encode (qolJSON env m)\<rparr>, s2)
     \<and> Payload m = Body r1 \<and> message.Topic m = n \<and> queued (heap (broker s2) ! q) = []"
proof -
  note idle = assms(2) [unfolded idle_topic_def]
  have n: "n \<noteq> []" "\<not> Contains n ''*''" "IsValidTopicName n" using plain_name idle by auto
  obtain b where p: "Publish (now ctx1) n (publishRequest (now ctx1) r1) (broker s) = Ret (None, b)" and s1: "s1 = s\<lparr>broker := b\<rparr>"
    using accepted_publish [OF assms(4,5) n(1) _ assms(6,7)] idle by blast
  obtain i where T: "Topics b = Topics (broker s)"
    and h: "heap b = (heap (broker s))[q := enqueue ''normal'' (publish_message (now ctx1) n (publishRequest (now ctx1) r1) (heap (broker s) ! q) i)
        (heap (broker s) ! q)]"
    using idle_topic_publish [OF assms(1) _ _ _ _ assms(5) p] idle by auto
  let ?m = "publish_message (now ctx1) n (publishRequest (now ctx1) r1) (heap (broker s) ! q) i"
  have q: "q < length (heap (broker s))" using assms(1) idle by (auto simp: broker_inv_def refs_ok_def)
  have m: "ExpiresAt ?m = None" "DeliverAt ?m = None" "Payload ?m = Body r1" "message.Topic ?m = n"
    using plain_publishRequest [OF assms(5), of "now ctx1"] assms(3) by (simp_all add: publish_message_def)
  have qm: "queued (heap b ! q) = [?m]" using idle q by (simp add: h queued_def enqueue_def)
  have ib: "broker_inv b" using broker_calls_inv [OF Publish_calls [OF p] assms(1)] .
  define b1 where "b1 = snd (newChan 1 b)"
  have b1: "broker_inv b1" "heap b1 = heap b" "Topics b1 = Topics b"
    using newChan_inv [OF ib, of 1] by (auto simp: b1_def newChan_def)
  obtain msgs ok b2 where c: "Consume (now ctx2) n 1 (length (chans b)) b1 = ((msgs, ok), b2)" by (metis prod.exhaust)
  have "mget (Topics b1) n = Some q" using b1 T idle by simp
  note sp = consume_spec [OF b1(1) n(2) disjI2 [OF n(3)] this c]
  have "deliverable (now ctx2) ?m" using m by (simp add: deliverable_def expired_def delayed_def)
  then have msgs: "msgs = [?m]" using sp b1(2) qm by simp
  have q2: "queued (heap b2 ! q) = []" using sp b1(2) qm msgs by (auto simp: split_off_def)
  have ok: ok using sp msgs by simp
  have ad: "admits env s1 r2" using assms(8) by (simp add: admits_def s1)
  have c2: "Consume (now ctx2) n 1 (length (chans (broker s1))) (snd (newChan 1 (broker s1))) = ((msgs, ok), b2)"
    using c by (simp add: s1 b1_def)
  have ns: "\<not> HasSuffix n ''/''" using idle by simp
  from consume_answer(1) [OF ad assms(9) n(1) ns c2 msgs ok] q2 m(3,4)
  show ?thesis by (intro exI [of _ ?m] exI [of _ "s1\<lparr>broker := b2\<rparr>"]) simp
qed

theorem rest_publish_consume_witness:
  "\<exists>m s1 s2. ServeHTTP (plain_env []) plain_ctx (plain_http ''POST'' ''/publish/q'' [104, 105]) lone_server
       = Ret (\<lparr>Status = 202, RespBody = encode (strings [(''status'', ''accepted''), (''topic'', ''q'')])\<rparr>, s1)
     \<and> ServeHTTP (plain_env []) plain_ctx (plain_http ''GET'' ''/consume/q'' []) s1
       = Ret (\<lparr>Status = 200, RespBody = encode (qolJSON (plain_env []) m)\<rparr>, s2) \<and> Payload m = [104, 105]"
proof -
  let ?r1 = "plain_http ''POST'' ''/publish/q'' [104, 105]" and ?r2 = "plain_http ''GET'' ''/consume/q'' []" and ?e = "plain_env []"
  have i: "idle_topic (broker lone_server) ''q'' 0" "Retention (heap (broker lone_server) ! 0) \<le> 0" by code_simp+
  have a: "admits ?e lone_server ?r1" "admits ?e lone_server ?r2" "consumes ''q'' ?r2" by code_simp+
  have p: "publishes ''q'' ?r1" by (simp add: publishes_def plain_http_def maxBody_def Header_Get_def)
  have "case Publish 1 ''q'' (publishRequest 1 ?r1) (broker lone_server) of Ret (e, b) \<Rightarrow> e = None | _ \<Rightarrow> False" by code_simp
  then obtain b where b: "Publish 1 ''q'' (publishRequest 1 ?r1) (broker lone_server) = Ret (None, b)" by (auto split: run.splits prod.splits)
  have "Path ?r1 = ''/publish/'' @ ''q''" "\<not> HasSuffix ''q'' ''/''" by (simp_all add: plain_http_def HasSuffix_def)
  note rt = admitted [OF a(1) publish_route [OF this(1)]] and hp = handlePublish_plain [OF p _ this(2)]
  have r: "ServeHTTP ?e plain_ctx ?r1 lone_server
      = Ret (\<lparr>Status = 202, RespBody = encode (strings [(''status'', ''accepted''), (''topic'', ''q'')])\<rparr>, lone_server\<lparr>broker := b\<rparr>)"
    unfolding rt by (subst hp) (simp_all add: b plain_ctx_def respond_def)
  from rest_publish_consume [OF lone_server_inv i a(1) p r _ a(2,3), of plain_ctx] r show ?thesis by (auto simp: plain_http_def)
qed

end
