(* ===== verification/BrokerFrame.thy ===== *)
theory BrokerFrame
  imports BrokerLimits
begin

text \<open>
  What a publish leaves alone. A publish works on topics, channels, goroutines and the log; whatever
  can be read off the other fields of the broker is the same afterwards.
\<close>

locale broker_view =
  fixes view :: "Broker \<Rightarrow> 'v"
  assumes view_updates [simp]:
    "view (b\<lparr>heap := h\<rparr>) = view b" "view (b\<lparr>chans := c\<rparr>) = view b" "view (b\<lparr>jobs := js\<rparr>) = view b"
    "view (b\<lparr>Topics := ts\<rparr>) = view b" "view (b\<lparr>wildcards := ws\<rparr>) = view b" "view (b\<lparr>compiledRegex := rx\<rparr>) = view b"
    "view (b\<lparr>storage := st\<rparr>) = view b" "view (b\<lparr>webhookSem := k\<rparr>) = view b"
    "view (b\<lparr>onPublishCalls := os\<rparr>) = view b" "view (b\<lparr>randTick := i\<rparr>) = view b"
begin

lemma view_updTopic [simp]: "view (updTopic r f b) = view b"
  by (simp add: updTopic_def)

lemma view_store [simp]: "view (storePut now n m b) = view b" "view (storeAck now n i b) = view b"
  by (simp_all add: storePut_def storeAck_def split: option.split)

lemma view_waiting [simp]: "view (popWaiting r b) = view b" "view (takeWaiting r b) = view b"
  by (simp_all add: popWaiting_def takeWaiting_def)

lemma view_trySend: "trySend c m b = Sent b' \<Longrightarrow> view b' = view b"
  by (auto simp: trySend_def Let_def split: if_splits)

lemma view_fold_run:
  "(\<And>x b b'. x \<in> set xs \<Longrightarrow> f x b = Ret b' \<Longrightarrow> view b' = view b) \<Longrightarrow> fold_run f xs b = Ret b' \<Longrightarrow> view b' = view b"
  using fold_run_rel [of xs f "\<lambda>b b'. view b' = view b" b b'] by simp

lemma view_offers: "fold_run (offer m) cs b = Ret b' \<Longrightarrow> view b' = view b"
  by (erule view_fold_run [rotated]) (auto simp: offer_def split: sent.splits dest: view_trySend)

lemma view_push_spies: "push_spies j b = Ret b' \<Longrightarrow> view b' = view b"
  unfolding push_spies_def by (erule view_fold_run [rotated]) (erule view_offers)

lemma view_push_webhooks [simp]: "view (push_webhooks j b) = view b"
proof -
  have "view (fold (push_webhook p) ws b) = view b" for p ws
    by (induction ws arbitrary: b) (simp_all add: push_webhook_def)
  then show ?thesis by (simp add: push_webhooks_def)
qed

lemma view_push_wild: "push_wild j rs b = Ret (d, b') \<Longrightarrow> view b' = view b"
proof (induction rs arbitrary: b)
  case (Cons r rs)
  then show ?case by (cases "waitingConsumers (heap b ! r)") (auto split: sent.splits dest: view_trySend)
qed simp

lemma view_push_direct: "push_direct j b = Ret b' \<Longrightarrow> view b' = view b"
  by (auto simp: push_direct_def split: list.splits sent.splits dest: view_trySend)

lemma view_push_broadcast [simp]: "view (push_broadcast j b) = view b"
proof -
  have "view (snd (fold (\<lambda>r (cs, b). (cs @ waitingConsumers (heap b ! r), takeWaiting r b)) rs (cs, b))) = view b" for rs cs
    by (induction rs arbitrary: cs b) simp_all
  from this [of "jWild j @ [jTopic j]" "[]"] show ?thesis
    by (auto simp: push_broadcast_def split: prod.splits simp del: fold_append)
qed

lemma view_pushFunc:
  assumes "pushFunc j b = Ret b'"
  shows "view b' = view b"
proof -
  obtain b1 where s: "push_spies j (push_webhooks j b) = Ret b1"
    using assms by (cases "push_spies j (push_webhooks j b)") (auto simp: pushFunc_def)
  have b1: "view b1 = view b" using view_push_spies [OF s] by simp
  show ?thesis
  proof (cases "jBroadcast j")
    case True
    with assms s b1 show ?thesis by (auto simp: pushFunc_def)
  next
    case False
    obtain d b2 where d: "push_wild j (jWild j) b1 = Ret (d, b2)"
      using assms s False by (cases "push_wild j (jWild j) b1") (auto simp: pushFunc_def)
    from view_push_wild [OF this] assms s False d b1 show ?thesis
      by (auto simp: pushFunc_def split: if_splits dest: view_push_direct)
  qed
qed

lemma view_getOrCreateTopic: "getOrCreateTopic n b = (ro, b') \<Longrightarrow> view b' = view b"
proof -
  have "view (addTopic n t b) = view b" for t
  proof -
    have "view (compileWildcardRegex n b) = view b" for b
      by (simp add: compileWildcardRegex_def split: option.split)
    then show ?thesis by (simp add: addTopic_def Let_def)
  qed
  then show "getOrCreateTopic n b = (ro, b') \<Longrightarrow> view b' = view b"
    by (auto simp: getOrCreateTopic_def split: option.splits if_splits)
qed

lemma view_publish_enqueue: "publish_enqueue now n req r m b = Ret (e, b') \<Longrightarrow> view b' = view b"
  by (auto simp: publish_enqueue_def Let_def split: if_splits option.splits)

lemma view_callOnPublish: "callOnPublish n req b = (e, b') \<Longrightarrow> view b' = view b"
  by (auto simp: callOnPublish_def split: option.splits if_splits)

lemma view_publish_local:
  assumes "publish_local now n req b = Ret (e, b')"
  shows "view b' = view b"
proof -
  obtain ro b1 where g: "getOrCreateTopic n b = (ro, b1)" by (rule prod.exhaust)
  note v1 = view_getOrCreateTopic [OF g]
  show ?thesis
  proof (cases ro)
    case None
    with assms g v1 show ?thesis by (simp add: publish_local_def)
  next
    case (Some r)
    then obtain i where u: "NewUUID (randOut b1 (randTick b1)) = Some i"
      using assms g by (cases "NewUUID (randOut b1 (randTick b1))") (auto simp: publish_local_def)
    obtain e2 b2 where c: "callOnPublish n req (b1\<lparr>randTick := Suc (randTick b1)\<rparr>) = (e2, b2)" by (rule prod.exhaust)
    have v2: "view b2 = view b" using view_callOnPublish [OF c] v1 by simp
    let ?m = "publish_message now n req (heap b1 ! r) i"
    show ?thesis
    proof (cases "publish_enqueue now n req r ?m b2")
      case (Ret x)
      obtain e3 b3 where x: "x = (e3, b3)" by (rule prod.exhaust)
      have v3: "view b3 = view b" using view_publish_enqueue [OF Ret [unfolded x]] v2 by simp
      let ?j = "\<lparr>jName = n, jTopic = r, jMsg = ?m, jWild = matchingWildcards n b1, jBroadcast = pBroadcast req\<rparr>"
      have "b' = b2 \<or> b' = b3 \<or> (\<exists>js. b' = b3\<lparr>jobs := js\<rparr>) \<or> pushFunc ?j b3 = Ret b'"
        using assms g Some u c Ret x
        by (cases "pushFunc ?j b3") (auto simp: publish_local_def Let_def split: option.splits if_splits)
      then show ?thesis using v2 v3 view_pushFunc [of ?j b3 b'] by auto
    qed (use assms g Some u c v2 in \<open>auto simp: publish_local_def Let_def split: option.splits\<close>)
  qed
qed

lemma view_publishCore: "publishCore k now n req b = Ret (e, b') \<Longrightarrow> view b' = view b"
proof (induction k arbitrary: n b e b')
  case (Suc k)
  let ?f = "\<lambda>dest b. bind_run (publishCore k now dest req b) (\<lambda>(_, b). Ret b)"
  have step: "?f x b = Ret b' \<Longrightarrow> view b' = view b" for x b b'
    using Suc.IH [of x b] by (cases "publishCore k now x req b") auto
  show ?case
  proof (cases "publish_check n")
    case None
    then obtain b1 where b1: "fold_run ?f (boundTopics n b) b = Ret b1" "publish_local now n req b1 = Ret (e, b')"
      using Suc.prems by (cases "fold_run ?f (boundTopics n b) b") auto
    have "view b1 = view b" using step by (rule view_fold_run [OF _ b1(1)])
    with view_publish_local [OF b1(2)] show ?thesis by simp
  qed (use Suc.prems in auto)
qed simp

lemma view_Publish: "Publish now n req b = Ret (e, b') \<Longrightarrow> view b' = view b"
  unfolding Publish_def by (rule view_publishCore)

end

text \<open>The configuration, the webhooks, the bindings of groups and the keys of past publishes.\<close>

interpretation settings: broker_view "\<lambda>b. (webhooks b, idempotencyKeys b, bindings b, maxMessages b, maxTopics b)"
  by unfold_locales simp_all

end
