(* ===== verification/RestEffects.thy ===== *)
theory RestEffects
  imports RestProps BrokerFrame
begin

unbundle bit_operations_syntax

text \<open>
  What single requests do to the broker and to one another: polls without a timeout, retries with
  an idempotency key, webhook targets, and the embedded files of the dashboard.
\<close>

subsection \<open>A poll that nobody waits for\<close>

text \<open>A consumption of an idle topic registers the channel of the request as a waiting consumer.\<close>

lemma consume_idle:
  assumes "broker_inv b" and "n \<noteq> []" and "\<not> Contains n ''*''" and "IsValidTopicName n" and "mget (Topics b) n = Some q"
    and "queued (heap b ! q) = []"
  shows "Consume t n 1 (length (chans b)) (snd (newChan 1 b)) =
     (([], False), updTopic q (\<lambda>t. t\<lparr>waitingConsumers := waitingConsumers t @ [length (chans b)]\<rparr>) (snd (newChan 1 b)))"
proof -
  let ?b = "snd (newChan 1 b)"
  have h: "heap ?b = heap b" "Topics ?b = Topics b" by (simp_all add: newChan_def)
  have x: "extractMessages t (heap ?b ! q) 1 = ([], [], heap ?b ! q)" using extract_empty assms(6) h by simp
  have "mget (Topics ?b) n = Some q" using assms(5) h by simp
  from Consume_plain [OF assms(3) disjI2 [OF assms(4)] this x, of "length (chans b)"]
  show ?thesis by (simp add: ackExpired_def updTopic_def)
qed

text \<open>The broker after it: the channel of the request waits.\<close>

definition registered :: "nat \<Rightarrow> Broker \<Rightarrow> Broker" where
  "registered q b = updTopic q (\<lambda>t. t\<lparr>waitingConsumers := waitingConsumers t @ [length (chans b)]\<rparr>) (snd (newChan 1 b))"

lemma registered_simps [simp]:
  "Topics (registered q b) = Topics b" "boundTopics n (registered q b) = boundTopics n b"
  "length (heap (registered q b)) = length (heap b)"
  "wildcards (registered q b) = wildcards b" "compiledRegex (registered q b) = compiledRegex b" "xmatch (registered q b) = xmatch b"
  by (simp_all add: registered_def newChan_def updTopic_def boundTopics_def)

lemma registered_queued [simp]: "queued (heap (registered q b) ! q) = queued (heap b ! q)"
  by (cases "q < length (heap b)") (simp_all add: registered_def newChan_def updTopic_def queued_def list_update_beyond)

lemma registered_wildcards [simp]: "matchingWildcards n (registered q b) = matchingWildcards n b"
  by (simp only: matchingWildcards_def registered_simps)

lemma consume_nothing:
  assumes "broker_inv (broker s)" and "n \<noteq> []" and "\<not> Contains n ''*''" and "IsValidTopicName n" and "\<not> HasSuffix n ''/''"
    and "mget (Topics (broker s)) n = Some q" and "queued (heap (broker s) ! q) = []" and "admits env s r" and "consumes n r"
  shows "ServeHTTP env ctx r s = Ret (\<lparr>Status = 204, RespBody = []\<rparr>, s\<lparr>broker := registered q (broker s)\<rparr>)"
    and "broker_inv (registered q (broker s))"
proof -
  note c = consume_idle [OF assms(1-4,6,7), of "now ctx", folded registered_def]
  have "TopicExists n (registered q (broker s))" using assms(6) by (simp add: TopicExists_def)
  from consume_answer(2) [OF assms(8,9,2,5) c _ this]
  show "ServeHTTP env ctx r s = Ret (\<lparr>Status = 204, RespBody = []\<rparr>, s\<lparr>broker := registered q (broker s)\<rparr>)" by simp
  show "broker_inv (registered q (broker s))"
    using broker_calls_inv [OF step_calls [OF live_step.consume [OF _ _ c]] assms(1)] by (auto simp: newChan_def)
qed

lemma receiver_registered:
  assumes "receiver (ws @ [q]) b = None" and "q < length (heap b)"
  shows "receiver (ws @ [q]) (registered q b) = Some (q, length (chans b))"
  using assms
proof (induction ws)
  case (Cons w ws)
  then show ?case by (cases "w = q") (auto simp: registered_def newChan_def updTopic_def split: list.splits)
qed (auto simp: registered_def newChan_def updTopic_def split: list.splits)

text \<open>
  C36: A poll without a timeout costs a message. When a topic is idle, a plain consumption is answered with no
  content, but its channel stays behind as a waiting consumer. The next message that is
  published to the topic and accepted goes to that channel, which nobody reads: the following plain consumption
  is answered with no content as well, and the queue of the topic is empty.
\<close>

theorem abandoned_poll_takes_message:
  assumes "broker_inv (broker s)" and "idle_topic (broker s) n q"
    and "admits env s r1" and "consumes n r1" and "ServeHTTP env ctx1 r1 s = Ret (resp1, s1)"
    and "admits env s r2" and "publishes n r2" and "ServeHTTP env ctx2 r2 s1 = Ret (resp2, s2)" and "Status resp2 = 202"
    and "admits env s r3" and "consumes n r3" and "ServeHTTP env ctx3 r3 s2 = Ret (resp3, s3)"
  shows "Status resp1 = 204 \<and> Status resp3 = 204 \<and> queued (heap (broker s3) ! q) = []
     \<and> (\<exists>m. buf (chans (broker s2) ! length (chans (broker s))) = [m] \<and> Payload m = Body r2)"
proof -
  note idle = assms(2) [unfolded idle_topic_def]
  let ?b = "broker s" and ?c = "length (chans (broker s))"
  have n: "n \<noteq> []" "\<not> Contains n ''*''" "IsValidTopicName n" "\<not> HasSuffix n ''/''" using plain_name idle by auto
  have T: "mget (Topics ?b) n = Some q" and e: "queued (heap ?b ! q) = []" using idle by auto
  have q: "q < length (heap ?b)" using assms(1) T by (auto simp: broker_inv_def refs_ok_def)
  let ?b1 = "registered q ?b"
  note c1 = consume_nothing [OF assms(1) n T e assms(3,4)]
  have s1: "resp1 = \<lparr>Status = 204, RespBody = []\<rparr>" "s1 = s\<lparr>broker := ?b1\<rparr>" using c1(1) assms(5) by simp_all
  have "admits env s1 r2" using assms(6) by (simp add: admits_def s1)
  then obtain b2 where p: "Publish (now ctx2) n (publishRequest (now ctx2) r2) ?b1 = Ret (None, b2)" and s2: "s2 = s\<lparr>broker := b2\<rparr>"
    using accepted_publish [OF _ assms(7) n(1,4) assms(8,9)] s1 by auto
  have i2: "broker_inv b2" using broker_calls_inv [OF Publish_calls [OF p] c1(2)] .
  have "receiver (matchingWildcards n ?b1 @ [q]) ?b1 = Some (q, ?c)" using receiver_registered idle q by simp
  then obtain m where T2: "Topics b2 = Topics ?b" and m: "buf (chans b2 ! ?c) = [m]" "Payload m = Body r2"
    and h2: "map queued (heap b2) = map queued (heap ?b1)"
    using idle_topic_publish [OF c1(2) _ _ _ _ assms(7) p] idle plain_publishRequest [OF assms(7)]
    by (auto simp: publish_message_def)
  have "length (heap b2) = length (heap ?b)" using map_eq_imp_length_eq [OF h2] by simp
  then have q2: "queued (heap b2 ! q) = []"
    using q e nth_map [of q "heap b2" queued] nth_map [of q "heap ?b1" queued] h2 by simp
  have "admits env s2 r3" using assms(10) by (simp add: admits_def s2)
  with consume_nothing(1) [of s2 n q env r3 ctx3] i2 n T T2 q2 assms(11,12)
  have "resp3 = \<lparr>Status = 204, RespBody = []\<rparr>" "s3 = s2\<lparr>broker := registered q b2\<rparr>" by (simp_all add: s2)
  then show ?thesis using s1(1) m q2 by (simp add: s2)
qed


lemma admits_broker: "admits env (s\<lparr>broker := b\<rparr>) r = admits env s r"
  by (simp add: admits_def)

theorem abandoned_poll_takes_message_witness:
  "\<exists>resp1 s1 resp2 s2 resp3 s3.
     ServeHTTP (plain_env []) plain_ctx (plain_http ''GET'' ''/consume/q'' []) lone_server = Ret (resp1, s1) \<and> Status resp1 = 204
     \<and> ServeHTTP (plain_env []) plain_ctx (plain_http ''POST'' ''/publish/q'' [104, 105]) s1 = Ret (resp2, s2) \<and> Status resp2 = 202
     \<and> ServeHTTP (plain_env []) plain_ctx (plain_http ''GET'' ''/consume/q'' []) s2 = Ret (resp3, s3) \<and> Status resp3 = 204"
proof -
  let ?r1 = "plain_http ''GET'' ''/consume/q'' []" and ?r2 = "plain_http ''POST'' ''/publish/q'' [104, 105]" and ?e = "plain_env []"
  let ?b = "registered 0 (broker lone_server)"
  have i: "idle_topic (broker lone_server) ''q'' 0" by code_simp
  note idle = i [unfolded idle_topic_def]
  have a: "admits ?e lone_server ?r1" "admits ?e lone_server ?r2" "consumes ''q'' ?r1" by code_simp+
  have p: "publishes ''q'' ?r2" by (simp add: publishes_def plain_http_def maxBody_def Header_Get_def)
  have n: "''q'' \<noteq> []" "\<not> Contains ''q'' ''*''" "IsValidTopicName ''q''" "\<not> HasSuffix ''q'' ''/''" by code_simp+
  note c1 = consume_nothing [OF lone_server_inv n _ _ a(1,3), of 0]
  have r1: "ServeHTTP ?e plain_ctx ?r1 lone_server = Ret (\<lparr>Status = 204, RespBody = []\<rparr>, lone_server\<lparr>broker := ?b\<rparr>)"
    using c1(1) idle by simp
  have "case Publish 1 ''q'' (publishRequest 1 ?r2) ?b of Ret (e, b) \<Rightarrow> e = None | _ \<Rightarrow> False" by code_simp
  then obtain b where b: "Publish 1 ''q'' (publishRequest 1 ?r2) ?b = Ret (None, b)" by (auto split: run.splits prod.splits)
  have "admits ?e (lone_server\<lparr>broker := ?b\<rparr>) ?r2" using a(2) by (simp add: admits_broker)
  moreover have "Path ?r2 = ''/publish/'' @ ''q''" by (simp add: plain_http_def)
  ultimately have rt: "ServeHTTP ?e plain_ctx ?r2 (lone_server\<lparr>broker := ?b\<rparr>)
      = bind_run (handlePublish ?e plain_ctx ?r2 (lone_server\<lparr>broker := ?b, inFlight := inFlight lone_server + 1\<rparr>))
          (\<lambda>(resp, s). Ret (resp, s\<lparr>inFlight := inFlight s - 1\<rparr>))"
    using admitted [OF _ publish_route] by simp
  have r2: "ServeHTTP ?e plain_ctx ?r2 (lone_server\<lparr>broker := ?b\<rparr>)
      = Ret (\<lparr>Status = 202, RespBody = encode (strings [(''status'', ''accepted''), (''topic'', ''q'')])\<rparr>, lone_server\<lparr>broker := b\<rparr>)"
    unfolding rt handlePublish_plain [OF p n(1,4)] by (simp add: b plain_ctx_def respond_def)
  obtain resp3 s3 where r3: "ServeHTTP ?e plain_ctx ?r1 (lone_server\<lparr>broker := b\<rparr>) = Ret (resp3, s3)"
  proof -
    have "broker_inv ?b" using c1(2) idle by simp
    then have "broker_inv b" using broker_calls_inv [OF Publish_calls [OF b]] by simp
    then have "acts (lone_server\<lparr>broker := b\<rparr>) (ServeHTTP ?e plain_ctx ?r1 (lone_server\<lparr>broker := b\<rparr>))"
      using ServeHTTP_serves [OF plain_proper, of "[]"] by (simp add: serves_def)
    then show ?thesis using that unfolding acts_def by blast
  qed
  from abandoned_poll_takes_message [OF lone_server_inv i a(1,3) r1 a(2) p r2 _ a(1,3) r3] r1 r2 r3 show ?thesis by auto
qed

subsection \<open>Retries\<close>

lemma IsIdempotent_first:
  assumes "key \<noteq> []" and "mget (idempotencyKeys b) key = None" and "int (length (idempotencyKeys b)) < maxIdempotencyKeys"
  shows "\<exists>keys. IsIdempotent t key b = (False, b\<lparr>idempotencyKeys := mput key (t + 5 * 60 * 1000000000) keys\<rparr>)"
proof -
  define keys where "keys = (if 5000 < int (length (idempotencyKeys b)) then filter (\<lambda>(k, v). \<not> v < t) (idempotencyKeys b)
    else idempotencyKeys b)"
  have "length keys \<le> length (idempotencyKeys b)" by (simp add: keys_def)
  then have "\<not> maxIdempotencyKeys \<le> int (length keys)" using assms(3) by linarith
  then show ?thesis using assms(1,2) unfolding IsIdempotent_def keys_def [symmetric] by (auto simp: Let_def)
qed

lemma IsIdempotent_again:
  "key \<noteq> [] \<Longrightarrow> mget (idempotencyKeys b) key = Some e \<Longrightarrow> t < e \<Longrightarrow> IsIdempotent t key b = (True, b)"
  by (simp add: IsIdempotent_def)

lemma handlePublish_keyed:
  assumes "Method r = ''POST''" and "extractTopicFromPath r ''/publish/'' \<noteq> []" and "Body r \<noteq> []" and "length (Body r) \<le> maxBody"
    and "idempotencyKey env r \<noteq> []" and "IsIdempotent (now ctx) (idempotencyKey env r) (broker s) = (seen, b)"
  shows "handlePublish env ctx r s =
     (if seen then Ret (\<lparr>Status = 200, RespBody = encode (strings
        [(''reason'', ''idempotency_key_exists''), (''status'', ''ignored''), (''topic'', extractTopicFromPath r ''/publish/'')])\<rparr>, s\<lparr>broker := b\<rparr>)
      else bind_run (Publish (now ctx) (extractTopicFromPath r ''/publish/'') (publishRequest (now ctx) r) b)
        (\<lambda>(err, b). case err of
           Some e \<Rightarrow> Ret (Error e (publishStatus e), s\<lparr>broker := b\<rparr>)
         | None \<Rightarrow> Ret (\<lparr>Status = 202, RespBody = encode (strings [(''status'', ''accepted''), (''topic'', extractTopicFromPath r ''/publish/'')])\<rparr>,
             s\<lparr>broker := b\<rparr>)))"
  unfolding handlePublish_def Let_def fail_def respond_def using assms by (cases seen) simp_all

text \<open>
  C37: A publish with a new idempotency key is tried at most once in five minutes. When the first request
  carries a key that the table does not hold and has room for, a second request with the same key within
  five minutes is answered as a duplicate and changes nothing. This holds whatever the answer to the
  first one was: a publish that failed is not repeated by its retry, which is told that all is well.
\<close>

theorem retry_is_ignored:
  assumes "Method r = ''POST''" and "extractTopicFromPath r ''/publish/'' \<noteq> []" and "Body r \<noteq> []" and "length (Body r) \<le> maxBody"
    and "idempotencyKey env r \<noteq> []" and "mget (idempotencyKeys (broker s)) (idempotencyKey env r) = None"
    and "int (length (idempotencyKeys (broker s))) < maxIdempotencyKeys"
    and "handlePublish env ctx r s = Ret (resp, s1)" and "now ctx2 < now ctx + 5 * 60 * 1000000000"
  shows "handlePublish env ctx2 r s1 = Ret (\<lparr>Status = 200, RespBody = encode (strings
     [(''reason'', ''idempotency_key_exists''), (''status'', ''ignored''), (''topic'', extractTopicFromPath r ''/publish/'')])\<rparr>, s1)"
proof -
  let ?k = "idempotencyKey env r" and ?t = "extractTopicFromPath r ''/publish/''"
  obtain keys where k: "IsIdempotent (now ctx) ?k (broker s)
      = (False, broker s\<lparr>idempotencyKeys := mput ?k (now ctx + 5 * 60 * 1000000000) keys\<rparr>)"
    using IsIdempotent_first [OF assms(5-7)] by blast
  define b where "b = broker s\<lparr>idempotencyKeys := mput ?k (now ctx + 5 * 60 * 1000000000) keys\<rparr>"
  let ?P = "Publish (now ctx) ?t (publishRequest (now ctx) r) b"
  obtain e b' where p: "?P = Ret (e, b')" and s1: "s1 = s\<lparr>broker := b'\<rparr>"
    using assms(8) unfolding handlePublish_keyed [OF assms(1-5) k [folded b_def]]
    by (cases ?P) (auto split: option.splits)
  have "idempotencyKeys b' = idempotencyKeys b" using settings.view_Publish [OF p] by simp
  then have "mget (idempotencyKeys (broker s1)) ?k = Some (now ctx + 5 * 60 * 1000000000)" by (simp add: s1 b_def)
  from handlePublish_keyed [OF assms(1-5) IsIdempotent_again [OF assms(5) this assms(9)]] show ?thesis by simp
qed

text \<open>A publish to a name that is no topic, with a key.\<close>

definition keyed_http :: http_request where
  "keyed_http = (plain_http ''POST'' ''/publish/a b'' [1])\<lparr>Header := [(''Idempotency-Key'', [''k1''])]\<rparr>"

theorem retry_is_ignored_witness:
  "\<exists>resp s1 resp2. handlePublish (plain_env []) plain_ctx keyed_http lone_server = Ret (resp, s1) \<and> Status resp = 400
     \<and> handlePublish (plain_env []) plain_ctx keyed_http s1 = Ret (resp2, s1) \<and> Status resp2 = 200"
proof -
  let ?e = "plain_env []"
  have f: "Method keyed_http = ''POST''" "extractTopicFromPath keyed_http ''/publish/'' \<noteq> []" "Body keyed_http \<noteq> []"
    "length (Body keyed_http) \<le> maxBody" "idempotencyKey ?e keyed_http \<noteq> []"
    "mget (idempotencyKeys (broker lone_server)) (idempotencyKey ?e keyed_http) = None"
    "int (length (idempotencyKeys (broker lone_server))) < maxIdempotencyKeys"
    by (code_simp, code_simp, code_simp, simp add: keyed_http_def plain_http_def maxBody_def, code_simp, code_simp, code_simp)
  obtain keys where k: "IsIdempotent (now plain_ctx) (idempotencyKey ?e keyed_http) (broker lone_server) = (False, keys)"
    using IsIdempotent_first [OF f(5-7)] by blast
  have "publish_check (extractTopicFromPath keyed_http ''/publish/'') = Some ''invalid topic name''" by code_simp
  then have "Publish t (extractTopicFromPath keyed_http ''/publish/'') req b = Ret (Some ''invalid topic name'', b)" for t req b
    unfolding Publish_def by (simp add: eval_nat_numeral)
  moreover have "publishStatus ''invalid topic name'' = 400" by code_simp
  ultimately obtain resp s1 where h: "handlePublish ?e plain_ctx keyed_http lone_server = Ret (resp, s1)" "Status resp = 400"
    unfolding handlePublish_keyed [OF f(1-5) k] by simp
  have "now plain_ctx < now plain_ctx + 5 * 60 * 1000000000" by simp
  from retry_is_ignored [OF f h(1) this] h show ?thesis by auto
qed

subsection \<open>Webhook targets\<close>

lemma bytes_all: "list_all (\<lambda>k. P (of_nat k :: byte)) [0..<256] \<Longrightarrow> P x"
proof -
  assume "list_all (\<lambda>k. P (of_nat k :: byte)) [0..<256]"
  moreover have "unat x \<in> set [0..<256]" using byte_bound [of x] by simp
  ultimately have "P (of_nat (unat x) :: byte)" unfolding list_all_iff by blast
  then show ?thesis by simp
qed

lemma block_172: "(x :: byte) AND 0xF0 = 16 \<longleftrightarrow> 16 \<le> unat x \<and> unat x \<le> 31"
  by (rule bytes_all [where x = x]) code_simp

lemma block_fc: "(x :: byte) AND 0xFE = 0xFC \<longleftrightarrow> unat x = 252 \<or> unat x = 253"
  by (rule bytes_all [where x = x]) code_simp

text \<open>An address of the internal networks: loopback, private or link-local, in four bytes or in sixteen.\<close>

definition internal4 :: "nat \<Rightarrow> nat \<Rightarrow> bool" where
  "internal4 a b \<longleftrightarrow> a = 127 \<or> a = 10 \<or> (a = 172 \<and> 16 \<le> b \<and> b \<le> 31) \<or> (a = 192 \<and> b = 168) \<or> (a = 169 \<and> b = 254)"

lemma forbidden4:
  "ip = [a, b, c, d] \<or> ip = replicate 10 0 @ [0xFF, 0xFF, a, b, c, d] \<Longrightarrow>
   IsLoopback ip \<or> IsPrivate ip \<or> IsLinkLocalUnicast ip \<longleftrightarrow> internal4 (unat a) (unat b)"
proof -
  assume i: "ip = [a, b, c, d] \<or> ip = replicate 10 0 @ [0xFF, 0xFF, a, b, c, d]"
  have u: "x = k \<longleftrightarrow> unat x = unat k" for x k :: byte by (simp add: word_unat_eq_iff)
  from i have "To4 ip = Some [a, b, c, d]" by (auto simp: To4_def)
  then show ?thesis
    by (auto simp: IsLoopback_def IsPrivate_def IsLinkLocalUnicast_def internal4_def block_172 u [of a] u [of b])
qed


text \<open>A host name that resolves to a public address, and a request to call it.\<close>

definition public_env :: rest_env where
  "public_env = (plain_env [])\<lparr>ParseRequestURI := (\<lambda>u. Some (''http'', ''h'')), LookupIP := (\<lambda>h. Some [[8, 8, 8, 8]])\<rparr>"

definition hook_http :: http_request where
  "hook_http = plain_http ''POST'' ''/webhook/q'' (bytesOf (Marshal (strings [(''url'', ''http://h'')])))"


subsection \<open>The files of the dashboard\<close>

text \<open>
  The texts of the dashboard are not where it looks for them. The directory \<^verbatim>\<open>static\<close> is embedded
  with its name, so the names of all its files start with \<^verbatim>\<open>static/\<close>; the route strips the same word from the
  path. A request for a file directly below the route, as the dashboard makes for its translations, is
  answered as not found, whatever files there are, while every file is served below \<^verbatim>\<open>/static/static/\<close>.
\<close>

theorem dashboard_texts_not_found:
  assumes "\<forall>f \<in> set (mkeys (staticFS env)). HasPrefix f ''static/''" and "CHR ''/'' \<notin> set f"
    and "f \<notin> {[], ''.'', ''..'', ''static'', ''index.html''}" and "Path r = ''/static/'' @ f"
  shows "handleStatic env r s = Ret (Error ''404 page not found'' 404, s)"
proof -
  have sp: "Split f ''/'' = [f]" using Split_char_nosep [OF assms(2)] .
  have j: "Join (fold cleanSegment (Split f ''/'') []) ''/'' = f" using assms(3) by (simp add: sp cleanSegment_def)
  have slash: "\<not> HasSuffix (''/'' @ f) ''/''"
    using assms(2,3) by (auto simp: HasSuffix_iff Cons_eq_append_conv)
  have index: "\<not> HasSuffix (''/'' @ f) ''/index.html''"
    using assms(2,3) by (auto simp: HasSuffix_iff Cons_eq_append_conv)
  have first: "takeWhile (\<lambda>c. c \<noteq> CHR ''/'') (p @ CHR ''/'' # u) = p" if "CHR ''/'' \<notin> set p" for p u
    using that by (induction p) auto
  have "\<not> HasPrefix g (f @ ''/'')" if "HasPrefix g ''static/''" for g
  proof
    assume "HasPrefix g (f @ ''/'')"
    then obtain u where "g = f @ CHR ''/'' # u" by (auto simp: HasPrefix_iff)
    then have "takeWhile (\<lambda>c. c \<noteq> CHR ''/'') g = f" using first [OF assms(2)] by simp
    moreover obtain t where "g = ''static/'' @ t" using \<open>HasPrefix g ''static/''\<close> by (auto simp: HasPrefix_iff)
    then have "takeWhile (\<lambda>c. c \<noteq> CHR ''/'') g = ''static''" by simp
    ultimately show False using assms(3) by simp
  qed
  then have dir: "\<not> list_ex (\<lambda>g. HasPrefix g (f @ ''/'')) (mkeys (staticFS env))" using assms(1) by (auto simp: list_ex_iff)
  have "f \<notin> set (mkeys (staticFS env))" using assms(1,2) by (auto simp: HasPrefix_iff)
  then have "mget (staticFS env) f = None" by (simp add: mget_None_iff mkeys_def)
  then show ?thesis
    using slash index dir assms(3) unfolding handleStatic_def FileServerFS_def assms(4) TrimPrefix_append j Let_def by simp
qed

lemma files_served_below:
  assumes "mget (staticFS env) f = Some content" and "f = ''static/'' @ g" and "CHR ''/'' \<notin> set g"
    and "g \<notin> {[], ''.'', ''..'', ''index.html''}" and "Path r = ''/static/static/'' @ g"
  shows "handleStatic env r s = Ret (\<lparr>Status = 200, RespBody = content\<rparr>, s)"
proof -
  have sp: "Split (''static/'' @ g) ''/'' = [''static'', g]"
    using Split_char_append [of "CHR ''/''" "''static''" g] Split_char_nosep [OF assms(3)] by simp
  have j: "Join (fold cleanSegment (Split (''static/'' @ g) ''/'') []) ''/'' = f"
    unfolding sp using assms(2,4) by (simp add: cleanSegment_def)
  have p: "TrimPrefix (Path r) ''/static/'' = ''static/'' @ g"
    using TrimPrefix_append [of "''/static/''" "''static/'' @ g"] by (simp add: assms(5))
  have slash: "\<not> HasSuffix (''/'' @ ''static/'' @ g) ''/''"
    using assms(3,4) by (auto simp: HasSuffix_iff Cons_eq_append_conv)
  have index: "\<not> HasSuffix (''/'' @ ''static/'' @ g) ''/index.html''"
    using assms(3,4) by (auto simp: HasSuffix_iff Cons_eq_append_conv)
  show ?thesis using slash index assms(1) unfolding handleStatic_def FileServerFS_def p j Let_def by simp
qed

theorem dashboard_texts_not_found_witness:
  "handleStatic ((plain_env [])\<lparr>staticFS := [(''static/en.json'', ''{}''), (''static/es.json'', ''{}'')]\<rparr>)
     (plain_http ''GET'' ''/static/en.json'' []) lone_server = Ret (Error ''404 page not found'' 404, lone_server)"
  by (rule dashboard_texts_not_found [where f = "''en.json''"]) (simp_all add: plain_http_def mkeys_def)

end
