(* ===== verification/ClientProps.thy ===== *)
theory ClientProps
  imports Client RestEffects
begin

text \<open>
  The client library together with the server: what a call does to the broker at the other end, and what
  it returns.
\<close>

text \<open>The transport that hands a request, which comes from the given address, to the server.\<close>

definition overHTTP :: "rest_env \<Rightarrow> request_ctx \<Rightarrow> string \<Rightarrow> Server transport" where
  "overHTTP env ctx addr origin r s =
     (case ServeHTTP env ctx (r\<lparr>RemoteAddr := addr\<rparr>) s of Ret (resp, s') \<Rightarrow> (Inr resp, s') | _ \<Rightarrow> (Inl ''EOF'', s))"

text \<open>A server that serves requests itself, and a client that has its key.\<close>

definition open_to :: "rest_env \<Rightarrow> Server \<Rightarrow> Client \<Rightarrow> bool" where
  "open_to env s c \<longleftrightarrow> \<not> draining s \<and> (case clusterNode s of None \<Rightarrow> True | Some n \<Rightarrow> IsLeader n) \<and> rateLimiter s = None
     \<and> (apiKey env = [] \<or> apiKey env = sdkKey c) \<and> sdkPrefix c = []"

lemma valid_topic_plain: "valid_topic_char c \<Longrightarrow> plain_char c"
  by (auto simp: valid_topic_char_def plain_char_def control_def ord_def)

lemma topic_plain: "publish_check n = None \<Longrightarrow> list_all plain_char n"
  using valid_topic_plain by (auto simp: publish_check_def validTopicRegex_def list_all_iff split: if_splits)

subsection \<open>Publishing\<close>

lemma fold_mput_new:
  "distinct (map fst ps) \<Longrightarrow> \<forall>k \<in> fst ` set ps. mget m k = None \<Longrightarrow> fold (\<lambda>(k, v). mput k v) ps m = m @ ps"
proof (induction ps arbitrary: m)
  case (Cons p ps)
  obtain k v where p: "p = (k, v)" by (cases p)
  have "mget m k = None" using Cons.prems(2) p by simp
  then have "mput k v m = m @ [(k, v)]" unfolding mget_def mput_def by (induction m) (auto split: if_splits)
  moreover have "fold (\<lambda>(k, v). mput k v) ps (mput k v m) = mput k v m @ ps"
    using Cons.prems p by (intro Cons.IH) auto
  ultimately show ?case using p by simp
qed simp

lemma publishHeaders_keys:
  "fst ` set (publishHeaders (Some opts)) = {''Content-Type''} \<union> (if optIdempotency opts \<noteq> [] then {''Idempotency-Key''} else {})
     \<union> CanonicalMIMEHeaderKey ` fst ` set (optHeaders opts)"
proof -
  have "fst ` set (fold (\<lambda>(k, v). mput (f k) [v]) xs m) = fst ` set m \<union> f ` fst ` set xs" for f :: "string \<Rightarrow> string" and xs :: "(string \<times> string) list" and m
    by (induction xs arbitrary: m) (simp_all add: keys_mput split_beta)
  then show ?thesis by (simp add: publishHeaders_def keys_mput Let_def insert_commute)
qed

lemma publishHeaders_wf: "wf_map (publishHeaders (Some opts))"
proof -
  have "wf_map m \<Longrightarrow> wf_map (fold (\<lambda>(k, v). mput (f k) [v]) xs m)" for f :: "string \<Rightarrow> string" and xs :: "(string \<times> string) list" and m
    by (induction xs arbitrary: m) auto
  then show ?thesis by (simp add: publishHeaders_def Let_def)
qed

text \<open>The query parameters the server finds.\<close>

lemma map_of_Set: "map_of (Values_Set k v q) k' = (if k' = k then Some v else map_of q k')"
proof -
  have "map_of (filter (\<lambda>(k', _). k' \<noteq> k) q) k' = (if k' = k then None else map_of q k')" by (induction q) auto
  then show ?thesis by (simp add: Values_Set_def map_add_def split: option.split)
qed

lemma query_of_options:
  assumes "RawQuery r = Values_Encode (publishQuery (Some opts) [])"
  shows "Query_Get r ''ttl'' = (if optTTL opts > 0 then duration_String (optTTL opts) else [])"
    and "Query_Get r ''delay'' = (if optDelay opts > 0 then duration_String (optDelay opts) else [])"
    and "Query_Get r ''broadcast'' = (if optBroadcast opts then ''true'' else [])"
    and "Query_Get r ''priority'' = optPriority opts" and "Query_Get r ''idempotency'' = []"
  by (simp_all add: assms Query_Get_def ParseQuery_Encode map_of_sort_key publishQuery_def Let_def map_of_Set)

lemma instantAfter_String:
  assumes "d < 2 ^ 63"
  shows "instantAfter t (if d > 0 then duration_String d else []) = (if d > 0 then Some (t + d) else None)"
proof -
  have "ParseDuration [] = None" by code_simp
  then have "d > 0 \<Longrightarrow> duration_String d \<noteq> []" using ParseDuration_String [OF _ assms] by auto
  then show ?thesis using ParseDuration_String [OF _ assms] by (simp add: instantAfter_def)
qed

text \<open>The headers of the message, and the request that the broker gets.\<close>

definition messageHeaders :: "PublishOptions \<Rightarrow> (string, string) gomap" where
  "messageHeaders opts =
     fold (\<lambda>(k, v) hs. if HasPrefix (ToUpper k) ''X-MQ-'' then mput k (case v of [] \<Rightarrow> [] | x # _ \<Rightarrow> x) hs else hs)
       (publishHeaders (Some opts)) []"

definition brokerRequest :: "time \<Rightarrow> bytes \<Rightarrow> PublishOptions \<Rightarrow> publish_req" where
  "brokerRequest t payload opts =
     \<lparr>pPayload = payload, pHeaders = messageHeaders opts,
      pPriority = (if optPriority opts = [] then ''normal'' else optPriority opts),
      pExpiresAt = (if optTTL opts > 0 then Some (t + optTTL opts) else None),
      pDeliverAt = (if optDelay opts > 0 then Some (t + optDelay opts) else None),
      pBroadcast = optBroadcast opts, pReplication = False\<rparr>"

lemma client_request:
  assumes "sdkPrefix c = []" and "publish_check n = None"
  shows "client_publishRequest c n payload opts = Some
     \<lparr>Method = ''POST'', Path = ''/publish/'' @ n, RawQuery = Values_Encode (publishQuery opts []),
      Header = fold (\<lambda>(k, v). mput k v) (publishHeaders opts)
        (if sdkKey c \<noteq> [] then [(''Authorization'', [''Bearer '' @ sdkKey c])] else []),
      Body = payload, RemoteAddr = []\<rparr>"
proof -
  have "list_all plain_char ''/publish/''" by code_simp
  then have "parseTarget (''/publish/'' @ n) = Some (''/publish/'' @ n, [])"
    using topic_plain [OF assms(2)] by (intro parseTarget_plain) simp
  moreover have "ParseQuery [] = []" by code_simp
  ultimately show ?thesis using assms(1) by (simp add: client_publishRequest_def client_req_def)
qed

text \<open>Options without an idempotency key and without a header that the client or the server uses itself.\<close>

definition plain_options :: "PublishOptions \<Rightarrow> bool" where
  "plain_options opts \<longleftrightarrow> optIdempotency opts = [] \<and> optTTL opts < 2 ^ 63 \<and> optDelay opts < 2 ^ 63
     \<and> list_all (\<lambda>(k, _). CanonicalMIMEHeaderKey k \<notin> {''Authorization'', ''Idempotency-Key''}) (optHeaders opts)"

lemma client_headers:
  assumes "plain_options opts" and "Header r = fold (\<lambda>(k, v). mput k v) (publishHeaders (Some opts)) auth"
    and "auth = (if key \<noteq> [] then [(''Authorization'', [''Bearer '' @ key])] else [])"
  shows "Header_Get r ''Authorization'' = (if key \<noteq> [] then ''Bearer '' @ key else [])"
    and "Header_Get r ''Idempotency-Key'' = []" and "userHeaders r = messageHeaders opts"
proof -
  let ?hs = "publishHeaders (Some opts)"
  have k: "''Authorization'' \<notin> fst ` set ?hs" "''Idempotency-Key'' \<notin> fst ` set ?hs"
    using assms(1) by (auto simp: publishHeaders_keys plain_options_def list_all_iff)
  have "mget auth x = None" if "x \<noteq> ''Authorization''" for x using assms(3) that by (simp add: mget_def)
  then have h: "Header r = auth @ ?hs"
    unfolding assms(2) using publishHeaders_wf [of opts] k(1) by (intro fold_mput_new) metis+
  have c: "CanonicalMIMEHeaderKey ''Authorization'' = ''Authorization''" "CanonicalMIMEHeaderKey ''Idempotency-Key'' = ''Idempotency-Key''"
    "\<not> HasPrefix (ToUpper ''Authorization'') ''X-MQ-''"
    by code_simp+
  have n: "map_of ?hs ''Authorization'' = None" "map_of ?hs ''Idempotency-Key'' = None" using k by (simp_all add: map_of_eq_None_iff)
  show "Header_Get r ''Authorization'' = (if key \<noteq> [] then ''Bearer '' @ key else [])" "Header_Get r ''Idempotency-Key'' = []"
    using n by (simp_all add: Header_Get_def c h assms(3) mget_def map_add_def)
  show "userHeaders r = messageHeaders opts"
    using c(3) by (simp add: userHeaders_def messageHeaders_def h assms(3))
qed

lemma key_authorizes:
  assumes "apiKey env = [] \<or> apiKey env = key" and "Header_Get r ''Authorization'' = (if key \<noteq> [] then ''Bearer '' @ key else [])"
  shows "authorized (apiKey env) r"
proof (cases "apiKey env = []")
  case False
  then have "Header_Get r ''Authorization'' = ''Bearer '' @ apiKey env" using assms by auto
  then show ?thesis
    unfolding authorized_def using HasPrefix_append [of "''Bearer ''" "apiKey env"] TrimPrefix_append [of "''Bearer ''" "apiKey env"] by presburger
qed (simp add: authorized_def)


text \<open>A client with the key \<open>k\<close>, and a publish with every option.\<close>

definition key_client :: Client where
  "key_client = NewClient ''http://h:7800'' [] [''k'']"

definition all_options :: PublishOptions where
  "all_options = \<lparr>optTTL = 90000000000, optDelay = 1500000000, optBroadcast = False, optPriority = ''high'', optIdempotency = [],
     optHeaders = [(''x-mq-trace'', ''7'')]\<rparr>"

lemma key_client_open: "open_to (plain_env ''k'') lone_server key_client"
  by code_simp


subsection \<open>Consuming\<close>

lemma Decode_encode: "numbers_ok j \<Longrightarrow> int (depth j) \<le> maxNestingDepth \<Longrightarrow> Decode (encode j) = Some (coerced j)"
  using reads_backD [OF Marshal_reads_back, of j "[CHR 0x0A]" "Suc (2 * length (encode j))" maxNestingDepth]
  by (simp add: Decode_def encode_def ends_def digit_def ord_def)

lemma messageMembers_depth: "(k, v) \<in> set (messageMembers tt m) \<Longrightarrow> depth v \<le> 1"
  by (auto simp: messageMembers_def optTime_def headersJSON_def split: option.splits if_splits
      simp del: depth.simps(2) intro!: depth_JObj_le [of _ 0, simplified])

lemma qolJSON_ok: "numbers_ok (qolJSON env m)" "int (depth (qolJSON env m)) \<le> maxNestingDepth"
proof -
  show "numbers_ok (qolJSON env m)"
    using messageJSON_ok(1) [of "timeText env" m] by (simp add: qolJSON_def messageJSON_def omitempty_def)
  have "depth (qolJSON env m) \<le> Suc 1"
    unfolding qolJSON_def by (intro depth_JObj_le) (auto simp: omitempty_def dest: messageMembers_depth split: if_splits)
  then show "int (depth (qolJSON env m)) \<le> maxNestingDepth" by (simp add: maxNestingDepth_def)
qed

text \<open>One message in the answer is an object, and not the list that the client expects.\<close>

lemma single_not_decoded: "decodeBody (decodeMessages tt) (encode (qolJSON env m)) = Inl jsonError" "skip_ws (encode (qolJSON env m)) \<noteq> []"
proof -
  have "Decode (encode (qolJSON env m)) = Some (coerced (qolJSON env m))" by (rule Decode_encode [OF qolJSON_ok])
  moreover have "decodeMessages tt (coerced (qolJSON env m)) = None" by (simp add: decodeMessages_def qolJSON_def)
  ultimately show "decodeBody (decodeMessages tt) (encode (qolJSON env m)) = Inl jsonError" by (simp add: decodeBody_def)
  show "skip_ws (encode (qolJSON env m)) \<noteq> []" by (simp add: encode_def qolJSON_def skip_ws_def json_space_def)
qed

lemma subscribe_request:
  assumes "sdkPrefix c = []" and "publish_check n = None"
  shows "\<exists>r. client_req c ''GET'' (subscribeEndpoint n None) [] = Some r \<and> Method r = ''GET'' \<and> Path r = ''/consume/'' @ n
     \<and> RawQuery r = ''auto_ack=true'' \<and> Header_Get r ''Authorization'' = (if sdkKey c \<noteq> [] then ''Bearer '' @ sdkKey c else [])"
proof -
  have c: "CanonicalMIMEHeaderKey ''Authorization'' = ''Authorization''" by code_simp
  have "list_all plain_char ''/consume/''" "list_all (\<lambda>c. c \<noteq> CHR ''#'' \<and> \<not> control c) ''auto_ack=true''" by code_simp+
  then have "parseTarget ((''/consume/'' @ n) @ ''?'' @ ''auto_ack=true'') = Some (''/consume/'' @ n, ''auto_ack=true'')"
    using topic_plain [OF assms(2)] by (intro parseTarget_query) (simp_all add: list_all_iff)
  then show ?thesis using assms(1) by (simp add: client_req_def subscribeEndpoint_def Header_Get_def c mget_def)
qed

lemma auto_ack_query: "RawQuery r = ''auto_ack=true'' \<Longrightarrow> Query_Get r k = (if k = ''auto_ack'' then ''true'' else [])"
proof -
  have "ParseQuery ''auto_ack=true'' = [(''auto_ack'', ''true'')]" by code_simp
  then show "RawQuery r = ''auto_ack=true'' \<Longrightarrow> Query_Get r k = (if k = ''auto_ack'' then ''true'' else [])"
    by (simp add: Query_Get_def)
qed

lemma handleConsume_acking:
  assumes "Method r = ''GET''" and "Path r = ''/consume/'' @ n" and "RawQuery r = ''auto_ack=true''" and "n \<noteq> []" and "\<not> HasSuffix n ''/''"
    and "Consume (now ctx) n 1 (length (chans (broker s))) (snd (newChan 1 (broker s))) = (([m], True), b)"
  shows "handleConsume env ctx r s = Ret (\<lparr>Status = 200, RespBody = encode (qolJSON env m)\<rparr>, s\<lparr>broker := snd (Ack (now ctx) n (ID m) b)\<rparr>)"
  using assms topic_of_path [OF assms(2,5)]
  by (simp add: handleConsume_def consumeFrom_def auto_ack_query Let_def consumeLimit_def filtered_def autoAck_def newChan_def
      respondWithQoL_def respond_def split: prod.split)

lemma set_remove_first: "set (remove_first P xs) \<subseteq> set xs"
  by (induction xs) auto

lemma Ack_queued: "set (queued (heap (snd (Ack t n i b)) ! q)) \<subseteq> set (queued (heap b ! q))"
proof (cases "mget (Topics b) n")
  case (Some p)
  obtain f t' where a: "ackFrom (heap b ! p) i = (f, t')" by (cases "ackFrom (heap b ! p) i")
  then have "set (queued t') \<subseteq> set (queued (heap b ! p))" using ackFrom_queued [of "heap b ! p" i] set_remove_first by simp
  then have "set (queued (heap (updTopic p (\<lambda>_. t') b) ! q)) \<subseteq> set (queued (heap b ! q))"
    by (cases "p = q"; cases "p < length (heap b)") (simp_all add: updTopic_def list_update_beyond)
  moreover have "heap (storeAck t n i b') = heap b'" for b' by (simp add: storeAck_def split: option.split)
  ultimately show ?thesis using Some a by (cases f) (simp_all add: Ack_def)
qed (simp add: Ack_def)

text \<open>
  C38: The client library cannot consume. When a topic has a message to deliver and identifiers are not repeated
  in its queue, \<^verbatim>\<open>Subscribe\<close> on the topic takes the message from the queue, but returns an error and not
  the message: the server answers one message as a JSON object, and the client decodes a list. The message is
  in no queue afterwards.
\<close>

theorem client_subscribe_loses_message:
  assumes "broker_inv (broker s)" and "open_to env s c" and "publish_check n = None" and "\<not> Contains n ''..''"
    and "\<not> HasSuffix n ''/''" and "cleanPath (''/consume/'' @ n) = ''/consume/'' @ n" and "mget (Topics (broker s)) n = Some q"
    and "filter (deliverable (now ctx)) (queued (heap (broker s) ! q)) = m # ms" and "distinct (map ID (queued (heap (broker s) ! q)))"
    and "client_Subscribe (overHTTP env ctx addr) (timeText env) c n None s = (res, s')"
  shows "res = Inl jsonError \<and> m \<in> set (queued (heap (broker s) ! q)) \<and> m \<notin> set (queued (heap (broker s') ! q))"
proof -
  have pre: "sdkPrefix c = []" using assms(2) by (simp add: open_to_def)
  obtain r where r: "client_req c ''GET'' (subscribeEndpoint n None) [] = Some r" "Method r = ''GET''" "Path r = ''/consume/'' @ n"
      "RawQuery r = ''auto_ack=true''" "Header_Get r ''Authorization'' = (if sdkKey c \<noteq> [] then ''Bearer '' @ sdkKey c else [])"
    using subscribe_request [OF pre assms(3)] by blast
  define r' where "r' = r\<lparr>RemoteAddr := addr\<rparr>"
  have f: "Method r' = ''GET''" "Path r' = ''/consume/'' @ n" "RawQuery r' = ''auto_ack=true''"
    "Header_Get r' ''Authorization'' = (if sdkKey c \<noteq> [] then ''Bearer '' @ sdkKey c else [])"
    using r by (simp_all add: r'_def Header_Get_def)
  have n: "n \<noteq> []" "\<not> Contains n ''*''" "IsValidTopicName n" using plain_name [OF assms(3,4)] by auto
  define b1 where "b1 = snd (newChan 1 (broker s))"
  have nc: "newChan 1 (broker s) = (length (chans (broker s)), b1)" by (simp add: newChan_def b1_def)
  have b1: "broker_inv b1" "heap b1 = heap (broker s)" "Topics b1 = Topics (broker s)"
    using newChan_inv [OF assms(1), of 1] by (auto simp: b1_def newChan_def)
  obtain msgs ok b2 where cs: "Consume (now ctx) n 1 (length (chans (broker s))) b1 = ((msgs, ok), b2)" by (metis prod.exhaust)
  have "mget (Topics b1) n = Some q" using b1(3) assms(7) by simp
  note sp = consume_spec [OF b1(1) n(2) disjI2 [OF n(3)] this cs]
  have msgs: "msgs = [m]" "ok" using sp b1(2) assms(8) by simp_all
  obtain ex where "mset (queued (heap (broker s) ! q)) = mset [m] + mset (queued (heap b2 ! q)) + mset ex"
    using sp b1(2) msgs by (auto simp: split_off_def)
  then have ms: "mset (queued (heap (broker s) ! q)) = mset (m # queued (heap b2 ! q) @ ex)" by simp
  have "distinct (queued (heap (broker s) ! q))" using assms(9) by (simp add: distinct_map)
  then have m: "m \<notin> set (queued (heap b2 ! q))" using mset_eq_imp_distinct_iff [OF ms] by simp
  have q: "m \<in> set (queued (heap (broker s) ! q))" using mset_eq_setD [OF ms] by simp
  have "authorized (apiKey env) r'" using assms(2) by (intro key_authorizes [OF _ f(4)]) (simp add: open_to_def)
  then have ad: "admits env s r'" using assms(2,6) f(2) by (simp add: admits_def open_to_def)
  let ?s = "s\<lparr>broker := snd (Ack (now ctx) n (ID m) b2)\<rparr>"
  have "ServeHTTP env ctx r' s = Ret (\<lparr>Status = 200, RespBody = encode (qolJSON env m)\<rparr>, ?s)"
    unfolding admitted [OF ad consume_route [OF f(2)]]
    by (subst handleConsume_acking [OF f(1-3) n(1) assms(5)]) (use cs msgs in \<open>simp_all add: b1_def\<close>)
  then have "client_Subscribe (overHTTP env ctx addr) (timeText env) c n None s = (Inl jsonError, ?s)"
    by (simp add: client_Subscribe_def transact_def r(1) overHTTP_def r'_def [symmetric] single_not_decoded)
  then show ?thesis using assms(10) q m Ack_queued [of "now ctx" n "ID m" b2 q] by auto
qed

text \<open>A server with one message in its topic.\<close>

definition full_server :: Server where
  "full_server = NewServer q_published None 0"

theorem client_subscribe_loses_message_witness:
  "\<exists>m s'. client_Subscribe (overHTTP (plain_env ''k'') plain_ctx ''1.2.3.4:5'') decimal_time key_client ''q'' None full_server = (Inl jsonError, s')
     \<and> queued (heap (broker full_server) ! 0) = [m] \<and> m \<notin> set (queued (heap (broker s') ! 0))"
proof -
  have i: "broker_inv (broker full_server)" using brk.inv_reach [OF q_published_reach] by (simp add: full_server_def NewServer_def)
  have f: "open_to (plain_env ''k'') full_server key_client" "publish_check ''q'' = None" "\<not> Contains ''q'' ''..''" "\<not> HasSuffix ''q'' ''/''"
    "cleanPath (''/consume/'' @ ''q'') = ''/consume/'' @ ''q''" "mget (Topics (broker full_server)) ''q'' = Some 0"
    "length (queued (heap (broker full_server) ! 0)) = 1" "list_all (deliverable (now plain_ctx)) (queued (heap (broker full_server) ! 0))"
    by code_simp+
  then obtain m where m: "queued (heap (broker full_server) ! 0) = [m]" by (auto simp: length_Suc_conv)
  with f(8) have d: "filter (deliverable (now plain_ctx)) (queued (heap (broker full_server) ! 0)) = m # []"
    "distinct (map ID (queued (heap (broker full_server) ! 0)))" by simp_all
  obtain res s' where r: "client_Subscribe (overHTTP (plain_env ''k'') plain_ctx ''1.2.3.4:5'') (timeText (plain_env ''k'')) key_client ''q'' None full_server
      = (res, s')" by (rule prod.exhaust)
  from client_subscribe_loses_message [OF i f(1-6) d r] r m show ?thesis by (auto simp: plain_env_def)
qed

subsection \<open>Looking into a queue\<close>

text \<open>A message as it arrives: bytes of texts that are no characters are replaced.\<close>

definition arrived :: "message \<Rightarrow> message" where
  "arrived m = m\<lparr>ID := coerce (ID m), Topic := coerce (message.Topic m), Headers := readHeaders (Headers m)\<rparr>"

lemma messages_decoded:
  assumes "times_read tt" and "\<forall>m \<in> set ms. - (2 ^ 63) \<le> RetryCount m \<and> RetryCount m < 2 ^ 63"
  shows "decodeBody (decodeMessages tt) (encode (JArr (map (messageJSON tt) ms))) = Inr (map arrived ms)"
proof -
  have "depth (messageJSON tt m) \<le> Suc 1" for m unfolding messageJSON_def by (intro depth_JObj_le) (rule messageMembers_depth)
  then have "depth (JArr (map (messageJSON tt) ms)) \<le> Suc (Suc 1)" by auto
  then have "int (depth (JArr (map (messageJSON tt) ms))) \<le> maxNestingDepth" unfolding maxNestingDepth_def by linarith
  then have "Decode (encode (JArr (map (messageJSON tt) ms))) = Some (JArr (map (\<lambda>m. coerced (messageJSON tt m)) ms))"
    using messageJSON_ok(1) by (subst Decode_encode) (simp_all add: list_all_iff comp_def)
  moreover have "those (map (\<lambda>m. decodeMessage tt (coerced (messageJSON tt m))) ms) = Some (map arrived ms)"
    using assms(2) by (induction ms) (simp_all add: decode_messageJSON [OF assms(1)] arrived_def)
  ultimately show ?thesis by (simp add: decodeBody_def decodeMessages_def comp_def)
qed

lemma QueryEscape_plain: "list_all unreserved s \<Longrightarrow> QueryEscape s = s"
  by (induction s) (simp_all add: QueryEscape_def escape_char_def)

lemma QueryEscape_Itoa: "0 \<le> n \<Longrightarrow> QueryEscape (Itoa n) = Itoa n"
  using nat_digits_json [of "nat n"] by (intro QueryEscape_plain) (auto simp: Itoa_def list_all_iff unreserved_def digit_def)

lemma peek_request:
  assumes "sdkPrefix c = []" and "0 \<le> limit"
  shows "\<exists>r. client_req c ''GET'' (''/api/queues/peek?queue='' @ QueryEscape topic @ ''&limit='' @ Itoa limit) [] = Some r
     \<and> Path r = ''/api/queues/peek'' \<and> Query_Get r ''queue'' = topic \<and> Query_Get r ''limit'' = Itoa limit
     \<and> Header_Get r ''Authorization'' = (if sdkKey c \<noteq> [] then ''Bearer '' @ sdkKey c else [])"
proof -
  let ?p = "''/api/queues/peek''" and ?q = "''queue='' @ QueryEscape topic @ ''&limit='' @ Itoa limit"
  have c: "CanonicalMIMEHeaderKey ''Authorization'' = ''Authorization''" "QueryEscape ''queue'' = ''queue''" "QueryEscape ''limit'' = ''limit''"
    by code_simp+
  have l: "list_all plain_char ?p" "list_all (\<lambda>c. c \<noteq> CHR ''#'' \<and> \<not> control c) ''queue=&limit=''" by code_simp+
  have e: "list_all (\<lambda>c. c \<noteq> CHR ''#'' \<and> \<not> control c) (QueryEscape s)" for s
    using QueryEscape_set [of s] escape_set_plain by (auto simp: list_all_iff)
  have "list_all (\<lambda>c. c \<noteq> CHR ''#'' \<and> \<not> control c) ?q"
    using l(2) e [of topic] e [of "Itoa limit"] by (simp add: QueryEscape_Itoa [OF assms(2)])
  then have t: "parseTarget (?p @ ''?'' @ ?q) = Some (?p, ?q)" by (intro parseTarget_query [OF l(1)]) (simp only: list_all_iff)
  have "ParseQuery ?q = [(''queue'', topic), (''limit'', Itoa limit)]"
    using ParseQuery_pairs [of "[(''queue'', topic), (''limit'', Itoa limit)]"]
    by (simp add: query_text_def c QueryEscape_Itoa [OF assms(2)])
  with t show ?thesis using assms(1) by (simp add: client_req_def Query_Get_def Header_Get_def c mget_def)
qed



end
