(* ===== verification/CliProps.thy ===== *)
theory CliProps
  imports Cli ClientProps
begin

text \<open>
  The command line tool together with the server: what the commands do to the broker, and which of their flags count.
\<close>

subsection \<open>Flags\<close>

text \<open>An argument that is no flag.\<close>

definition positional :: "string \<Rightarrow> bool" where
  "positional a \<longleftrightarrow> length a < 2 \<or> hd a \<noteq> CHR ''-''"

lemma flagParse_positional: "positional a \<Longrightarrow> flagParse parseInt known (a # args) vals = Some (vals, a # args)"
  by (simp add: positional_def)

text \<open>
  Flags after the name of a topic do not count. The usage of the commands, and the documentation, put the flags at the
  end; parsing stops at the first argument that is no flag. So whatever follows the topic (and the payload) of \<^verbatim>\<open>pub\<close>,
  \<^verbatim>\<open>sub\<close>, \<^verbatim>\<open>peek\<close> and \<^verbatim>\<open>create\<close>, be it a time to live, a limit, a policy or a flag that does not exist, the command
  does what it does without it.
\<close>

theorem trailing_flags_are_ignored:
  assumes "positional topic"
  shows "HandlePublish do parseInt c (topic # payload # flags) s = HandlePublish do parseInt c [topic, payload] s
     \<and> HandleConsume do parseInt tt c (topic # flags) s = HandleConsume do parseInt tt c [topic] s
     \<and> HandlePeek do parseInt tt c (topic # flags) s = HandlePeek do parseInt tt c [topic] s
     \<and> HandleCreate do parseInt c (topic # flags) s = HandleCreate do parseInt c [topic] s"
  unfolding HandlePublish_def HandleConsume_def HandlePeek_def HandleCreate_def flagParse_positional [OF assms] by simp

theorem trailing_flags_are_ignored_witness:
  "HandleCreate (overHTTP (plain_env ''k'') plain_ctx ''1.2.3.4:5'') (\<lambda>_. None) key_client [''orders'', ''--policy=drop-oldest''] lone_server
   = HandleCreate (overHTTP (plain_env ''k'') plain_ctx ''1.2.3.4:5'') (\<lambda>_. None) key_client [''orders''] lone_server"
proof -
  have "positional ''orders''" by code_simp
  from trailing_flags_are_ignored [OF this, THEN conjunct2, THEN conjunct2, THEN conjunct2] show ?thesis .
qed

subsection \<open>Requests\<close>

text \<open>An authenticated request with a query of one parameter, to a path of the proxied routes.\<close>

definition cli_http :: "Client \<Rightarrow> string \<Rightarrow> string \<Rightarrow> string \<Rightarrow> string \<Rightarrow> http_request" where
  "cli_http c addr method path query =
     \<lparr>Method = method, Path = path, RawQuery = query,
      Header = (if sdkKey c \<noteq> [] then [(''Authorization'', [''Bearer '' @ sdkKey c])] else []), Body = [], RemoteAddr = addr\<rparr>"

lemma cli_authorized: "open_to env s c \<Longrightarrow> authorized (apiKey env) (cli_http c addr method path query)"
proof -
  assume o: "open_to env s c"
  have k: "CanonicalMIMEHeaderKey ''Authorization'' = ''Authorization''" by code_simp
  show ?thesis using o by (intro key_authorizes [where key = "sdkKey c"]) (simp_all add: open_to_def cli_http_def Header_Get_def k mget_def)
qed

lemma cli_request:
  assumes "open_to env s c" and "list_all plain_char path" and "\<forall>c \<in> set query. c \<noteq> CHR ''#'' \<and> \<not> control c"
  shows "DoAuthRequest (overHTTP env ctx addr) c method (path @ ''?'' @ query) None s =
     (case ServeHTTP env ctx (cli_http c addr method path query) s of Ret (resp, s') \<Rightarrow> (Inr resp, s') | _ \<Rightarrow> (Inl ''EOF'', s))"
  using assms(1) parseTarget_query [OF assms(2,3)] by (simp add: DoAuthRequest_def open_to_def overHTTP_def cli_http_def)

lemma queue_query:
  "\<forall>c \<in> set (''queue='' @ QueryEscape topic). c \<noteq> CHR ''#'' \<and> \<not> control c"
  "RawQuery r = ''queue='' @ QueryEscape topic \<Longrightarrow> Query_Get r ''queue'' = topic"
proof -
  have "list_all (\<lambda>c. c \<noteq> CHR ''#'' \<and> \<not> control c) ''queue=''" by code_simp
  then show "\<forall>c \<in> set (''queue='' @ QueryEscape topic). c \<noteq> CHR ''#'' \<and> \<not> control c"
    using QueryEscape_set [of topic] escape_set_plain unfolding list_all_iff by auto
  have "QueryEscape ''queue'' = ''queue''" by code_simp
  then show "RawQuery r = ''queue='' @ QueryEscape topic \<Longrightarrow> Query_Get r ''queue'' = topic"
    using ParseQuery_pairs [of "[(''queue'', topic)]"] by (simp add: Query_Get_def query_text_def)
qed

text \<open>
  C32: \<^verbatim>\<open>tmq rm\<close> deletes and \<^verbatim>\<open>tmq purge\<close> empties the queue with the given name. When the server serves requests itself and
  the tool has its key, the command performs \<^verbatim>\<open>DeleteTopic\<close> or \<^verbatim>\<open>Purge\<close> of the broker with exactly the name of its argument,
  whatever bytes the name has, and nothing else; it reports success if the broker did, and the status 404 if
  the broker refused.
\<close>

theorem cli_removes_queue:
  assumes "open_to env s c" and "(if isPurge then Purge topic (broker s) else DeleteTopic topic (broker s)) = (err, b)"
  shows "HandleRm (overHTTP env ctx addr) c (topic # args) isPurge s =
     (case err of None \<Rightarrow> ORemoved topic isPurge | Some _ \<Rightarrow> OStatus 404, s\<lparr>broker := b\<rparr>)"
proof -
  let ?path = "if isPurge then ''/api/queues/purge'' else ''/api/queues/delete''" and ?q = "''queue='' @ QueryEscape topic"
  define r where "r = cli_http c addr ''DELETE'' ?path ?q"
  have l: "list_all plain_char ''/api/queues/purge''" "list_all plain_char ''/api/queues/delete''"
    "cleanPath ''/api/queues/purge'' = ''/api/queues/purge''" "cleanPath ''/api/queues/delete'' = ''/api/queues/delete''"
    by code_simp+
  have p: "list_all plain_char ?path" and ad: "admits env s r"
    using l assms(1) cli_authorized [OF assms(1)] by (auto simp: admits_def open_to_def r_def cli_http_def)
  have q: "Query_Get r ''queue'' = topic" by (rule queue_query(2)) (simp add: r_def cli_http_def)
  have rt: "findRoute (proxiedRoutes env ctx) (Path r) = Some (if isPurge then handleQueuePurge else handleQueueDelete)"
    by (simp add: r_def cli_http_def findRoute_def proxiedRoutes_def pathMatches_def HasSuffix_def HasPrefix_def)
  have "ServeHTTP env ctx r s = Ret (case err of None \<Rightarrow> \<lparr>Status = 200, RespBody = []\<rparr> | Some e \<Rightarrow> Error e 404, s\<lparr>broker := b\<rparr>)"
    unfolding admitted [OF ad rt] using assms(2)
    by (cases isPurge) (simp_all add: handleQueuePurge_def handleQueueDelete_def q fail_def respond_def split: option.split)
  then have "DoAuthRequest (overHTTP env ctx addr) c ''DELETE'' (?path @ ''?'' @ ?q) None s
      = (Inr (case err of None \<Rightarrow> \<lparr>Status = 200, RespBody = []\<rparr> | Some e \<Rightarrow> Error e 404), s\<lparr>broker := b\<rparr>)"
    unfolding cli_request [OF assms(1) p queue_query(1)] r_def [symmetric] by simp
  moreover have "''?queue='' @ QueryEscape topic = ''?'' @ ?q" by simp
  ultimately show ?thesis unfolding HandleRm_def list.case by (simp only: prod.case sum.case) (simp split: option.split)
qed

theorem cli_removes_queue_witness:
  "\<exists>s'. HandleRm (overHTTP (plain_env ''k'') plain_ctx ''1.2.3.4:5'') key_client [''q''] False lone_server = (ORemoved ''q'' False, s')
     \<and> \<not> TopicExists ''q'' (broker s')"
proof -
  obtain err b where d: "(if False then Purge ''q'' (broker lone_server) else DeleteTopic ''q'' (broker lone_server)) = (err, b)" by (rule prod.exhaust)
  have "case DeleteTopic ''q'' (broker lone_server) of (e, b) \<Rightarrow> e = None \<and> \<not> TopicExists ''q'' b" by code_simp
  with d cli_removes_queue [OF key_client_open d, of plain_ctx "''1.2.3.4:5''" "[]"] show ?thesis by auto
qed

end
