(* ===== verification/Backup.thy ===== *)
theory Backup
  imports Cli
begin

text \<open>
  \<^verbatim>\<open>tmq backup\<close> and \<^verbatim>\<open>tmq restore\<close>, \<^verbatim>\<open>cmd/tmq/handle\<close>. The archive formats are those of \<^verbatim>\<open>archive/zip\<close>, \<^verbatim>\<open>archive/tar\<close> and
  \<^verbatim>\<open>compress/gzip\<close>: writing an archive and reading one are parameters. A data directory is the list of its regular files in
  the order of the walk, by their relative paths; the contents of a file that cannot be opened are \<^const>\<open>None\<close>. Reading an
  archive fails at its start, or gives its entries (name, whether it is a regular file, contents) up to an error or the end.
  A full disk, a data directory that cannot be made and the paths inside the messages of errors are not modelled.
\<close>

datatype archive_format = Zip | TarGz

record archiver =
  pack :: "archive_format \<Rightarrow> (string \<times> bytes) list \<Rightarrow> bytes"
  unpack :: "archive_format \<Rightarrow> bytes \<Rightarrow> ((string \<times> bool \<times> bytes) list \<times> error option) result"

subsection \<open>Paths\<close>

text \<open>\<^verbatim>\<open>filepath.Base\<close> and \<^verbatim>\<open>filepath.Ext\<close>.\<close>

definition lastElement :: "string \<Rightarrow> string" where
  "lastElement path = rev (takeWhile (\<lambda>c. c \<noteq> CHR ''/'') (rev path))"

definition Base :: "string \<Rightarrow> string" where
  "Base path =
     (if path = [] then ''.''
      else
        (let p = rev (dropWhile (\<lambda>c. c = CHR ''/'') (rev path)) in
         if p = [] then ''/'' else lastElement p))"

definition Ext :: "string \<Rightarrow> string" where
  "Ext path =
     (let r = takeWhile (\<lambda>c. c \<noteq> CHR ''.'') (rev (lastElement path)) in
      if length r = length (lastElement path) then [] else CHR ''.'' # rev r)"

subsection \<open>Backup\<close>

text \<open>The walk stops at a log that cannot be opened; in a zip file its entry has been created by then.\<close>

fun walkLogs :: "archive_format \<Rightarrow> (string \<times> bytes option) list \<Rightarrow> (string \<times> bytes) list" where
  "walkLogs fmt [] = []"
| "walkLogs fmt ((path, contents) # files) =
     (if Ext path \<noteq> ''.log'' then walkLogs fmt files
      else (case contents of
              Some b \<Rightarrow> (path, b) # walkLogs fmt files
            | None \<Rightarrow> (if fmt = Zip then [(path, [])] else [])))"

definition HandleBackup ::
  "archiver \<Rightarrow> (string \<Rightarrow> int option) \<Rightarrow> int \<Rightarrow> (string \<times> bytes option) list option \<Rightarrow> string list \<Rightarrow> (string \<times> bytes) option" where
  "HandleBackup ar parseInt unix dataDir args =
     (case (flagParse parseInt [(''format'', StringFlag)] args [], dataDir) of
        (Some (vals, _), Some files) \<Rightarrow>
          (if stringFlag ''format'' ''zip'' vals = ''tar''
           then Some (''tinymq_backup_'' @ Itoa unix @ ''.tar.gz'', pack ar TarGz (walkLogs TarGz files))
           else Some (''tinymq_backup_'' @ Itoa unix @ ''.zip'', pack ar Zip (walkLogs Zip files)))
      | _ \<Rightarrow> None)"

subsection \<open>Restore\<close>

definition maxEntry :: nat where
  "maxEntry = 512 * 2 ^ 20"

text \<open>
  The entries of an archive are written one after the other, until the error at which its reading ends, if any; \<open>creates\<close> says which
  files can be created.
\<close>

fun restoreEntries ::
  "(string \<Rightarrow> bool) \<Rightarrow> error option \<Rightarrow> (string \<times> bool \<times> bytes) list \<Rightarrow> nat \<Rightarrow> (string, bytes) gomap
     \<Rightarrow> error option \<times> (string, bytes) gomap" where
  "restoreEntries creates err [] restored dir =
     (if err \<noteq> None then err else if restored = 0 then Some ''archive contained no .log files'' else None, dir)"
| "restoreEntries creates err ((name, regular, contents) # entries) restored dir =
     (if \<not> regular \<or> \<not> HasSuffix name ''.log'' \<or> Base name = ''.'' \<or> Base name = ''..''
      then restoreEntries creates err entries restored dir
      else if \<not> creates (Base name) then (Some ''cannot create'', dir)
      else restoreEntries creates err entries (restored + 1) (mput (Base name) (take maxEntry contents) dir))"

datatype restore_outcome = NoFile | Cancelled | BadFormat | RestoreFailed error | Restored

definition HandleRestore ::
  "archiver \<Rightarrow> (string \<Rightarrow> int option) \<Rightarrow> (string \<Rightarrow> bytes option) \<Rightarrow> (string \<Rightarrow> bool) \<Rightarrow> string \<Rightarrow> string list
     \<Rightarrow> (string, bytes) gomap \<Rightarrow> (restore_outcome \<times> (string, bytes) gomap) option" where
  "HandleRestore ar parseInt readFile creates answer args dir =
     (case flagParse parseInt [(''file'', StringFlag), (''data-dir'', StringFlag)] args [] of
        None \<Rightarrow> None
      | Some (vals, _) \<Rightarrow>
         (let filename = stringFlag ''file'' [] vals in
          if filename = [] then Some (NoFile, dir)
          else if list_ex (\<lambda>(n, _). HasSuffix n ''.log'') dir \<and> TrimSpace answer \<noteq> ''y'' \<and> TrimSpace answer \<noteq> ''Y'' then Some (Cancelled, dir)
          else if \<not> HasSuffix filename ''.tar.gz'' \<and> \<not> HasSuffix filename ''.tgz'' \<and> \<not> HasSuffix filename ''.zip'' then Some (BadFormat, dir)
          else
            (let fmt = (if HasSuffix filename ''.tar.gz'' \<or> HasSuffix filename ''.tgz'' then TarGz else Zip) in
             case readFile filename of
               None \<Rightarrow> Some (RestoreFailed ''cannot open file'', dir)
             | Some b \<Rightarrow>
                (case unpack ar fmt b of
                   Inl e \<Rightarrow> Some (RestoreFailed e, dir)
                 | Inr (entries, err) \<Rightarrow>
                     (case restoreEntries creates err entries 0 dir of
                        (Some e, dir) \<Rightarrow> Some (RestoreFailed e, dir)
                      | (None, dir) \<Rightarrow> Some (Restored, dir))))))"

subsection \<open>A backup can be restored\<close>

lemma lastElement_flat: "CHR ''/'' \<notin> set p \<Longrightarrow> lastElement p = p"
proof -
  assume "CHR ''/'' \<notin> set p"
  then have "takeWhile (\<lambda>c. c \<noteq> CHR ''/'') (rev p) = rev p" by (intro takeWhile_eq_all_conv [THEN iffD2]) auto
  then show ?thesis unfolding lastElement_def by (simp only: rev_rev_ident)
qed

lemma Base_flat: "CHR ''/'' \<notin> set p \<Longrightarrow> p \<noteq> [] \<Longrightarrow> Base p = p"
proof -
  assume p: "CHR ''/'' \<notin> set p" "p \<noteq> []"
  then have "dropWhile (\<lambda>c. c = CHR ''/'') (rev p) = rev p" by (subst dropWhile_eq_self_iff) (metis hd_in_set set_rev)
  then show ?thesis using p by (simp add: Base_def lastElement_flat)
qed

lemma suffix_append: "HasSuffix (y @ x) x"
  by (simp add: HasSuffix_def)

lemma Ext_log: "Ext p = ''.log'' \<Longrightarrow> HasSuffix p ''.log''"
proof -
  define l where "l = lastElement p"
  define r d where "r = takeWhile (\<lambda>c. c \<noteq> CHR ''.'') (rev l)" and "d = dropWhile (\<lambda>c. c \<noteq> CHR ''.'') (rev l)"
  assume "Ext p = ''.log''"
  then have r: "rev r = ''log''" "length r \<noteq> length l"
    unfolding Ext_def Let_def l_def [symmetric] r_def [symmetric] by (auto split: if_splits)
  have l: "rev l = r @ d" by (simp add: r_def d_def)
  then have "l = rev d @ rev r" by (metis rev_append rev_rev_ident)
  moreover obtain c x where d: "d = c # x" using l r(2) by (cases d) auto
  moreover have "c = CHR ''.''" using d unfolding d_def dropWhile_eq_Cons_conv by simp
  ultimately have lx: "l = rev x @ ''.log''" using r(1) by simp
  have "rev p = takeWhile (\<lambda>c. c \<noteq> CHR ''/'') (rev p) @ dropWhile (\<lambda>c. c \<noteq> CHR ''/'') (rev p)" by simp
  then have "p = rev (dropWhile (\<lambda>c. c \<noteq> CHR ''/'') (rev p)) @ l" unfolding l_def lastElement_def by (metis rev_append rev_rev_ident)
  then obtain y where "p = (y @ rev x) @ ''.log''" unfolding lx by simp
  then show ?thesis using suffix_append by metis
qed

lemma walkLogs_readable:
  "\<forall>(p, c) \<in> set files. c \<noteq> None \<Longrightarrow> walkLogs fmt files = map (\<lambda>(p, c). (p, the c)) (filter (\<lambda>(p, c). Ext p = ''.log'') files)"
  by (induction files) auto

lemma restore_flat:
  assumes "\<forall>(n, b) \<in> set es. HasSuffix n ''.log'' \<and> CHR ''/'' \<notin> set n \<and> creates n \<and> length b \<le> maxEntry" and "es \<noteq> [] \<or> 0 < k"
  shows "restoreEntries creates None (map (\<lambda>(n, b). (n, True, b)) es) k dir = (None, fold (\<lambda>(n, b). mput n b) es dir)"
  using assms
proof (induction es arbitrary: k dir)
  case (Cons e es)
  obtain n b where e: "e = (n, b)" by (cases e)
  have n: "HasSuffix n ''.log''" "CHR ''/'' \<notin> set n" "creates n" "length b \<le> maxEntry" using Cons.prems(1) e by auto
  then have "n \<noteq> []" "n \<noteq> ''.''" "n \<noteq> ''..''" by (auto simp: HasSuffix_def)
  with n Cons.IH [of "k + 1"] Cons.prems(1) e show ?case by (simp add: Base_flat)
qed simp

lemma mget_restored: "wf_map es \<Longrightarrow> mget (fold (\<lambda>(n, b). mput n b) es dir) n = (case mget es n of Some b \<Rightarrow> Some b | None \<Rightarrow> mget dir n)"
proof (induction es arbitrary: dir)
  case (Cons e es)
  obtain k b where e: "e = (k, b)" by (cases e)
  have "k \<notin> fst ` set es" using Cons.prems e by simp
  then have "mget es k = None" by (simp add: mget_def map_of_eq_None_iff)
  moreover have "mget (e # es) n = (if n = k then Some b else mget es n)" by (simp add: mget_def e)
  ultimately show ?case using Cons e by (auto split: option.split)
qed (simp add: mget_def)

lemma mget_logs:
  "\<forall>(p, c) \<in> set files. c \<noteq> None \<Longrightarrow> mget (map (\<lambda>(p, c). (p, the c)) (filter (\<lambda>(p, c). Ext p = ''.log'') files)) n
     = (if Ext n = ''.log'' \<and> mget files n \<noteq> None then the (mget files n) else None)"
  unfolding mget_def by (induction files) auto

lemma backup_file:
  assumes "HandleBackup ar parseInt unix (Some files) args = Some (file, archive)"
  shows "\<exists>fmt. archive = pack ar fmt (walkLogs fmt files) \<and> fmt = (if HasSuffix file ''.tar.gz'' \<or> HasSuffix file ''.tgz'' then TarGz else Zip)
     \<and> (HasSuffix file ''.tar.gz'' \<or> HasSuffix file ''.zip'') \<and> file \<noteq> []"
proof -
  have z: "\<not> HasSuffix (x @ ''.zip'') ''.tar.gz'' \<and> \<not> HasSuffix (x @ ''.zip'') ''.tgz''" for x
  proof -
    have "HasSuffix s y \<Longrightarrow> y \<noteq> [] \<Longrightarrow> last s = last y" for s y unfolding HasSuffix_def by (metis last_drop drop_eq_Nil not_le)
    from this [of "x @ ''.zip''"] show ?thesis by fastforce
  qed
  have s: "HasSuffix (''tinymq_backup_'' @ x @ y) y" for x y using suffix_append [of "''tinymq_backup_'' @ x" y] by simp
  obtain vals rest where "flagParse parseInt [(''format'', StringFlag)] args [] = Some (vals, rest)"
    using assms by (auto simp: HandleBackup_def split: option.splits)
  with assms have "(file = ''tinymq_backup_'' @ Itoa unix @ ''.tar.gz'' \<and> archive = pack ar TarGz (walkLogs TarGz files))
      \<or> (file = ''tinymq_backup_'' @ Itoa unix @ ''.zip'' \<and> archive = pack ar Zip (walkLogs Zip files))"
    by (auto simp: HandleBackup_def split: if_splits)
  then show ?thesis using s [of "Itoa unix"] z [of "''tinymq_backup_'' @ Itoa unix"] by (elim disjE) (force, force)
qed

text \<open>
  C31: A backup can be restored. Let the logs of a data directory, which has no subdirectories with logs, be readable, of at most
  512 MiB and at least one, and let the archive library read what it wrote. Then restoring the archive that \<^verbatim>\<open>tmq backup\<close> wrote
  into a directory without logs succeeds, for both formats, and afterwards every log is there with its contents
  and no other file has changed.
\<close>

theorem backup_restores:
  assumes "\<forall>fmt es. unpack ar fmt (pack ar fmt es) = Inr (map (\<lambda>(n, b). (n, True, b)) es, None)"
    and "\<forall>(p, c) \<in> set files. c \<noteq> None \<and> CHR ''/'' \<notin> set p \<and> length (the c) \<le> maxEntry" and "distinct (map fst files)"
    and "\<exists>(p, c) \<in> set files. Ext p = ''.log''" and "HandleBackup ar parseInt unix (Some files) args = Some (file, archive)"
    and "readFile file = Some archive" and "\<forall>n. creates n" and "\<not> list_ex (\<lambda>(n, _). HasSuffix n ''.log'') dir"
  shows "\<exists>dir'. HandleRestore ar parseInt readFile creates answer [''--file'', file] dir = Some (Restored, dir')
     \<and> (\<forall>n. mget dir' n = (if Ext n = ''.log'' \<and> mget files n \<noteq> None then the (mget files n) else mget dir n))"
proof -
  obtain fmt where f: "archive = pack ar fmt (walkLogs fmt files)" "fmt = (if HasSuffix file ''.tar.gz'' \<or> HasSuffix file ''.tgz'' then TarGz else Zip)"
      "HasSuffix file ''.tar.gz'' \<or> HasSuffix file ''.zip''" "file \<noteq> []"
    using backup_file [OF assms(5)] by blast
  let ?es = "map (\<lambda>(p, c). (p, the c)) (filter (\<lambda>(p, c). Ext p = ''.log'') files)"
  let ?dir = "fold (\<lambda>(n, b). mput n b) ?es dir"
  have some: "\<forall>(p, c) \<in> set files. c \<noteq> None" using assms(2) by auto
  have "restoreEntries creates None (map (\<lambda>(n, b). (n, True, b)) ?es) 0 dir = (None, ?dir)"
    using assms(2,4,7) Ext_log by (intro restore_flat) (auto simp: filter_empty_conv)
  moreover have "unpack ar fmt archive = Inr (map (\<lambda>(n, b). (n, True, b)) ?es, None)"
    using assms(1) by (simp add: f(1) walkLogs_readable [OF some])
  moreover have "flagParse parseInt [(''file'', StringFlag), (''data-dir'', StringFlag)] [''--file'', file] [] = Some ([(''file'', file)], [])"
    by (simp add: flagOk_def mget_def mput_def)
  ultimately have "HandleRestore ar parseInt readFile creates answer [''--file'', file] dir = Some (Restored, ?dir)"
    using f(3,4) assms(6,8) by (auto simp: HandleRestore_def stringFlag_def mget_def Let_def f(2) [symmetric])
  moreover have "mget ?dir n = (if Ext n = ''.log'' \<and> mget files n \<noteq> None then the (mget files n) else mget dir n)" for n
  proof -
    have "map fst ?es = map fst (filter (\<lambda>(p, c). Ext p = ''.log'') files)" by (simp add: comp_def split_beta)
    then have "wf_map ?es" using distinct_map_filter [OF assms(3)] by metis
    note g = mget_restored [OF this, of dir n, unfolded mget_logs [OF some]]
    have "mget files n = Some c \<Longrightarrow> c \<noteq> None" for c using some by (auto simp: mget_def dest!: map_of_SomeD)
    then show ?thesis unfolding g by (cases "mget files n") (auto split: option.splits)
  qed
  ultimately show ?thesis by blast
qed

text \<open>An archive library that marks every byte and the end of every list, and a directory with a log and another file.\<close>

definition framed :: "bytes \<Rightarrow> bytes" where
  "framed bs = concat (map (\<lambda>b. [1, b]) bs) @ [0]"

definition marked :: "(string \<times> bytes) list \<Rightarrow> bytes" where
  "marked es = concat (map (\<lambda>(n, b). 1 # framed (bytesOf n) @ framed b) es)"

fun readFramed :: "bytes \<Rightarrow> bytes \<times> bytes" where
  "readFramed (c # b # r) = (if c = 1 then (case readFramed r of (bs, r') \<Rightarrow> (b # bs, r')) else ([], b # r))"
| "readFramed _ = ([], [])"

fun readMarked :: "nat \<Rightarrow> bytes \<Rightarrow> (string \<times> bool \<times> bytes) list" where
  "readMarked (Suc k) (c # r) =
     (case readFramed r of (n, r') \<Rightarrow> (case readFramed r' of (b, r'') \<Rightarrow> (str n, True, b) # readMarked k r''))"
| "readMarked _ _ = []"

definition marking :: archiver where
  "marking = \<lparr>pack = (\<lambda>_. marked), unpack = (\<lambda>_ b. Inr (readMarked (length b) b, None))\<rparr>"

lemma readFramed_framed: "readFramed (framed bs @ r) = (bs, r)"
proof (induction bs)
  case Nil
  show ?case by (cases r) (simp_all add: framed_def)
qed (simp add: framed_def)

lemma marking_reads: "unpack marking fmt (pack marking fmt es) = Inr (map (\<lambda>(n, b). (n, True, b)) es, None)"
proof -
  have "length es \<le> k \<Longrightarrow> readMarked k (marked es) = map (\<lambda>(n, b). (n, True, b)) es" for k
  proof (induction es arbitrary: k)
    case (Cons e es)
    obtain n b where "e = (n, b)" by (cases e)
    with Cons show ?case by (cases k) (simp_all add: marked_def readFramed_framed)
  qed (simp add: marked_def)
  moreover have "length es \<le> length (marked es)" by (induction es) (auto simp: marked_def)
  ultimately show ?thesis by (simp add: marking_def)
qed

theorem backup_restores_witness:
  "\<exists>file archive dir'. HandleBackup marking (\<lambda>_. None) 7 (Some [(''q.log'', Some [1, 2]), (''.probe'', Some [3])]) [''--format=tar''] = Some (file, archive)
     \<and> HandleRestore marking (\<lambda>_. None) (\<lambda>f. if f = file then Some archive else None) (\<lambda>_. True) [] [''--file'', file] [(''x'', [9])] = Some (Restored, dir')
     \<and> mget dir' ''q.log'' = Some [1, 2] \<and> mget dir' ''.probe'' = None \<and> mget dir' ''x'' = Some [9]"
proof -
  let ?files = "[(''q.log'', Some [1, 2]), (''.probe'', Some [3])] :: (string \<times> bytes option) list" and ?dir = "[(''x'', [9])] :: (string, bytes) gomap"
  obtain fname archive where h: "HandleBackup marking (\<lambda>_. None) 7 (Some ?files) [''--format=tar''] = Some (fname, archive)"
  proof -
    have "HandleBackup marking (\<lambda>_. None) 7 (Some ?files) [''--format=tar''] \<noteq> None" by code_simp
    then show ?thesis using that by auto
  qed
  have e: "Ext ''q.log'' = ''.log''" "Ext ''.probe'' \<noteq> ''.log''" "Ext ''x'' \<noteq> ''.log''" by code_simp+
  have l: "\<forall>fmt es. unpack marking fmt (pack marking fmt es) = Inr (map (\<lambda>(n, b). (n, True, b)) es, None)" using marking_reads by blast
  have f: "\<forall>(p, c) \<in> set ?files. c \<noteq> None \<and> CHR ''/'' \<notin> set p \<and> length (the c) \<le> maxEntry" "distinct (map fst ?files)"
    "\<exists>(p, c) \<in> set ?files. Ext p = ''.log''" "\<not> list_ex (\<lambda>(n, _). HasSuffix n ''.log'') ?dir"
    using e(1) by (simp_all add: maxEntry_def HasSuffix_def)
  obtain dir' where d: "HandleRestore marking (\<lambda>_. None) (\<lambda>f. if f = fname then Some archive else None) (\<lambda>_. True) [] [''--file'', fname] ?dir = Some (Restored, dir')"
    "\<forall>n. mget dir' n = (if Ext n = ''.log'' \<and> mget ?files n \<noteq> None then the (mget ?files n) else mget ?dir n)"
    using backup_restores [OF l f(1-3) h, of "\<lambda>f. if f = fname then Some archive else None" "\<lambda>_. True" ?dir "[]"] f(4) by auto
  from d(2) e have "mget dir' ''q.log'' = Some [1, 2]" "mget dir' ''.probe'' = None" "mget dir' ''x'' = Some [9]" by (simp_all add: mget_def)
  with h d(1) show ?thesis by blast
qed

end
