(* ===== verification/Doctor.thy ===== *)
theory Doctor
  imports GoStrings
begin

text \<open>
  \<^verbatim>\<open>tmq doctor\<close>, \<^verbatim>\<open>cmd/tmq/handle/doctor.go\<close>. What the checks find (files, ports, the health of a broker) is a record;
  the lines that are printed are counted, not spelled out.
\<close>

datatype data_dir = NoDir | StatError | NotDir | Dir bool

record doctor_env =
  getenv :: "string \<Rightarrow> string"
  dataDir :: data_dir
  hasEnvFile :: bool
  listens :: "string \<Rightarrow> bool"
  healthz :: "int option"

record tally =
  checks :: nat
  warnings :: nat
  failures :: nat

definition report :: "bool \<Rightarrow> bool \<Rightarrow> tally \<Rightarrow> tally" where
  "report ok warn t =
     (let t = t\<lparr>checks := checks t + 1\<rparr> in
      if ok then t else if warn then t\<lparr>warnings := warnings t + 1\<rparr> else t\<lparr>failures := failures t + 1\<rparr>)"

definition checkDataDir :: "doctor_env \<Rightarrow> tally \<Rightarrow> tally" where
  "checkDataDir env =
     (case dataDir env of NoDir \<Rightarrow> report True True | StatError \<Rightarrow> report False False | NotDir \<Rightarrow> report False False
      | Dir writable \<Rightarrow> if writable then report True False else report False False)"

definition checkPort :: "doctor_env \<Rightarrow> string \<Rightarrow> tally \<Rightarrow> tally" where
  "checkPort env port = (if listens env port then report True False else report False False)"

definition checkBrokerReachable :: "doctor_env \<Rightarrow> tally \<Rightarrow> tally" where
  "checkBrokerReachable env =
     (case healthz env of None \<Rightarrow> report True True | Some code \<Rightarrow> if code = 200 then report True False else report True True)"

datatype verdict = Failed nat nat | Review nat | Passed nat

definition httpPort :: "doctor_env \<Rightarrow> string" where
  "httpPort env = (if getenv env ''PORT'' = [] then ''7800'' else getenv env ''PORT'')"

definition mqttPort :: "doctor_env \<Rightarrow> string" where
  "mqttPort env = (if getenv env ''TINYMQ_MQTT_PORT'' = [] then ''1883'' else getenv env ''TINYMQ_MQTT_PORT'')"

definition checkEnvFile :: "doctor_env \<Rightarrow> tally \<Rightarrow> tally" where
  "checkEnvFile env = (if hasEnvFile env then report True False else report True True)"

definition checkAPIKey :: "doctor_env \<Rightarrow> tally \<Rightarrow> tally" where
  "checkAPIKey env = (if getenv env ''TINYMQ_API_KEY'' = [] then report True True else report True False)"

definition checkTLS :: "doctor_env \<Rightarrow> tally \<Rightarrow> tally" where
  "checkTLS env =
     (let certFile = getenv env ''TINYMQ_TLS_CERT''; keyFile = getenv env ''TINYMQ_TLS_KEY'' in
      if certFile = [] \<and> keyFile = [] then report True False
      else if certFile \<noteq> [] \<and> keyFile \<noteq> [] then report True False else report False False)"

definition checkCluster :: "doctor_env \<Rightarrow> tally \<Rightarrow> tally" where
  "checkCluster env t =
     (if getenv env ''TINYMQ_CLUSTER_ADDR'' \<noteq> [] then
        (if getenv env ''TINYMQ_CLUSTER_SECRET'' = [] \<and> getenv env ''TINYMQ_CLUSTER_ALLOW_INSECURE'' \<noteq> ''true''
         then report False False t else report True False t)
      else t)"

definition checkPorts :: "doctor_env \<Rightarrow> tally \<Rightarrow> tally" where
  "checkPorts env t =
     (let t = checkPort env (httpPort env) t;
          t = (if getenv env ''TINYMQ_MQTT_DISABLE'' \<noteq> ''true'' then checkPort env (mqttPort env) t else t)
      in if getenv env ''TINYMQ_NATS_PORT'' \<noteq> [] then checkPort env (getenv env ''TINYMQ_NATS_PORT'') t else t)"

definition HandleDoctor :: "doctor_env \<Rightarrow> verdict" where
  "HandleDoctor env =
     (let t = checkBrokerReachable env (checkPorts env (checkCluster env (checkTLS env (checkAPIKey env (checkEnvFile env (checkDataDir env
                (report True False \<lparr>checks = 0, warnings = 0, failures = 0\<rparr>)))))))
      in if failures t > 0 then Failed (failures t) (warnings t)
         else if warnings t > 0 then Review (warnings t) else Passed (checks t))"

subsection \<open>The verdict\<close>

text \<open>The problems that count, and the number of checks.\<close>

definition problems :: "doctor_env \<Rightarrow> nat" where
  "problems env = length (filter (\<lambda>b. b)
     [dataDir env \<in> {StatError, NotDir, Dir False},
      (getenv env ''TINYMQ_TLS_CERT'' = []) \<noteq> (getenv env ''TINYMQ_TLS_KEY'' = []),
      getenv env ''TINYMQ_CLUSTER_ADDR'' \<noteq> [] \<and> getenv env ''TINYMQ_CLUSTER_SECRET'' = [] \<and> getenv env ''TINYMQ_CLUSTER_ALLOW_INSECURE'' \<noteq> ''true'',
      \<not> listens env (httpPort env),
      getenv env ''TINYMQ_MQTT_DISABLE'' \<noteq> ''true'' \<and> \<not> listens env (mqttPort env),
      getenv env ''TINYMQ_NATS_PORT'' \<noteq> [] \<and> \<not> listens env (getenv env ''TINYMQ_NATS_PORT'')])"

definition checked :: "doctor_env \<Rightarrow> nat" where
  "checked env = 7 + length (filter (\<lambda>b. b)
     [getenv env ''TINYMQ_CLUSTER_ADDR'' \<noteq> [], getenv env ''TINYMQ_MQTT_DISABLE'' \<noteq> ''true'', getenv env ''TINYMQ_NATS_PORT'' \<noteq> []])"

lemma report_simps:
  "report True w \<lparr>checks = c, warnings = n, failures = f\<rparr> = \<lparr>checks = Suc c, warnings = n, failures = f\<rparr>"
  "report False False \<lparr>checks = c, warnings = n, failures = f\<rparr> = \<lparr>checks = Suc c, warnings = n, failures = Suc f\<rparr>"
  by (simp_all add: report_def)

text \<open>
  What \<^verbatim>\<open>tmq doctor\<close> concludes. It fails exactly when there is a problem: an unusable data directory, half a TLS configuration,
  a cluster address without a secret, or a port of a service that is in use; and it reports how many there are. It
  never reports a warning: the number of warnings is always zero, as all checks that mean to warn also say that all is well.
  Without a problem all checks passed, though there be no API key, no data directory and no broker.
\<close>

theorem doctor_never_warns:
  "HandleDoctor env = (if problems env = 0 then Passed (checked env) else Failed (problems env) 0)"
proof -
  let ?g = "getenv env"
  define T where "T c f = \<lparr>checks = c, warnings = 0, failures = f\<rparr>" for c f :: nat
  have T: "report True w (T c f) = T (Suc c) f" "report False False (T c f) = T (Suc c) (Suc f)" "failures (T c f) = f" "warnings (T c f) = 0"
    "checks (T c f) = c" "report True False \<lparr>checks = 0, warnings = 0, failures = 0\<rparr> = T 1 0" for w c f
    by (simp_all add: T_def report_def)
  have dir: "checkDataDir env (T c f) = T (Suc c) (f + of_bool (dataDir env \<in> {StatError, NotDir, Dir False}))" for c f
    by (cases "dataDir env") (auto simp: checkDataDir_def T)
  have env: "checkEnvFile env (T c f) = T (Suc c) f" "checkAPIKey env (T c f) = T (Suc c) f" for c f
    by (simp_all add: checkEnvFile_def checkAPIKey_def T)
  have tls: "checkTLS env (T c f) = T (Suc c) (f + of_bool ((?g ''TINYMQ_TLS_CERT'' = []) \<noteq> (?g ''TINYMQ_TLS_KEY'' = [])))" for c f
    by (cases "?g ''TINYMQ_TLS_CERT'' = []"; cases "?g ''TINYMQ_TLS_KEY'' = []") (simp_all add: checkTLS_def T)
  have cluster: "checkCluster env (T c f) = T (c + of_bool (?g ''TINYMQ_CLUSTER_ADDR'' \<noteq> []))
      (f + of_bool (?g ''TINYMQ_CLUSTER_ADDR'' \<noteq> [] \<and> ?g ''TINYMQ_CLUSTER_SECRET'' = [] \<and> ?g ''TINYMQ_CLUSTER_ALLOW_INSECURE'' \<noteq> ''true''))" for c f
    by (simp add: checkCluster_def T)
  have port: "checkPort env x (T c f) = T (Suc c) (f + of_bool (\<not> listens env x))" for x c f
    by (simp add: checkPort_def T)
  have ports: "checkPorts env (T c f) = T (c + 1 + of_bool (?g ''TINYMQ_MQTT_DISABLE'' \<noteq> ''true'') + of_bool (?g ''TINYMQ_NATS_PORT'' \<noteq> []))
      (f + of_bool (\<not> listens env (httpPort env)) + of_bool (?g ''TINYMQ_MQTT_DISABLE'' \<noteq> ''true'' \<and> \<not> listens env (mqttPort env))
         + of_bool (?g ''TINYMQ_NATS_PORT'' \<noteq> [] \<and> \<not> listens env (?g ''TINYMQ_NATS_PORT'')))" for c f
    by (simp add: checkPorts_def port)
  have reach: "checkBrokerReachable env (T c f) = T (Suc c) f" for c f
    by (simp add: checkBrokerReachable_def T split: option.split)
  have count: "length (filter (\<lambda>b. b) (x # xs)) = of_bool x + length (filter (\<lambda>b. b) xs)" for x xs by simp
  have "problems env + 0 = failures (checkBrokerReachable env (checkPorts env (checkCluster env (checkTLS env (checkAPIKey env (checkEnvFile env
      (checkDataDir env (T 1 0))))))))"
    unfolding problems_def count dir env tls cluster ports reach T by simp
  then show ?thesis
    unfolding HandleDoctor_def checked_def count dir env tls cluster ports reach T by (simp only: Let_def T) (simp add: T)
qed

end
