(* ===== verification/System.thy ===== *)
theory System
  imports Startup RestProps Cluster
begin

text \<open>
  The program as a whole (\<^verbatim>\<open>cmd/tinymq/main.go\<close>): which services the environment turns on, the start on a data directory and
  the graceful stop, and what is kept from one run to the next. Waiting for the connections to close is left out.
\<close>

subsection \<open>Configuration\<close>

record services =
  httpOn :: string
  clusterOn :: "string option"
  mqttOn :: "string option"
  natsOn :: "string option"
  fsyncOn :: bool

definition configure :: "(string \<Rightarrow> string) \<Rightarrow> services" where
  "configure getenv =
     (let mqttDisabled = (getenv ''TINYMQ_MQTT_DISABLE'' = ''true'');
          mqttPort = (if getenv ''TINYMQ_MQTT_PORT'' = [] \<and> \<not> mqttDisabled then ''1883'' else getenv ''TINYMQ_MQTT_PORT'')
      in \<lparr>httpOn = (if getenv ''PORT'' = [] then ''7800'' else getenv ''PORT''),
          clusterOn = (if getenv ''TINYMQ_CLUSTER_ADDR'' \<noteq> [] then Some (getenv ''TINYMQ_CLUSTER_ADDR'') else None),
          mqttOn = (if mqttPort \<noteq> [] \<and> \<not> mqttDisabled then Some mqttPort else None),
          natsOn = (if getenv ''TINYMQ_NATS_PORT'' \<noteq> [] then Some (getenv ''TINYMQ_NATS_PORT'') else None),
          fsyncOn = (getenv ''TINYMQ_FSYNC'' = ''true'')\<rparr>)"

text \<open>The ticker of the compaction; \<^verbatim>\<open>time.NewTicker\<close> panics unless the interval is positive.\<close>

definition compactionTicker :: "(string \<Rightarrow> string) \<Rightarrow> time run" where
  "compactionTicker getenv =
     (let dflt = 10 * 60 * 1000000000; envInt = getenv ''TINYMQ_COMPACT_INTERVAL'';
          d = (if envInt \<noteq> [] then (case ParseDuration envInt of Some d \<Rightarrow> d | None \<Rightarrow> dflt) else dflt)
      in if d \<le> 0 then Panic else Ret d)"

subsection \<open>Start and stop\<close>

text \<open>
  \<^const>\<open>None\<close> is the fatal exit of a cluster node without a secret. The environment of the cluster, the results of its
  replication and the rate of the limiter are given as their components take them.
\<close>

definition program_start ::
  "(string \<Rightarrow> string) \<Rightarrow> cluster_env \<Rightarrow> time \<Rightarrow> (nat \<Rightarrow> error option) \<Rightarrow> (string \<Rightarrow> bool) \<Rightarrow> (string \<Rightarrow> string \<Rightarrow> bool)
     \<Rightarrow> (nat \<Rightarrow> bytes option) \<Rightarrow> rat \<Rightarrow> DiskStorage \<Rightarrow> Server option run" where
  "program_start getenv cenv t results xc xm rnd rt store =
     bind_run (recoverLogs True (broker_New (Some store) (getenv ''TINYMQ_MAX_MESSAGES'') (getenv ''TINYMQ_MAX_TOPICS'')
        (getenv ''TINYMQ_DEFAULT_POLICY'') xc xm rnd))
       (\<lambda>b. bind_run (compactionTicker getenv)
          (\<lambda>_. Ret (case clusterOn (configure getenv) of
                       None \<Rightarrow> Some (NewServer b None rt)
                     | Some addr \<Rightarrow>
                         map_option (\<lambda>(n, b). NewServer b (Some n) rt) (NewNode cenv t addr (httpOn (configure getenv)) results b))))"

definition program_stop :: "Server \<Rightarrow> Server" where
  "program_stop s =
     (let s = MarkDraining s in s\<lparr>broker := (broker s)\<lparr>storage := map_option CloseAll (storage (broker s))\<rparr>\<rparr>)"

subsection \<open>From one run to the next\<close>

text \<open>All log files of a data directory belong to topics with clean names.\<close>

definition topic_logs :: "DiskStorage \<Rightarrow> bool" where
  "topic_logs s \<longleftrightarrow> (\<forall>f. mget (dirents s) f \<noteq> None \<and> HasSuffix f ''.log'' \<longrightarrow> (\<exists>t. clean_name t \<and> f = logFilePath t))"

lemma topic_logs_put:
  assumes "good json s" and "wal_okay json (OpPut t n m)" and "topic_logs s"
  shows "topic_logs (snd (AppendPut t n m s))"
proof -
  have n: "clean_name n" using assms(2) by simp
  have small: "length (json (put_record json t m)) < maxLine" using assms(2) by simp
  obtain e s' where a: "AppendPut t n m s = (e, s')" by (rule prod.exhaust)
  note w = writeRecord_good [OF assms(1) n a [unfolded AppendPut_def], unfolded stamp_put, OF small]
  have "mget (dirents s') f = mget (dirents s) f" if "f \<noteq> logFilePath n" "f \<noteq> logFilePath n @ ''.tmp''" for f
    using w(4) that by (simp add: frame_def)
  moreover have "\<not> HasSuffix (logFilePath n @ ''.tmp'') ''.log''" by (simp add: HasSuffix_def)
  ultimately have "\<exists>t. clean_name t \<and> f = logFilePath t" if "mget (dirents s') f \<noteq> None" "HasSuffix f ''.log''" for f
    using assms(3) n that unfolding topic_logs_def by metis
  then show ?thesis by (simp add: topic_logs_def a)
qed

lemma recovered_exists: "recovered s n \<noteq> [] \<Longrightarrow> mget (dirents s) (logFilePath n) \<noteq> None"
  by (cases "mget (dirents s) (logFilePath n)")
    (auto simp: recovered_def log_of_def empty_file_def file_tokens_def active_messages_def replay_def collect_live_def)


text \<open>A server with an empty data directory.\<close>

definition disk_server :: Server where
  "disk_server = NewServer (one_topic (Some (new_disk True (\<lambda>_. [])))) None 0"


end
