(* ===== verification/Spec2Isabelle.thy ===== *)
theory Spec2Isabelle
  imports Names Helper DurableLog Checksum BrokerLimits BrokerQueues Mqtt Nats ClusterElection Startup RateLimit WsClient CliProps Backup Doctor System
begin

text \<open>
  Verification of tinymq, a message broker written in Go.

  \<^bold>\<open>The program.\<close> A broker keeps queues of messages in memory (\<^verbatim>\<open>internal/broker\<close>) and a write-ahead log of each topic on disk
  (\<^verbatim>\<open>internal/storage\<close>). Four gateways translate their protocols to calls of the broker: REST, MQTT, NATS and WebSocket
  (\<^verbatim>\<open>internal/transport\<close>). Nodes of a cluster elect a leader, which replicates what is published and to which the others forward
  requests (\<^verbatim>\<open>internal/cluster\<close>). \<^verbatim>\<open>cmd/tinymq\<close> starts all this; \<^verbatim>\<open>client\<close> and \<^verbatim>\<open>cmd/tmq\<close> are its clients.

  \<^bold>\<open>The model.\<close> Structs are records, Go maps are association lists (\<open>gomap\<close>, in \<open>Prelude\<close>), strings are lists of bytes, instants and
  durations are integers in nanoseconds, payloads are lists of 8-bit words. An operation takes a state and returns its results and
  the new state; errors are values (\<open>error option\<close>, \<open>result\<close>), and what may hang or panic returns in the type \<open>run\<close>. An
  operation of the broker is one atomic step: the locks of the code make it one, except that a goroutine or timer that it starts
  is an entry of \<open>jobs\<close>, run by a step of its own. \<open>broker_step\<close> is the relation of all these steps, and the theorems about
  reachable brokers hold for every interleaving of them.

  \<^bold>\<open>Theories and sources.\<close>
  \<^item> \<open>Prelude\<close>, \<open>GoStrings\<close>, \<open>Bytes\<close>: maps, runs, reachability; the functions of \<^verbatim>\<open>strings\<close> and \<^verbatim>\<open>strconv\<close>; bytes and base64.
  \<^item> \<open>Names\<close>: valid names and wildcards (\<^verbatim>\<open>broker.go\<close>). \<open>Helper\<close>: \<^verbatim>\<open>internal/helper\<close>. \<open>Message\<close>, \<open>MessageJson\<close>: \<^verbatim>\<open>message.go\<close>.
  \<^item> \<open>Storage\<close>: \<^verbatim>\<open>storage.go\<close> over a directory with handles, torn writes and failing calls. \<open>Wal\<close>, \<open>WalFiles\<close>, \<open>DurableLog\<close>,
    \<open>Checksum\<close>: the log recovers the unacknowledged messages, compaction keeps them, the checksum notices a changed byte.
  \<^item> \<open>Queues\<close>, \<open>Broker\<close>: \<^verbatim>\<open>broker.go\<close>. \<open>BrokerInv\<close>, \<open>BrokerSteps\<close>: the invariant of the broker and that every step keeps it.
    \<open>BrokerProps\<close>, \<open>BrokerLimits\<close>, \<open>BrokerQueues\<close>, \<open>BrokerFrame\<close>: no step gets stuck; where a message goes; capacities; the order of
    consumption, acknowledgment and requeueing; what publishing leaves alone.
  \<^item> \<open>Gateway\<close>: connections of any protocol act on the broker by its operations only. \<open>MqttPackets\<close>, \<open>Mqtt\<close>: \<^verbatim>\<open>transport/mqtt\<close>. \<open>Nats\<close>:
    \<^verbatim>\<open>transport/nats\<close>. \<open>Ws\<close>: \<^verbatim>\<open>transport/ws\<close>. \<open>WsClient\<close>: \<^verbatim>\<open>client/ws.go\<close>, and both ends together.
  \<^item> \<open>Json\<close>, \<open>JsonDoc\<close>, \<open>Http\<close>, \<open>Url\<close>, \<open>Duration\<close>, \<open>DurationText\<close>: what the program uses of \<^verbatim>\<open>encoding/json\<close>, \<^verbatim>\<open>net/http\<close>, \<^verbatim>\<open>net/url\<close> and
    \<^verbatim>\<open>time\<close>, with the round trips.
  \<^item> \<open>RateLimit\<close>: \<^verbatim>\<open>rest/ratelimit.go\<close>. \<open>Rest\<close>: \<^verbatim>\<open>rest/server.go\<close>, all routes and handlers. \<open>RestProps\<close>, \<open>RestEffects\<close>: every request is
    answered, the key is needed, followers forward, and what single requests do.
  \<^item> \<open>Cluster\<close>: \<^verbatim>\<open>cluster/node.go\<close>. \<open>ClusterProps\<close>, \<open>ClusterElection\<close>: signatures, replication and synchronisation; elections as a
    relation on all nodes and the messages between them, with one leader in a term.
  \<^item> \<open>Client\<close>, \<open>ClientProps\<close>: \<^verbatim>\<open>client/client.go\<close>, alone and against the server. \<open>Cli\<close>, \<open>CliProps\<close>: \<^verbatim>\<open>cmd/tmq/shared\<close>, \<^verbatim>\<open>main.go\<close>,
    \<^verbatim>\<open>shell.go\<close> and \<^verbatim>\<open>handle/cluster.go\<close>. \<open>Doctor\<close>, \<open>Backup\<close>: \<^verbatim>\<open>handle/doctor.go\<close>, \<^verbatim>\<open>backup.go\<close> and \<^verbatim>\<open>restore.go\<close>.
  \<^item> \<open>Startup\<close>, \<open>System\<close>: \<^verbatim>\<open>cmd/tinymq/main.go\<close>: recovery, compaction, start and stop, and that an accepted message survives them.

  \<^bold>\<open>Interfaces.\<close> Locales state what components rely on: \<open>gomap_spec\<close> (maps), \<open>invariant_system\<close> (steps and invariants), \<open>durable_log\<close> (what the
  broker needs of the log), \<open>prefix_codec\<close> (encodings that can be read off a stream), \<open>vote_quorums\<close> (quorums that meet),
  \<open>environment\<close> and \<open>connection_loop\<close> (what may happen to the broker while a connection waits), \<open>broker_view\<close> (parts of the broker that
  publishing keeps). Each is interpreted on the definitions of the model.

  \<^bold>\<open>Fuel.\<close> Publishing recurses through bound topics at most eleven levels, the limit of the code. The JSON parser gets twice the length of its
  text plus one, and a lemma shows that more makes no difference. The loops of connections recur on the bytes that are left.

  \<^bold>\<open>Parameters.\<close> Hashes and MACs, the random source, the bytes of a log record, RFC 3339 texts, URL parsing for webhooks and host
  lookup, the decoder of the JSON filter (which formats floats), page templates, archive formats, the transport of the clients and the
  answers of a leader to a forwarded request are arguments. What a theorem needs of one is a hypothesis, and its witness gives an instance.

  \<^bold>\<open>Not modelled.\<close> Listening sockets, TLS, signals and the start and end of goroutines, which are calls of the Go runtime; the interleaving of
  goroutines inside one operation of the broker, which its locks exclude; the dialer of the webhooks; response headers; the tables and
  colours of the tool, and its endless loops beyond one round; \<^verbatim>\<open>tmq bench\<close>, which measures time; the dashboard's page and
  deployment files. Floats of the rate limiter are rational numbers.
\<close>

end
